(* ===== verification/Prelude.thy ===== *)
theory Prelude
  imports Main "HOL-Library.Word"
begin

text \<open>
  Shared vocabulary of the development: bytes and machine integers, Go's two result shapes
  (a value or an error; a state that is mutated on the way to either), big-endian integers,
  and the byte streams that stand for an \<^verbatim>\<open>io.Reader\<close> and an \<^verbatim>\<open>io.Writer\<close>.
\<close>

unbundle bit_operations_syntax

named_theorems codec_simps \<open>lengths and inverses of the byte encodings\<close>
named_theorems run_simps \<open>unfolding of the result and state-passing combinators\<close>

type_synonym byte = "8 word"
type_synonym bytes = "8 word list"
type_synonym u16 = "16 word"
type_synonym u32 = "32 word"
type_synonym u64 = "64 word"
type_synonym i64 = "64 word"

section \<open>Results: a value or an error\<close>

text \<open>Go's \<^verbatim>\<open>v, err := f(); if err != nil { return err }\<close>.\<close>

definition bindE :: "'e + 'a \<Rightarrow> ('a \<Rightarrow> 'e + 'b) \<Rightarrow> 'e + 'b" where
  "bindE m f = (case m of Inl e \<Rightarrow> Inl e | Inr x \<Rightarrow> f x)"

definition guardE :: "bool \<Rightarrow> 'e \<Rightarrow> 'e + unit" where
  "guardE ok e = (if ok then Inr () else Inl e)"

definition fromOption :: "'e \<Rightarrow> 'a option \<Rightarrow> 'e + 'a" where
  "fromOption e m = (case m of None \<Rightarrow> Inl e | Some x \<Rightarrow> Inr x)"

definition mapErr :: "('e \<Rightarrow> 'f) \<Rightarrow> 'e + 'a \<Rightarrow> 'f + 'a" where
  "mapErr g m = (case m of Inl e \<Rightarrow> Inl (g e) | Inr x \<Rightarrow> Inr x)"

lemma bindE_simps [simp]:
  "bindE (Inl e) f = Inl e"
  "bindE (Inr x) f = f x"
  by (simp_all add: bindE_def)

lemma bindE_eq_Inr: "bindE m f = Inr y \<longleftrightarrow> (\<exists>x. m = Inr x \<and> f x = Inr y)"
  by (cases m) simp_all

lemma bindE_eq_Inl: "bindE m f = Inl e \<longleftrightarrow> m = Inl e \<or> (\<exists>x. m = Inr x \<and> f x = Inl e)"
  by (cases m) simp_all

lemma guardE_simps [simp]:
  "guardE True e = Inr ()"
  "guardE False e = Inl e"
  by (simp_all add: guardE_def)

lemma guardE_eq_Inr [simp]: "guardE b e = Inr u \<longleftrightarrow> b"
  by (simp add: guardE_def)

lemma fromOption_simps [simp]:
  "fromOption e None = Inl e"
  "fromOption e (Some x) = Inr x"
  by (simp_all add: fromOption_def)

lemma fromOption_eq_Inr [simp]: "fromOption e m = Inr x \<longleftrightarrow> m = Some x"
  by (cases m) simp_all

lemma mapErr_simps [simp]:
  "mapErr g (Inl e) = Inl (g e)"
  "mapErr g (Inr x) = Inr x"
  by (simp_all add: mapErr_def)

lemma mapErr_eq_Inr [simp]: "mapErr g m = Inr x \<longleftrightarrow> m = Inr x"
  by (cases m) simp_all

section \<open>State passing with early return\<close>

text \<open>
  A Go function that mutates \<^verbatim>\<open>s\<close> and may return early with an error: the state it leaves
  behind is part of the result on both outcomes.
\<close>

type_synonym ('s, 'e, 'a) prog = "'s \<Rightarrow> ('e + 'a) \<times> 's"

definition retS :: "'a \<Rightarrow> ('s, 'e, 'a) prog" where
  "retS x = (\<lambda>s. (Inr x, s))"

definition failS :: "'e \<Rightarrow> ('s, 'e, 'a) prog" where
  "failS e = (\<lambda>s. (Inl e, s))"

definition bindS :: "('s, 'e, 'a) prog \<Rightarrow> ('a \<Rightarrow> ('s, 'e, 'b) prog) \<Rightarrow> ('s, 'e, 'b) prog" where
  "bindS m f = (\<lambda>s. case m s of (Inl e, t) \<Rightarrow> (Inl e, t) | (Inr x, t) \<Rightarrow> f x t)"

definition liftS :: "'e + 'a \<Rightarrow> ('s, 'e, 'a) prog" where
  "liftS r = (\<lambda>s. (r, s))"

definition getS :: "('s, 'e, 's) prog" where
  "getS = (\<lambda>s. (Inr s, s))"

definition modifyS :: "('s \<Rightarrow> 's) \<Rightarrow> ('s, 'e, unit) prog" where
  "modifyS f = (\<lambda>s. (Inr (), f s))"

lemma prog_apply [run_simps]:
  "retS x s = (Inr x, s)"
  "failS e s = (Inl e, s)"
  "liftS r s = (r, s)"
  "getS s = (Inr s, s)"
  "modifyS g s = (Inr (), g s)"
  by (simp_all add: retS_def failS_def liftS_def getS_def modifyS_def)

lemma bindS_apply [run_simps]:
  "bindS m f s = (case m s of (r, t) \<Rightarrow> (case r of Inl e \<Rightarrow> (Inl e, t) | Inr x \<Rightarrow> f x t))"
  by (simp add: bindS_def split: prod.splits sum.splits)

lemma bindS_step:
  "m s = (Inr x, t) \<Longrightarrow> bindS m f s = f x t"
  "m s = (Inl e, t) \<Longrightarrow> bindS m f s = (Inl e, t)"
  by (simp_all add: bindS_def)

lemma bindS_eq_Inr:
  "bindS m f s = (Inr y, u) \<longleftrightarrow> (\<exists>x t. m s = (Inr x, t) \<and> f x t = (Inr y, u))"
  by (auto simp: bindS_def split: prod.splits sum.splits)

section \<open>Big-endian integers\<close>

fun be :: "nat \<Rightarrow> nat \<Rightarrow> bytes" where
  "be 0 n = []"
| "be (Suc k) n = be k (n div 256) @ [of_nat n]"

fun unbe :: "nat \<Rightarrow> bytes \<Rightarrow> nat" where
  "unbe a [] = a"
| "unbe a (b # bs) = unbe (a * 256 + unat b) bs"

lemma length_be [simp, codec_simps]: "length (be k n) = k"
  by (induction k arbitrary: n) simp_all

lemma unbe_append: "unbe a (xs @ ys) = unbe (unbe a xs) ys"
  by (induction xs arbitrary: a) simp_all

lemma unbe_acc: "unbe a xs = a * 256 ^ length xs + unbe 0 xs"
proof (induction xs arbitrary: a)
  case Nil
  then show ?case by simp
next
  case (Cons x xs)
  have "unbe a (x # xs) = (a * 256 + unat x) * 256 ^ length xs + unbe 0 xs"
    using Cons.IH [of "a * 256 + unat x"] by simp
  moreover have "unbe 0 (x # xs) = unat x * 256 ^ length xs + unbe 0 xs"
    using Cons.IH [of "unat x"] by simp
  ultimately show ?case by (simp add: algebra_simps)
qed

lemma unat_bounds:
  "unat (b :: byte) < 256" "unat (v :: u16) < 65536" "unat (w :: u32) < 4294967296"
  using unsigned_less [of b, where ?'a = nat] unsigned_less [of v, where ?'a = nat]
    unsigned_less [of w, where ?'a = nat]
  by simp_all

lemma unat_of_nat_byte: "unat (of_nat n :: byte) = n mod 256"
  by (simp add: unat_of_nat)

lemma unbe_be: "unbe 0 (be k n) = n mod 256 ^ k"
proof (induction k arbitrary: n)
  case 0
  then show ?case by simp
next
  case (Suc k)
  have "unbe 0 (be (Suc k) n) = (n div 256) mod 256 ^ k * 256 + n mod 256"
    by (simp add: unbe_append Suc.IH unat_of_nat_byte)
  also have "\<dots> = n mod (256 * 256 ^ k)"
    by (metis add.commute mod_mult2_eq mult.commute)
  finally show ?case by simp
qed

lemma unbe_lt: "unbe 0 bs < 256 ^ length bs"
proof (induction bs rule: rev_induct)
  case Nil
  then show ?case by simp
next
  case (snoc b bs)
  have "unat b < 256" by (rule unat_bounds)
  moreover have "Suc (unbe 0 bs) \<le> 256 ^ length bs" using snoc by simp
  hence "Suc (unbe 0 bs) * 256 \<le> 256 ^ length bs * 256" by (rule mult_le_mono1)
  ultimately show ?case by (simp add: unbe_append)
qed

lemma be_unbe: "be (length bs) (unbe 0 bs) = bs"
proof (induction bs rule: rev_induct)
  case Nil
  then show ?case by simp
next
  case (snoc b bs)
  have b: "unat b < 256" by (rule unat_bounds)
  hence "(unbe 0 bs * 256 + unat b) div 256 = unbe 0 bs" by simp
  moreover have "(of_nat (unbe 0 bs * 256 + unat b) :: byte) = b"
  proof -
    have "(256 :: byte) = 0" by simp
    then have "(of_nat (unbe 0 bs * 256) :: byte) = 0"
      by (simp only: of_nat_mult of_nat_numeral mult_zero_right)
    then show ?thesis by (simp add: of_nat_add [symmetric] del: of_nat_mult)
  qed
  ultimately show ?case
    using snoc by (simp add: unbe_append del: of_nat_add of_nat_mult)
qed

definition putU16 :: "u16 \<Rightarrow> bytes" where "putU16 v = be 2 (unat v)"
definition putU32 :: "u32 \<Rightarrow> bytes" where "putU32 v = be 4 (unat v)"
definition getU16 :: "bytes \<Rightarrow> u16" where "getU16 bs = of_nat (unbe 0 bs)"
definition getU32 :: "bytes \<Rightarrow> u32" where "getU32 bs = of_nat (unbe 0 bs)"
definition getU64 :: "bytes \<Rightarrow> u64" where "getU64 bs = of_nat (unbe 0 bs)"

lemma length_put [simp, codec_simps]:
  "length (putU16 v) = 2" "length (putU32 w) = 4"
  by (simp_all add: putU16_def putU32_def)

lemma getU16_putU16 [simp, codec_simps]: "getU16 (putU16 v) = v"
  using unat_bounds(2) [of v] by (simp add: getU16_def putU16_def unbe_be)

lemma getU32_putU32 [simp, codec_simps]: "getU32 (putU32 v) = v"
  using unat_bounds(3) [of v] by (simp add: getU32_def putU32_def unbe_be)

lemma putU32_getU32: "length bs = 4 \<Longrightarrow> putU32 (getU32 bs) = bs"
  using unbe_lt [of bs] be_unbe [of bs]
  by (simp add: putU32_def getU32_def unat_of_nat)

lemma putU16_getU16: "length bs = 2 \<Longrightarrow> putU16 (getU16 bs) = bs"
  using unbe_lt [of bs] be_unbe [of bs]
  by (simp add: putU16_def getU16_def unat_of_nat)

lemma putU32_inject [simp]: "putU32 v = putU32 w \<longleftrightarrow> v = w"
  by (metis getU32_putU32)

lemma putU16_inject [simp]: "putU16 v = putU16 w \<longleftrightarrow> v = w"
  by (metis getU16_putU16)

lemma put_not_Nil [simp]: "putU32 v \<noteq> []" "putU16 w \<noteq> []"
  by (metis length_put list.size(3) zero_neq_numeral)+

section \<open>Byte streams\<close>

text \<open>
  What an \<^verbatim>\<open>io.Reader\<close> still has to deliver, and the error its next read returns once those
  bytes are gone. \<^verbatim>\<open>readFull\<close> is \<^verbatim>\<open>io.ReadFull\<close>: \<^verbatim>\<open>io.EOF\<close> when nothing at all could be read,
  \<^verbatim>\<open>io.ErrUnexpectedEOF\<close> when the stream ended part way; the partial bytes are consumed.
\<close>

datatype ioErr = EOF | UnexpectedEOF | Timeout | Broken

record reader_st =
  inBytes :: bytes
  inEnd :: ioErr

fun readFull :: "nat \<Rightarrow> (reader_st, ioErr, bytes) prog" where
  "readFull k r =
     (if k \<le> length (inBytes r)
      then (Inr (take k (inBytes r)), r\<lparr>inBytes := drop k (inBytes r)\<rparr>)
      else (Inl (if inEnd r = EOF \<and> inBytes r \<noteq> [] then UnexpectedEOF else inEnd r),
            r\<lparr>inBytes := []\<rparr>))"

lemma readFull_append:
  "length xs = k \<Longrightarrow> inBytes r = xs @ ys \<Longrightarrow> readFull k r = (Inr xs, r\<lparr>inBytes := ys\<rparr>)"
  by auto

text \<open>
  What has been handed to an \<^verbatim>\<open>io.Writer\<close>, and how many more bytes it will take before its
  writes fail (\<^verbatim>\<open>None\<close>: it never fails). A failing write may have sent a prefix.
\<close>

record writer_st =
  outBytes :: bytes
  outRoom :: "nat option"

fun writeBytes :: "bytes \<Rightarrow> (writer_st, ioErr, unit) prog" where
  "writeBytes p w =
     (case outRoom w of
        None \<Rightarrow> (Inr (), w\<lparr>outBytes := outBytes w @ p\<rparr>)
      | Some k \<Rightarrow>
          (if length p \<le> k
           then (Inr (), w\<lparr>outBytes := outBytes w @ p, outRoom := Some (k - length p)\<rparr>)
           else (Inl Broken, w\<lparr>outBytes := outBytes w @ take k p, outRoom := Some 0\<rparr>)))"

section \<open>Interfaces the components share\<close>

text \<open>
  A codec: an encoder and a decoder that fails on anything the encoder does not produce.
  \<^verbatim>\<open>ok\<close> says which values the encoder is used on.
\<close>

locale codec =
  fixes enc :: "'a \<Rightarrow> bytes"
    and dec :: "bytes \<Rightarrow> 'e + 'a"
    and ok :: "'a \<Rightarrow> bool"
  assumes dec_enc: "ok x \<Longrightarrow> dec (enc x) = Inr x"
begin

lemma enc_inject: "ok x \<Longrightarrow> ok y \<Longrightarrow> enc x = enc y \<Longrightarrow> x = y"
  by (metis dec_enc sum.inject(2))

end

text \<open>A canonical codec also re-encodes to the very bytes it accepted.\<close>

locale canonical_codec = codec +
  assumes enc_dec: "dec bs = Inr x \<Longrightarrow> enc x = bs"
      and dec_ok: "dec bs = Inr x \<Longrightarrow> ok x"
begin

lemma dec_inject: "dec as = Inr x \<Longrightarrow> dec bs = Inr x \<Longrightarrow> as = bs"
  using enc_dec by blast

lemma dec_iff: "dec bs = Inr x \<longleftrightarrow> ok x \<and> bs = enc x"
  using enc_dec dec_ok dec_enc by blast

end

end
