(* ===== verification/GoText.thy ===== *)
theory GoText
  imports Prelude
begin

text \<open>
  The parts of Go's standard library the program uses on text: strings as byte sequences,
  \<^verbatim>\<open>encoding/hex\<close>, \<^verbatim>\<open>encoding/base32\<close> (standard alphabet, no padding) and
  \<^verbatim>\<open>encoding/base64\<close> (standard alphabet), ASCII case folding, and decimal integers.
  A Go \<^verbatim>\<open>string\<close> is a list of characters here, one per byte.
\<close>

section \<open>Strings and bytes\<close>

definition byteOf :: "char \<Rightarrow> byte" where "byteOf c = of_nat (of_char c)"
definition charOf :: "byte \<Rightarrow> char" where "charOf b = char_of (unat b)"

definition toBytes :: "string \<Rightarrow> bytes" where "toBytes s = map byteOf s"
definition ofBytes :: "bytes \<Rightarrow> string" where "ofBytes b = map charOf b"

lemma charOf_byteOf [simp]: "charOf (byteOf c) = c"
  by (simp add: charOf_def byteOf_def unat_of_nat)

lemma byteOf_charOf [simp]: "byteOf (charOf b) = b"
  using unat_bounds(1) [of b] by (simp add: charOf_def byteOf_def)

lemma ofBytes_toBytes [simp, codec_simps]: "ofBytes (toBytes s) = s"
  by (simp add: ofBytes_def toBytes_def comp_def)

lemma toBytes_ofBytes [simp, codec_simps]: "toBytes (ofBytes b) = b"
  by (simp add: ofBytes_def toBytes_def comp_def)

lemma byteOf_eq_0 [simp]: "byteOf c = 0 \<longleftrightarrow> c = CHR 0x00"
proof -
  have "byteOf (CHR 0x00) = 0" by (simp add: byteOf_def)
  then show ?thesis by (metis charOf_byteOf)
qed

lemma toBytes_inject [simp]: "toBytes s = toBytes t \<longleftrightarrow> s = t"
  by (metis ofBytes_toBytes)

lemma ofBytes_inject [simp]: "ofBytes s = ofBytes t \<longleftrightarrow> s = t"
  by (metis toBytes_ofBytes)

lemma length_text [simp, codec_simps]: "length (toBytes s) = length s" "length (ofBytes b) = length b"
  by (simp_all add: toBytes_def ofBytes_def)

lemma toBytes_append: "toBytes (s @ t) = toBytes s @ toBytes t"
  by (simp add: toBytes_def)

lemma toBytes_Nil_iff [simp]: "toBytes s = [] \<longleftrightarrow> s = []"
  by (simp add: toBytes_def)

section \<open>Bits, most significant first\<close>

definition byteBits :: "byte \<Rightarrow> bool list" where
  "byteBits b = map (\<lambda>i. bit b i) [7, 6, 5, 4, 3, 2, 1, 0]"

definition toBits :: "bytes \<Rightarrow> bool list" where
  "toBits bs = concat (map byteBits bs)"

fun bitsVal :: "nat \<Rightarrow> bool list \<Rightarrow> nat" where
  "bitsVal a [] = a"
| "bitsVal a (b # bs) = bitsVal (2 * a + (if b then 1 else 0)) bs"

text \<open>Groups of \<^verbatim>\<open>k\<close> bits, the last one filled up with zero bits.\<close>

function bitGroups :: "nat \<Rightarrow> bool list \<Rightarrow> bool list list" where
  "bitGroups k bs =
     (if k = 0 \<or> bs = [] then []
      else take k (bs @ replicate k False) # bitGroups k (drop k bs))"
  by pat_completeness auto
termination
  by (relation "measure (\<lambda>(k, bs). length bs)") auto

declare bitGroups.simps [simp del]

lemma length_byteBits [simp]: "length (byteBits b) = 8"
  by (simp add: byteBits_def)

lemma length_toBits [simp]: "length (toBits bs) = 8 * length bs"
  by (induction bs) (simp_all add: toBits_def)

lemma ceil_div_step:
  assumes "0 < k" "0 < (n :: nat)"
  shows "Suc ((n - k + k - 1) div k) = (n + k - 1) div k"
proof -
  have "n + k - 1 = (n - 1) + k" using assms by simp
  then have "(n + k - 1) div k = Suc ((n - 1) div k)"
    using assms by (simp only: div_add_self2)
  moreover have "(n - k + k - 1) div k = (n - 1) div k"
    using assms by (cases "n \<le> k") simp_all
  ultimately show ?thesis by simp
qed

lemma length_bitGroups: "0 < k \<Longrightarrow> length (bitGroups k bs) = (length bs + k - 1) div k"
proof (induction k bs rule: bitGroups.induct)
  case (1 k bs)
  show ?case
  proof (cases "bs = []")
    case True
    with "1.prems" show ?thesis by (simp add: bitGroups.simps [of k "[]"])
  next
    case False
    have "length (bitGroups k bs) = Suc ((length bs - k + k - 1) div k)"
      using "1.IH" "1.prems" False by (simp add: bitGroups.simps [of k bs])
    also have "\<dots> = (length bs + k - 1) div k"
      using "1.prems" False by (intro ceil_div_step) simp_all
    finally show ?thesis .
  qed
qed

lemma bitGroups_width: "g \<in> set (bitGroups k bs) \<Longrightarrow> length g = k"
proof (induction k bs rule: bitGroups.induct)
  case (1 k bs)
  show ?case
  proof (cases "k = 0 \<or> bs = []")
    case True
    with "1.prems" show ?thesis by (simp add: bitGroups.simps [of k bs])
  next
    case False
    with "1.prems" "1.IH" show ?thesis by (auto simp: bitGroups.simps [of k bs])
  qed
qed

lemma bitsVal_bound: "bitsVal a bs < (a + 1) * 2 ^ length bs"
proof (induction bs arbitrary: a)
  case Nil
  then show ?case by simp
next
  case (Cons b bs)
  have "bitsVal a (b # bs) < (2 * a + (if b then 1 else 0) + 1) * 2 ^ length bs"
    using Cons.IH [of "2 * a + (if b then 1 else 0)"] by simp
  also have "\<dots> \<le> (2 * a + 2) * 2 ^ length bs"
    by (intro mult_le_mono1) simp
  finally show ?case by (simp add: algebra_simps)
qed

section \<open>Base32 without padding, hexadecimal\<close>

definition base32Alphabet :: string where
  "base32Alphabet = ''ABCDEFGHIJKLMNOPQRSTUVWXYZ234567''"

definition base32Encode :: "bytes \<Rightarrow> string" where
  "base32Encode bs = map (\<lambda>g. base32Alphabet ! bitsVal 0 g) (bitGroups 5 (toBits bs))"

lemma length_base32 [codec_simps]: "length (base32Encode bs) = (8 * length bs + 4) div 5"
  by (simp add: base32Encode_def length_bitGroups)

lemma base32_chars: "c \<in> set (base32Encode bs) \<Longrightarrow> c \<in> set base32Alphabet"
proof -
  assume "c \<in> set (base32Encode bs)"
  then obtain g where g: "g \<in> set (bitGroups 5 (toBits bs))" and c: "c = base32Alphabet ! bitsVal 0 g"
    by (auto simp: base32Encode_def)
  have "bitsVal 0 g < length base32Alphabet"
    using bitsVal_bound [of 0 g] bitGroups_width [OF g] by (simp add: base32Alphabet_def)
  then show ?thesis unfolding c by (rule nth_mem)
qed

definition hexDigits :: string where "hexDigits = ''0123456789abcdef''"

definition hexEncode :: "bytes \<Rightarrow> string" where
  "hexEncode bs = concat (map (\<lambda>b. [hexDigits ! (unat b div 16), hexDigits ! (unat b mod 16)]) bs)"

lemma length_hexEncode [codec_simps]: "length (hexEncode bs) = 2 * length bs"
  by (induction bs) (simp_all add: hexEncode_def)

definition hexVal :: "char \<Rightarrow> int option" where
  "hexVal c =
     (let v = (of_char c :: int)
      in if 48 \<le> v \<and> v \<le> 57 then Some (v - 48)
         else if 97 \<le> v \<and> v \<le> 102 then Some (v - 87)
         else if 65 \<le> v \<and> v \<le> 70 then Some (v - 55)
         else None)"

text \<open>\<^verbatim>\<open>hex.DecodeString\<close>: an error (\<^verbatim>\<open>None\<close>) on an odd length or a character that is no digit.\<close>

fun hexDecode :: "string \<Rightarrow> bytes option" where
  "hexDecode [] = Some []"
| "hexDecode [c] = None"
| "hexDecode (c # d # s) =
     (case (hexVal c, hexVal d) of
        (Some x, Some y) \<Rightarrow> map_option (\<lambda>r. word_of_int (16 * x + y) # r) (hexDecode s)
      | _ \<Rightarrow> None)"

section \<open>ASCII text\<close>

text \<open>\<^verbatim>\<open>strings.ToLower\<close> and \<^verbatim>\<open>strings.TrimSpace\<close> on ASCII text.\<close>

definition asciiLower :: "char \<Rightarrow> char" where
  "asciiLower c = (let v = (of_char c :: nat) in if 65 \<le> v \<and> v \<le> 90 then char_of (v + 32) else c)"

definition toLower :: "string \<Rightarrow> string" where "toLower s = map asciiLower s"

definition hasPrefix :: "string \<Rightarrow> string \<Rightarrow> bool" where
  "hasPrefix s p \<longleftrightarrow> take (length p) s = p"

fun containsStr :: "string \<Rightarrow> string \<Rightarrow> bool" where
  "containsStr [] p \<longleftrightarrow> p = []"
| "containsStr (c # s) p \<longleftrightarrow> hasPrefix (c # s) p \<or> containsStr s p"

lemma length_toLower [simp]: "length (toLower s) = length s"
  by (simp add: toLower_def)

lemma dropWhile_trim: "dropWhile P (rev (dropWhile P (rev (dropWhile P s)))) = rev (dropWhile P (rev (dropWhile P s)))"
proof (cases "rev (dropWhile P (rev (dropWhile P s)))")
  case Nil
  then show ?thesis by (simp only: dropWhile.simps)
next
  case (Cons a l)
  have "dropWhile P s = rev (dropWhile P (rev (dropWhile P s))) @ rev (takeWhile P (rev (dropWhile P s)))"
    by (metis rev_append rev_rev_ident takeWhile_dropWhile_id)
  with Cons have "dropWhile P s = a # (l @ rev (takeWhile P (rev (dropWhile P s))))" by simp
  then have "\<not> P a" by (metis hd_dropWhile list.sel(1) list.distinct(1))
  then show ?thesis by (simp only: Cons dropWhile.simps if_False)
qed

section \<open>Decimal integers\<close>

fun decimalNat :: "nat \<Rightarrow> string" where
  "decimalNat n = (if n < 10 then [char_of (48 + n)] else decimalNat (n div 10) @ [char_of (48 + n mod 10)])"

declare decimalNat.simps [simp del]

definition decimalInt :: "int \<Rightarrow> string" where
  "decimalInt i = (if i < 0 then CHR ''-'' # decimalNat (nat (- i)) else decimalNat (nat i))"

end
