(* ===== verification/Crypto.thy ===== *)
theory Crypto
  imports GoText
begin

text \<open>
  The cryptographic primitives the program calls. Their code is not part of the repository
  (\<^verbatim>\<open>crypto/*\<close>, \<^verbatim>\<open>golang.org/x/crypto\<close>), so they are the fields of a record that every
  definition using them takes as an argument. The predicates below name the documented
  behaviour that some properties rely on; none of them is a security assumption, only the
  lengths and the inverse laws every correct implementation has.
\<close>

record crypto =
  c_sha256 :: "bytes \<Rightarrow> bytes"
  c_hmac :: "bytes \<Rightarrow> bytes \<Rightarrow> bytes"                        \<comment> \<open>key, data\<close>
  c_extract :: "bytes \<Rightarrow> bytes \<Rightarrow> bytes"                     \<comment> \<open>HKDF: salt, input keying material\<close>
  c_expand :: "bytes \<Rightarrow> bytes \<Rightarrow> nat \<Rightarrow> bytes"              \<comment> \<open>HKDF: PRK, info, length\<close>
  c_seal :: "bytes \<Rightarrow> bytes \<Rightarrow> bytes \<Rightarrow> bytes \<Rightarrow> bytes"      \<comment> \<open>AEAD: key, nonce, plaintext, associated data\<close>
  c_open :: "bytes \<Rightarrow> bytes \<Rightarrow> bytes \<Rightarrow> bytes \<Rightarrow> bytes option"
  c_xpub :: "bytes \<Rightarrow> bytes"                                 \<comment> \<open>X25519: the public key of a private key\<close>
  c_ecdh :: "bytes \<Rightarrow> bytes \<Rightarrow> bytes option"                 \<comment> \<open>private key, peer public key; None on an all-zero result\<close>
  c_edpub :: "bytes \<Rightarrow> bytes"                                \<comment> \<open>Ed25519: the public key of a seed\<close>
  c_sign :: "bytes \<Rightarrow> bytes \<Rightarrow> bytes"                        \<comment> \<open>seed, message\<close>
  c_verify :: "bytes \<Rightarrow> bytes \<Rightarrow> bytes \<Rightarrow> bool"             \<comment> \<open>public key, message, signature\<close>
  c_kemPub :: "bytes \<Rightarrow> bytes"                               \<comment> \<open>ML-KEM-768: encapsulation key of a seed\<close>
  c_kemCheck :: "bytes \<Rightarrow> bool"                              \<comment> \<open>is this a well-formed encapsulation key\<close>
  c_encaps :: "bytes \<Rightarrow> bytes \<Rightarrow> bytes \<times> bytes"              \<comment> \<open>key, coins: shared key and ciphertext\<close>
  c_decaps :: "bytes \<Rightarrow> bytes \<Rightarrow> bytes"                      \<comment> \<open>seed, ciphertext; implicit rejection\<close>

definition hash_lengths :: "crypto \<Rightarrow> bool" where
  "hash_lengths C \<longleftrightarrow>
     (\<forall>x. length (c_sha256 C x) = 32) \<and> (\<forall>k x. length (c_hmac C k x) = 32)
     \<and> (\<forall>s x. length (c_extract C s x) = 32) \<and> (\<forall>p i n. n \<le> 8160 \<longrightarrow> length (c_expand C p i n) = n)"

definition aead_law :: "crypto \<Rightarrow> bool" where
  "aead_law C \<longleftrightarrow>
     (\<forall>k n c a p. c_open C k n c a = Some p \<longleftrightarrow> c = c_seal C k n p a)
     \<and> (\<forall>k n p a. length (c_seal C k n p a) = length p + 16)"

definition dh_law :: "crypto \<Rightarrow> bool" where
  "dh_law C \<longleftrightarrow>
     (\<forall>a. length (c_xpub C a) = 32) \<and> (\<forall>a b. c_ecdh C a (c_xpub C b) = c_ecdh C b (c_xpub C a))"

definition kem_law :: "crypto \<Rightarrow> bool" where
  "kem_law C \<longleftrightarrow>
     (\<forall>s. length (c_kemPub C s) = 1184 \<and> c_kemCheck C (c_kemPub C s))
     \<and> (\<forall>k r. length (snd (c_encaps C k r)) = 1088)
     \<and> (\<forall>s r. c_decaps C s (snd (c_encaps C (c_kemPub C s) r)) = fst (c_encaps C (c_kemPub C s) r))"

definition sig_law :: "crypto \<Rightarrow> bool" where
  "sig_law C \<longleftrightarrow>
     (\<forall>s. length (c_edpub C s) = 32) \<and> (\<forall>s m. length (c_sign C s m) = 64)
     \<and> (\<forall>s m. c_verify C (c_edpub C s) m (c_sign C s m))"

definition crypto_law :: "crypto \<Rightarrow> bool" where
  "crypto_law C \<longleftrightarrow> hash_lengths C \<and> aead_law C \<and> dh_law C \<and> kem_law C \<and> sig_law C"

lemmas crypto_laws = hash_lengths_def aead_law_def dh_law_def kem_law_def sig_law_def

lemma crypto_law_parts:
  assumes "crypto_law C"
  shows "hash_lengths C" "aead_law C" "dh_law C" "kem_law C" "sig_law C"
  using assms by (simp_all add: crypto_law_def)

lemma hash_lengths_simps:
  assumes "hash_lengths C"
  shows "length (c_sha256 C x) = 32" "length (c_hmac C k x) = 32"
    "length (c_extract C s x) = 32" "n \<le> 8160 \<Longrightarrow> length (c_expand C p i n) = n"
  using assms by (simp_all add: hash_lengths_def)

lemma aead_open_seal: "aead_law C \<Longrightarrow> c_open C k n (c_seal C k n p a) a = Some p"
  by (simp add: aead_law_def)

lemma aead_open_iff: "aead_law C \<Longrightarrow> c_open C k n c a = Some p \<longleftrightarrow> c = c_seal C k n p a"
  by (simp add: aead_law_def)

lemma aead_length: "aead_law C \<Longrightarrow> length (c_seal C k n p a) = length p + 16"
  by (simp add: aead_law_def)

section \<open>A concrete instance\<close>

text \<open>
  The laws above can hold together: a transparent instance, useless as cryptography, at which
  the witnesses of the development evaluate its definitions.
\<close>

definition fill :: "nat \<Rightarrow> bytes \<Rightarrow> bytes" where
  "fill n x = take n (x @ replicate n 0)"

definition plainSeal :: "bytes \<Rightarrow> bytes \<Rightarrow> bytes \<Rightarrow> bytes \<Rightarrow> bytes" where
  "plainSeal k n p a = p @ fill 16 (take 8 k @ take 8 a)"

definition plainOpen :: "bytes \<Rightarrow> bytes \<Rightarrow> bytes \<Rightarrow> bytes \<Rightarrow> bytes option" where
  "plainOpen k n c a =
     (let p = take (length c - 16) c in if c = plainSeal k n p a then Some p else None)"

definition plainCrypto :: crypto where
  "plainCrypto = \<lparr>
     c_sha256 = fill 32,
     c_hmac = (\<lambda>k x. fill 32 (x @ k)),
     c_extract = (\<lambda>s x. fill 32 (x @ s)),
     c_expand = (\<lambda>p i n. fill n p),
     c_seal = plainSeal,
     c_open = plainOpen,
     c_xpub = fill 32,
     c_ecdh = (\<lambda>a b. Some (map2 (+) (fill 32 a) (fill 32 b))),
     c_edpub = (\<lambda>s. fill 32 s),
     c_sign = (\<lambda>s m. fill 64 (fill 32 s)),
     c_verify = (\<lambda>p m s. s = fill 64 p),
     c_kemPub = fill 1184,
     c_kemCheck = (\<lambda>k. length k = 1184),
     c_encaps = (\<lambda>k r. (fill 32 (fill 8 k @ r), fill 1088 r)),
     c_decaps = (\<lambda>s c. fill 32 (fill 8 s @ take 24 c)) \<rparr>"

lemma length_fill [simp]: "length (fill n x) = n"
  by (simp add: fill_def)

lemma fill_fill: "m \<le> n \<Longrightarrow> fill m (fill n x) = fill m x"
  by (simp add: fill_def take_append min_def)

lemma plainOpen_iff: "plainOpen k n c a = Some p \<longleftrightarrow> c = plainSeal k n p a"
  by (auto simp: plainOpen_def plainSeal_def Let_def)

lemma take_fill: "m \<le> n \<Longrightarrow> take m (fill n x) = fill m x"
  by (simp add: fill_def min_def)

lemma fill_append_fill: "fill (a + b) (fill a s @ fill b r) = fill (a + b) (fill a s @ r)"
  by (simp add: fill_def)

lemma map2_plus_commute: "map2 (+) xs ys = map2 (+) ys (xs :: byte list)"
  by (induction xs ys rule: list_induct2') (simp_all add: add.commute)

lemma plain_ecdh: "map2 (+) (fill 32 a) (fill 32 (fill 32 b)) = map2 (+) (fill 32 b) (fill 32 (fill 32 a))"
  by (subst map2_plus_commute) (simp only: fill_fill order_refl)

lemma plain_kem: "fill 32 (fill 8 s @ take 24 (fill 1088 r)) = fill 32 (fill 8 (fill 1184 s) @ r)"
proof -
  have "fill 8 (fill 1184 s) = fill 8 s" by (rule fill_fill) simp
  moreover have "take 24 (fill 1088 r) = fill 24 r" by (rule take_fill) simp
  moreover have "fill 32 (fill 8 s @ fill 24 r) = fill 32 (fill 8 s @ r)"
    using fill_append_fill [of 8 24 s r] by simp
  ultimately show ?thesis by (simp only:)
qed

lemma plainCrypto_law: "crypto_law plainCrypto"
proof -
  have "hash_lengths plainCrypto" by (simp add: hash_lengths_def plainCrypto_def)
  moreover have "aead_law plainCrypto"
    by (simp add: aead_law_def plainCrypto_def plainOpen_iff) (simp add: plainSeal_def)
  moreover have "dh_law plainCrypto"
    by (simp add: dh_law_def plainCrypto_def plain_ecdh)
  moreover have "kem_law plainCrypto"
    by (simp add: kem_law_def plainCrypto_def plain_kem)
  moreover have "sig_law plainCrypto"
    by (simp add: sig_law_def plainCrypto_def)
  ultimately show ?thesis by (simp add: crypto_law_def)
qed

end
