(* ===== verification/Wire.thy ===== *)
theory Wire
  imports Crypto
begin

text \<open>
  \<^verbatim>\<open>internal/e2ee/wire.go\<close>: the errors of the package, the length-prefixed frames every
  handshake flight and every record travels in, and the cursor its parsers are built on.
\<close>

section \<open>Errors of the package\<close>

datatype e2eeErr =
    ErrFrameTooLarge | ErrMalformed
  | ErrSkipTooLarge | ErrStaleMessage | ErrDecrypt
  | ErrSessionClosed | ErrCannotSend | ErrChainExhausted
  | ErrNoCommonVersion | ErrPeerClosedHandshake | ErrLegacyPeer | ErrDowngrade
  | ErrNoChannelBinding | ErrAuthentication | ErrUntrustedKey
  | ErrIdentityMismatch string string
  | ErrCredentials | ErrSmallOrderLocal | ErrLocalIdMismatch | ErrNoTrustPolicy
  | ErrBadKeyLength | ErrPadding | ErrKdf | ErrRandom | ErrBadSignature | ErrNoKey | ErrPanic
  | ErrIO ioErr

section \<open>Frames\<close>

definition MaxFrameSize :: nat where "MaxFrameSize = 64 * 1024"

definition msgInit :: byte where "msgInit = 1"
definition msgResp :: byte where "msgResp = 2"
definition msgFinish :: byte where "msgFinish = 3"

definition putFrame :: "bytes \<Rightarrow> bytes" where
  "putFrame p = be 4 (length p) @ p"

definition writeFrame :: "bytes \<Rightarrow> (writer_st, e2eeErr, unit) prog" where
  "writeFrame payload =
     (if length payload > MaxFrameSize then failS ErrFrameTooLarge
      else bindS (\<lambda>w. case writeBytes (be 4 (length payload)) w of (r, w') \<Rightarrow> (mapErr ErrIO r, w'))
        (\<lambda>_ w. case writeBytes payload w of (r, w') \<Rightarrow> (mapErr ErrIO r, w')))"

definition readIO :: "nat \<Rightarrow> (reader_st, e2eeErr, bytes) prog" where
  "readIO k r = (case readFull k r of (x, r') \<Rightarrow> (mapErr ErrIO x, r'))"

definition readFrame :: "(reader_st, e2eeErr, bytes) prog" where
  "readFrame =
     bindS (readIO 4) (\<lambda>header.
       let n = unat (getU32 header)
       in if n > MaxFrameSize then failS ErrFrameTooLarge else readIO n)"

section \<open>The cursor\<close>

record cursor =
  cur_b :: bytes
  cur_err :: "e2eeErr option"

definition newReader :: "bytes \<Rightarrow> cursor" where
  "newReader b = \<lparr>cur_b = b, cur_err = None\<rparr>"

definition curFail :: "cursor \<Rightarrow> cursor" where
  "curFail r = r\<lparr>cur_err := Some ErrMalformed\<rparr>"

text \<open>\<^verbatim>\<open>take\<close> returns a nil slice on failure; the only other way to get an empty slice is \<^verbatim>\<open>n = 0\<close>.\<close>

definition takeN :: "int \<Rightarrow> cursor \<Rightarrow> bytes option \<times> cursor" where
  "takeN n r =
     (if cur_err r \<noteq> None then (None, r)
      else if n < 0 \<or> int (length (cur_b r)) < n then (None, curFail r)
      else (Some (take (nat n) (cur_b r)), r\<lparr>cur_b := drop (nat n) (cur_b r)\<rparr>))"

definition sliceOf :: "bytes option \<Rightarrow> bytes" where
  "sliceOf b = (case b of None \<Rightarrow> [] | Some x \<Rightarrow> x)"

definition readU8 :: "cursor \<Rightarrow> byte \<times> cursor" where
  "readU8 r = (case takeN 1 r of (None, r') \<Rightarrow> (0, r') | (Some b, r') \<Rightarrow> (hd b, r'))"

definition readU16 :: "cursor \<Rightarrow> u16 \<times> cursor" where
  "readU16 r = (case takeN 2 r of (None, r') \<Rightarrow> (0, r') | (Some b, r') \<Rightarrow> (getU16 b, r'))"

definition readU32 :: "cursor \<Rightarrow> u32 \<times> cursor" where
  "readU32 r = (case takeN 4 r of (None, r') \<Rightarrow> (0, r') | (Some b, r') \<Rightarrow> (getU32 b, r'))"

definition readLp :: "cursor \<Rightarrow> bytes option \<times> cursor" where
  "readLp r =
     (case readU32 r of (n, r') \<Rightarrow>
        if cur_err r' \<noteq> None then (None, r')
        else if unat n > length (cur_b r') then (None, curFail r')
        else takeN (int (unat n)) r')"

definition curDone :: "cursor \<Rightarrow> e2eeErr + unit" where
  "curDone r =
     (case cur_err r of
        Some e \<Rightarrow> Inl e
      | None \<Rightarrow> if cur_b r \<noteq> [] then Inl ErrMalformed else Inr ())"

definition appendU16 :: "bytes \<Rightarrow> u16 \<Rightarrow> bytes" where "appendU16 dst v = dst @ putU16 v"
definition appendU32 :: "bytes \<Rightarrow> u32 \<Rightarrow> bytes" where "appendU32 dst v = dst @ putU32 v"

section \<open>Frames: what is written is read back\<close>

lemma length_putFrame: "length (putFrame p) = 4 + length p"
  by (simp add: putFrame_def)

lemma readIO_eq:
  "readIO k r =
     (if k \<le> length (inBytes r)
      then (Inr (take k (inBytes r)), r\<lparr>inBytes := drop k (inBytes r)\<rparr>)
      else (Inl (ErrIO (if inEnd r = EOF \<and> inBytes r \<noteq> [] then UnexpectedEOF else inEnd r)),
            r\<lparr>inBytes := []\<rparr>))"
  by (simp add: readIO_def)

lemma getU32_be: "n < 4294967296 \<Longrightarrow> unat (getU32 (be 4 n)) = n"
  by (simp add: getU32_def unbe_be unat_of_nat)

lemma readFrame_putFrame:
  assumes "length p \<le> MaxFrameSize" "inBytes r = putFrame p @ rest"
  shows "readFrame r = (Inr p, r\<lparr>inBytes := rest\<rparr>)"
proof -
  have "length p < 4294967296" using assms(1) by (simp add: MaxFrameSize_def)
  then have n: "unat (getU32 (be 4 (length p))) = length p" by (rule getU32_be)
  have h: "readIO 4 r = (Inr (be 4 (length p)), r\<lparr>inBytes := p @ rest\<rparr>)"
    using assms(2) by (simp add: readIO_eq putFrame_def)
  show ?thesis
    unfolding readFrame_def bindS_apply h using assms(1) n by (simp add: Let_def readIO_eq)
qed

lemma writeFrame_ok:
  assumes "length p \<le> MaxFrameSize" "outRoom w = None"
  shows "writeFrame p w = (Inr (), w\<lparr>outBytes := outBytes w @ putFrame p\<rparr>)"
  using assms by (simp add: writeFrame_def putFrame_def run_simps)

lemma readFrame_Inr:
  assumes "readFrame r = (Inr p, r')"
  shows "inBytes r = putFrame p @ inBytes r'" "length p \<le> MaxFrameSize" "inEnd r' = inEnd r"
proof -
  from assms obtain h t where h: "readIO 4 r = (Inr h, t)"
    and rest: "(let n = unat (getU32 h) in if n > MaxFrameSize then failS ErrFrameTooLarge else readIO n) t = (Inr p, r')"
    by (auto simp: readFrame_def bindS_eq_Inr)
  from h have l4: "4 \<le> length (inBytes r)" and hh: "h = take 4 (inBytes r)"
    and tt: "t = r\<lparr>inBytes := drop 4 (inBytes r)\<rparr>"
    by (auto simp: readIO_eq split: if_splits)
  from rest have n: "unat (getU32 h) \<le> MaxFrameSize" "unat (getU32 h) \<le> length (inBytes t)"
    and p: "p = take (unat (getU32 h)) (inBytes t)" and r': "r' = t\<lparr>inBytes := drop (unat (getU32 h)) (inBytes t)\<rparr>"
    by (auto simp: readIO_eq Let_def failS_def split: if_splits)
  have lp: "length p = unat (getU32 h)" using p n by simp
  have "be 4 (length p) = h"
    using l4 hh putU32_getU32 [of h] by (simp add: lp putU32_def)
  moreover have "inBytes r = h @ inBytes t" by (simp add: hh tt)
  moreover have "inBytes t = p @ inBytes r'" by (simp add: p r')
  ultimately show "inBytes r = putFrame p @ inBytes r'" by (simp add: putFrame_def)
  show "length p \<le> MaxFrameSize" using n lp by simp
  show "inEnd r' = inEnd r" by (simp add: r' tt)
qed

section \<open>Cursor lemmas\<close>

lemma takeN_ok [simp]:
  "cur_err r = None \<Longrightarrow> n \<le> length (cur_b r) \<Longrightarrow>
     takeN (int n) r = (Some (take n (cur_b r)), r\<lparr>cur_b := drop n (cur_b r)\<rparr>)"
  by (simp add: takeN_def)

lemma takeN_err [simp]: "cur_err r = Some e \<Longrightarrow> takeN n r = (None, r)"
  by (simp add: takeN_def)

lemma takeN_append:
  "length xs = n \<Longrightarrow> takeN (int n) \<lparr>cur_b = xs @ ys, cur_err = None\<rparr> = (Some xs, \<lparr>cur_b = ys, cur_err = None\<rparr>)"
  by (simp add: takeN_def)

lemma readU32_append:
  "readU32 \<lparr>cur_b = putU32 v @ ys, cur_err = None\<rparr> = (v, \<lparr>cur_b = ys, cur_err = None\<rparr>)"
  using takeN_append [of "putU32 v" 4 ys] by (simp add: readU32_def)

lemma readU16_append:
  "readU16 \<lparr>cur_b = putU16 v @ ys, cur_err = None\<rparr> = (v, \<lparr>cur_b = ys, cur_err = None\<rparr>)"
  using takeN_append [of "putU16 v" 2 ys] by (simp add: readU16_def)

lemma readU8_append:
  "readU8 \<lparr>cur_b = b # ys, cur_err = None\<rparr> = (b, \<lparr>cur_b = ys, cur_err = None\<rparr>)"
  by (simp add: readU8_def takeN_def)

lemma be4_putU32: "be 4 n = putU32 (of_nat n)"
proof -
  have "be (length (be 4 n)) (unbe 0 (be 4 n)) = be 4 n" by (rule be_unbe)
  then show ?thesis by (simp add: putU32_def unbe_be unat_of_nat)
qed

lemma readLp_append:
  assumes "length xs < 4294967296"
  shows "readLp \<lparr>cur_b = be 4 (length xs) @ xs @ ys, cur_err = None\<rparr> = (Some xs, \<lparr>cur_b = ys, cur_err = None\<rparr>)"
proof -
  have "unat (of_nat (length xs) :: u32) = length xs" using assms by (simp add: unat_of_nat)
  then show ?thesis
    using takeN_append [of xs "length xs" ys]
    by (simp add: readLp_def be4_putU32 readU32_append)
qed

text \<open>A cursor that is already in error stays so, and a done cursor consumed everything.\<close>

lemma cur_err_sticky:
  "cur_err r = Some e \<Longrightarrow> snd (readU32 r) = r" "cur_err r = Some e \<Longrightarrow> snd (readU16 r) = r"
  "cur_err r = Some e \<Longrightarrow> snd (readU8 r) = r" "cur_err r = Some e \<Longrightarrow> snd (readLp r) = r"
  by (simp_all add: readU32_def readU16_def readU8_def readLp_def)

lemma curDone_Inr: "curDone r = Inr () \<longleftrightarrow> cur_err r = None \<and> cur_b r = []"
  by (auto simp: curDone_def split: option.splits)

lemma curDone_eq_Inr [simp]: "curDone r = Inr u \<longleftrightarrow> cur_err r = None \<and> cur_b r = []"
  using curDone_Inr [of r] by (cases u) simp

lemma takeN_Some:
  "takeN n r = (Some x, r') \<Longrightarrow> cur_err r = None \<and> cur_err r' = None \<and> cur_b r = x @ cur_b r' \<and> int (length x) = n"
  by (auto simp: takeN_def split: if_splits)

lemma takeN_None: "takeN n r = (None, r') \<Longrightarrow> cur_err r' \<noteq> None"
  by (auto simp: takeN_def curFail_def split: if_splits)

lemma readU32_ok:
  "readU32 r = (v, r') \<Longrightarrow> cur_err r' = None \<Longrightarrow> cur_err r = None \<and> cur_b r = putU32 v @ cur_b r'"
  by (auto simp: readU32_def split: prod.splits option.splits dest!: takeN_Some takeN_None)
     (metis Pair_inject putU32_getU32 of_nat_eq_iff of_nat_numeral)

lemma readLp_ok:
  assumes "readLp r = (x, r')" "cur_err r' = None"
  obtains y where "x = Some y" "cur_err r = None" "cur_b r = be 4 (length y) @ y @ cur_b r'"
    "length y < 4294967296"
proof -
  obtain v t where v: "readU32 r = (v, t)" by (cases "readU32 r")
  from assms v have t: "cur_err t = None"
    by (auto simp: readLp_def split: if_splits)
  with assms v have le: "unat v \<le> length (cur_b t)" and tk: "takeN (int (unat v)) t = (x, r')"
    by (auto simp: readLp_def curFail_def split: if_splits)
  from tk t le obtain y where y: "x = Some y" "cur_b t = y @ cur_b r'" "length y = unat v"
    using takeN_ok [OF t le] by (auto simp del: of_nat_unat)
  from readU32_ok [OF v t] have r: "cur_err r = None" "cur_b r = putU32 v @ cur_b t" by auto
  have "be 4 (length y) = putU32 v" using y by (simp add: putU32_def)
  moreover have "length y < 4294967296" using y unat_bounds(3) [of v] by simp
  ultimately show thesis using that [of y] y r by simp
qed

lemma be4_inject: "m < 4294967296 \<Longrightarrow> n < 4294967296 \<Longrightarrow> be 4 m = be 4 n \<longleftrightarrow> m = n"
  by (metis getU32_be)

lemma lp_inject:
  assumes "be 4 (length x) @ x @ r = be 4 (length y) @ y @ s" "length x < 4294967296" "length y < 4294967296"
  shows "x = y \<and> r = s"
proof -
  have "be 4 (length x) = be 4 (length y)" and rest: "x @ r = y @ s"
    using assms(1) by (auto simp: append_eq_append_conv)
  then have "length x = length y" using assms(2,3) be4_inject by blast
  with rest show ?thesis by simp
qed

section \<open>Properties of the frame layer\<close>

text \<open>What \<^verbatim>\<open>writeFrame\<close> puts on a healthy connection is exactly what \<^verbatim>\<open>readFrame\<close> takes off
  it, with the following bytes left in place, for every payload within the frame limit.\<close>

theorem frame_roundtrip:
  assumes "length p \<le> MaxFrameSize" "outRoom w = None"
  shows "\<exists>w'. writeFrame p w = (Inr (), w')
           \<and> (\<forall>r rest. inBytes r = drop (length (outBytes w)) (outBytes w') @ rest
                \<longrightarrow> readFrame r = (Inr p, r\<lparr>inBytes := rest\<rparr>))"
  using writeFrame_ok [OF assms] readFrame_putFrame [OF assms(1)] by auto

theorem frame_roundtrip_witness:
  "length [1, 2, 3 :: byte] \<le> MaxFrameSize
   \<and> (\<exists>w'. writeFrame [1, 2, 3] \<lparr>outBytes = [9], outRoom = None\<rparr> = (Inr (), w')
        \<and> readFrame \<lparr>inBytes = drop 1 (outBytes w') @ [7], inEnd = EOF\<rparr>
             = (Inr [1, 2, 3], \<lparr>inBytes = [7], inEnd = EOF\<rparr>))"
  using frame_roundtrip [of "[1, 2, 3]" "\<lparr>outBytes = [9], outRoom = None\<rparr>"]
  by (fastforce simp: MaxFrameSize_def)

text \<open>The length is checked before anything is read: a header announcing more than
  \<^verbatim>\<open>MaxFrameSize\<close> is refused with \<^verbatim>\<open>ErrFrameTooLarge\<close> having consumed the four header bytes and
  nothing else, and every frame that is accepted fits the limit and was on the wire byte for byte.\<close>

theorem readFrame_bounded:
  "(4 \<le> length (inBytes r) \<and> unat (getU32 (take 4 (inBytes r))) > MaxFrameSize
      \<longrightarrow> readFrame r = (Inl ErrFrameTooLarge, r\<lparr>inBytes := drop 4 (inBytes r)\<rparr>))
   \<and> (\<forall>p r'. readFrame r = (Inr p, r') \<longrightarrow> length p \<le> MaxFrameSize \<and> inBytes r = putFrame p @ inBytes r')"
  using readFrame_Inr [of r] by (auto simp: readFrame_def bindS_apply readIO_eq Let_def failS_def)

theorem readFrame_bounded_witness:
  "readFrame \<lparr>inBytes = [0, 1, 0, 1, 5, 6], inEnd = EOF\<rparr>
     = (Inl ErrFrameTooLarge, \<lparr>inBytes = [5, 6], inEnd = EOF\<rparr>)"
  using readFrame_bounded [of "\<lparr>inBytes = [0, 1, 0, 1, 5, 6], inEnd = EOF\<rparr>"]
  by (simp add: getU32_def MaxFrameSize_def)

end
