(* ===== verification/Primitives.thy ===== *)
theory Primitives
  imports Wire
begin

text \<open>
  \<^verbatim>\<open>internal/e2ee/primitives.go\<close>, \<^verbatim>\<open>labels.go\<close> and \<^verbatim>\<open>smallorder.go\<close>: the domain-separation
  labels, the byte strings that are hashed, signed and authenticated, the record padding, and
  the blocklist of degenerate identity keys.
\<close>

section \<open>Labels\<close>

definition protocolName :: string where "protocolName = ''CMD-CHAT-E2EE''"
definition versionTag :: string where "versionTag = ''v2''"
definition labelOf :: "string \<Rightarrow> string" where
  "labelOf purpose = protocolName @ '' '' @ versionTag @ '' '' @ purpose"

definition labelTranscript :: string where "labelTranscript = labelOf ''transcript''"
definition labelHybridSecret :: string where "labelHybridSecret = labelOf ''hybrid secret''"
definition labelHandshakeKeyResponder :: string where "labelHandshakeKeyResponder = labelOf ''hs responder key''"
definition labelHandshakeKeyInitiator :: string where "labelHandshakeKeyInitiator = labelOf ''hs initiator key''"
definition labelHandshakeMACResponder :: string where "labelHandshakeMACResponder = labelOf ''hs responder mac''"
definition labelHandshakeMACInitiator :: string where "labelHandshakeMACInitiator = labelOf ''hs initiator mac''"
definition labelSignatureResponder :: string where "labelSignatureResponder = labelOf ''responder signature''"
definition labelSignatureInitiator :: string where "labelSignatureInitiator = labelOf ''initiator signature''"
definition labelConfirmResponder :: string where "labelConfirmResponder = labelOf ''responder confirm''"
definition labelConfirmInitiator :: string where "labelConfirmInitiator = labelOf ''initiator confirm''"
definition labelRootKey :: string where "labelRootKey = labelOf ''root key''"
definition labelAssociatedTag :: string where "labelAssociatedTag = labelOf ''associated data''"
definition labelRatchetRoot :: string where "labelRatchetRoot = labelOf ''ratchet root''"
definition labelMessageKeys :: string where "labelMessageKeys = labelOf ''message keys''"
definition ChannelBindingLabel :: string where
  "ChannelBindingLabel = ''EXPORTER-CMD-Chat-CMDC2-channel-binding''"
definition ChannelBindingLength :: nat where "ChannelBindingLength = 32"

definition allLabels :: "string list" where
  "allLabels = [labelTranscript, labelHybridSecret, labelHandshakeKeyResponder,
     labelHandshakeKeyInitiator, labelHandshakeMACResponder, labelHandshakeMACInitiator,
     labelSignatureResponder, labelSignatureInitiator, labelConfirmResponder,
     labelConfirmInitiator, labelRootKey, labelAssociatedTag, labelRatchetRoot,
     labelMessageKeys, ChannelBindingLabel]"

lemmas label_defs = labelTranscript_def labelHybridSecret_def labelHandshakeKeyResponder_def
  labelHandshakeKeyInitiator_def labelHandshakeMACResponder_def labelHandshakeMACInitiator_def
  labelSignatureResponder_def labelSignatureInitiator_def labelConfirmResponder_def
  labelConfirmInitiator_def labelRootKey_def labelAssociatedTag_def labelRatchetRoot_def
  labelMessageKeys_def ChannelBindingLabel_def labelOf_def protocolName_def versionTag_def

section \<open>Thin wrappers over the primitives\<close>

definition keySize :: nat where "keySize = 32"
definition nonceSize :: nat where "nonceSize = 12"
definition tagSize :: nat where "tagSize = 16"

definition lengthPrefix :: "bytes \<Rightarrow> bytes \<Rightarrow> bytes" where
  "lengthPrefix dst b = dst @ be 4 (length b) @ b"

definition hashTranscript :: "crypto \<Rightarrow> bytes \<Rightarrow> bytes \<Rightarrow> bytes" where
  "hashTranscript C prev nxt = c_sha256 C (prev @ be 4 (length nxt) @ nxt)"

definition hkdfExtract :: "crypto \<Rightarrow> bytes \<Rightarrow> bytes \<Rightarrow> bytes" where
  "hkdfExtract C salt ikm = c_extract C salt ikm"

text \<open>HKDF-Expand with SHA-256 yields at most 255 blocks; reading further is an error.\<close>

definition hkdfExpand :: "crypto \<Rightarrow> bytes \<Rightarrow> bytes \<Rightarrow> nat \<Rightarrow> e2eeErr + bytes" where
  "hkdfExpand C prk info n = (if n \<le> 255 * 32 then Inr (c_expand C prk info n) else Inl ErrKdf)"

definition hkdfExpandLabel :: "crypto \<Rightarrow> bytes \<Rightarrow> string \<Rightarrow> nat \<Rightarrow> e2eeErr + bytes" where
  "hkdfExpandLabel C prk label n = hkdfExpand C prk (toBytes label) n"

definition hmacSHA256 :: "crypto \<Rightarrow> bytes \<Rightarrow> bytes \<Rightarrow> bytes" where
  "hmacSHA256 C key data = c_hmac C key data"

text \<open>The cipher object: an error unless the key has 32 bytes.\<close>

definition aead :: "bytes \<Rightarrow> e2eeErr + bytes" where
  "aead key = (if length key \<noteq> keySize then Inl ErrBadKeyLength else Inr key)"

definition contextBytes :: "string \<Rightarrow> bytes \<Rightarrow> bytes \<Rightarrow> string \<Rightarrow> bytes" where
  "contextBytes label transcript identityPub ident =
     lengthPrefix (toBytes label @ [0] @ transcript @ identityPub) (toBytes ident)"

section \<open>Padding\<close>

definition padBlock :: nat where "padBlock = 256"

definition pad :: "bytes \<Rightarrow> bytes" where
  "pad plaintext =
     (let n = length plaintext + 1;
          r = n mod padBlock;
          n' = (if r \<noteq> 0 then n + (padBlock - r) else n)
      in (plaintext @ replicate (n' - length plaintext) 0)[length plaintext := 0x80])"

text \<open>The scan of \<^verbatim>\<open>unpad\<close>: the argument is one more than Go's index, so 0 stands for -1.\<close>

fun unpadScan :: "bytes \<Rightarrow> nat \<Rightarrow> nat" where
  "unpadScan padded 0 = 0"
| "unpadScan padded (Suc i) = (if padded ! i = 0 then unpadScan padded i else Suc i)"

definition unpad :: "bytes \<Rightarrow> e2eeErr + bytes" where
  "unpad padded =
     (case unpadScan padded (length padded) of
        0 \<Rightarrow> Inl ErrPadding
      | Suc i \<Rightarrow> if padded ! i \<noteq> 0x80 then Inl ErrPadding else Inr (take i padded))"

section \<open>Degenerate identity keys\<close>

definition smallOrderTable :: "string list" where
  "smallOrderTable = [
     ''0100000000000000000000000000000000000000000000000000000000000000'',
     ''ecffffffffffffffffffffffffffffffffffffffffffffffffffffffffffff7f'',
     ''0000000000000000000000000000000000000000000000000000000000000000'',
     ''0000000000000000000000000000000000000000000000000000000000000080'',
     ''26e8958fc2b227b045c3f489f2ef98f0d5dfac05d3c63339b13802886d53fc05'',
     ''26e8958fc2b227b045c3f489f2ef98f0d5dfac05d3c63339b13802886d53fc85'',
     ''c7176a703d4dd84fba3c0b760d10670f2a2053fa2c39ccc64ec7fd7792ac037a'',
     ''c7176a703d4dd84fba3c0b760d10670f2a2053fa2c39ccc64ec7fd7792ac03fa'',
     ''ecffffffffffffffffffffffffffffffffffffffffffffffffffffffffffffff'',
     ''edffffffffffffffffffffffffffffffffffffffffffffffffffffffffffff7f'',
     ''eeffffffffffffffffffffffffffffffffffffffffffffffffffffffffffff7f'']"

text \<open>\<^verbatim>\<open>None\<close> is the panic at start-up on a malformed table entry.\<close>

fun mustDecodeKeys :: "string list \<Rightarrow> bytes list option" where
  "mustDecodeKeys [] = Some []"
| "mustDecodeKeys (e # es) =
     (case hexDecode e of
        None \<Rightarrow> None
      | Some b \<Rightarrow> if length b \<noteq> 32 then None else map_option (\<lambda>r. b # r) (mustDecodeKeys es))"

definition smallOrderEd25519 :: "bytes list" where
  "smallOrderEd25519 = (case mustDecodeKeys smallOrderTable of None \<Rightarrow> [] | Some t \<Rightarrow> t)"

text \<open>\<^verbatim>\<open>subtle.ConstantTimeCompare\<close>: 1 for equal slices, 0 otherwise.\<close>

definition ctCompare :: "bytes \<Rightarrow> bytes \<Rightarrow> i64" where
  "ctCompare x y = (if x = y then 1 else 0)"

definition usableIdentityKey :: "bytes \<Rightarrow> bool" where
  "usableIdentityKey pub =
     (if length pub \<noteq> 32 then False
      else foldl (\<lambda>blocked bad. blocked OR ctCompare pub bad) 0 smallOrderEd25519 = 0)"

section \<open>Transcript steps are injective up to a hash collision\<close>

text \<open>A collision of the hash function, exhibited.\<close>

definition collision :: "crypto \<Rightarrow> bytes \<Rightarrow> bytes \<Rightarrow> bool" where
  "collision C x y \<longleftrightarrow> x \<noteq> y \<and> c_sha256 C x = c_sha256 C y"

lemma hashTranscript_inject:
  assumes "hashTranscript C p x = hashTranscript C q y"
    and "length p = length q" "length x < 4294967296" "length y < 4294967296"
  shows "(p = q \<and> x = y) \<or> (\<exists>u v. collision C u v)"
proof (cases "p @ be 4 (length x) @ x = q @ be 4 (length y) @ y")
  case True
  then have "p = q" "be 4 (length x) @ x @ [] = be 4 (length y) @ y @ []"
    using assms(2) by auto
  then show ?thesis using lp_inject [of x "[]" y "[]"] assms(3,4) by blast
next
  case False
  then show ?thesis using assms(1) by (auto simp: collision_def hashTranscript_def)
qed

section \<open>Padding lemmas\<close>

lemma block_split: "(m :: nat) div 256 * 256 + m mod 256 = m" "m mod 256 < 256"
  by simp_all

lemma pad_eq: "\<exists>k. pad x = x @ 0x80 # replicate k 0 \<and> length x + 1 + k = (length x div 256 + 1) * 256"
proof -
  define n where "n = length x + 1"
  define n' where "n' = (if n mod 256 \<noteq> 0 then n + (256 - n mod 256) else n)"
  note split = block_split [of n] block_split [of "length x"]
  have aux: "r < 256 \<Longrightarrow> q * 256 + r + (256 - r) = (q + 1) * 256" for q r :: nat by simp
  have le: "m \<le> (if P then m + a else m)" for P and m a :: nat by simp
  have ge: "n \<le> n'" unfolding n'_def by (rule le)
  have n': "n' = (length x div 256 + 1) * 256"
  proof (cases "n mod 256 = 0")
    case True
    then have "n' = n div 256 * 256" using split(1) by (simp add: n'_def)
    moreover have "n div 256 = length x div 256 + 1"
      using True split unfolding n_def by (simp add: div_Suc)
    ultimately show ?thesis by simp
  next
    case False
    then have "n' = n + (256 - n mod 256)" by (simp only: n'_def if_True simp_thms)
    also have "\<dots> = (n div 256 + 1) * 256"
      using aux [OF split(2), of "n div 256"] by (simp only: split(1))
    finally have "n' = (n div 256 + 1) * 256" .
    moreover have "n div 256 = length x div 256" using False unfolding n_def by (simp add: div_Suc mod_Suc)
    ultimately show ?thesis by simp
  qed
  have "replicate (n' - length x) (0 :: byte) = 0 # replicate (n' - n) 0"
    using ge by (simp add: n_def replicate_Suc [symmetric] Suc_diff_le del: replicate_Suc)
  moreover have "pad x = (x @ replicate (n' - length x) 0)[length x := 0x80]"
    by (simp only: pad_def padBlock_def n'_def n_def Let_def)
  ultimately have "pad x = x @ 0x80 # replicate (n' - n) 0"
    by (simp add: list_update_append)
  then show ?thesis using n' ge by (intro exI [of _ "n' - n"]) (simp add: n_def)
qed

lemma length_pad: "length (pad x) = (length x div 256 + 1) * 256"
  using pad_eq [of x] by auto

lemma unpadScan_zeros:
  "k \<le> length p \<Longrightarrow> (\<forall>i. j \<le> i \<and> i < k \<longrightarrow> p ! i = 0) \<Longrightarrow> j \<le> k \<Longrightarrow> unpadScan p k = unpadScan p j"
proof (induction k)
  case 0
  then show ?case by simp
next
  case (Suc k)
  show ?case
  proof (cases "j = Suc k")
    case False
    with Suc.prems have "p ! k = 0" "j \<le> k" by auto
    with Suc show ?thesis by simp
  qed simp
qed

lemma unpad_marked: "unpad (x @ 0x80 # replicate k 0) = Inr x"
proof -
  let ?p = "x @ 0x80 # replicate k (0 :: byte)"
  have "unpadScan ?p (length ?p) = unpadScan ?p (Suc (length x))"
    by (rule unpadScan_zeros) (auto simp: nth_append nth_Cons split: nat.splits)
  then show ?thesis by (simp add: unpad_def)
qed

lemma unpadScan_result:
  "unpadScan p k = Suc i \<Longrightarrow> i < k \<and> p ! i \<noteq> 0 \<and> (\<forall>j. i < j \<and> j < k \<longrightarrow> p ! j = 0)"
  by (induction k) (auto split: if_splits simp: less_Suc_eq)

lemma unpad_Inr: "unpad p = Inr x \<Longrightarrow> \<exists>k. p = x @ 0x80 # replicate k 0"
proof -
  assume "unpad p = Inr x"
  then obtain i where i: "unpadScan p (length p) = Suc i" and m: "p ! i = 0x80" and x: "x = take i p"
    by (auto simp: unpad_def split: nat.splits if_splits)
  from unpadScan_result [OF i] have lt: "i < length p" and z: "\<forall>j. i < j \<and> j < length p \<longrightarrow> p ! j = 0"
    by auto
  have "drop (Suc i) p = replicate (length p - Suc i) 0"
    using z by (intro nth_equalityI) auto
  then have "p = take i p @ 0x80 # replicate (length p - Suc i) 0"
    using id_take_nth_drop [OF lt] m by simp
  then show ?thesis using x by blast
qed

interpretation padding: codec pad unpad "\<lambda>_. True"
proof
  fix x show "unpad (pad x) = Inr x"
    using pad_eq [of x] unpad_marked by metis
qed

section \<open>Labels and signing contexts\<close>

lemma labels_no_nul: "\<forall>l \<in> set allLabels. CHR 0x00 \<notin> set l"
  by (simp add: allLabels_def label_defs)

lemma labels_no_zero: "l \<in> set allLabels \<Longrightarrow> 0 \<notin> set (toBytes l)"
  using labels_no_nul by (auto simp: toBytes_def)

lemma split_at_zero:
  "0 \<notin> set (a :: bytes) \<Longrightarrow> 0 \<notin> set b \<Longrightarrow> a @ 0 # r = b @ 0 # s \<Longrightarrow> a = b \<and> r = s"
proof (induction a arbitrary: b)
  case Nil
  then show ?case by (cases b) auto
next
  case (Cons x a)
  then show ?case by (cases b) auto
qed

lemma contextBytes_inject:
  assumes eq: "contextBytes l t p i = contextBytes l' t' p' i'"
    and "l \<in> set allLabels" "l' \<in> set allLabels"
    and len: "length t = length t'" "length p = length p'"
    and ids: "length i < 4294967296" "length i' < 4294967296"
  shows "l = l' \<and> t = t' \<and> p = p' \<and> i = i'"
proof -
  have "toBytes l = toBytes l' \<and>
      t @ p @ be 4 (length i) @ toBytes i = t' @ p' @ be 4 (length i') @ toBytes i'"
    using eq labels_no_zero [OF assms(2)] labels_no_zero [OF assms(3)]
    by (intro split_at_zero) (simp_all add: contextBytes_def lengthPrefix_def)
  moreover from this have "t = t'" "p = p'"
    and "be 4 (length i) @ toBytes i @ [] = be 4 (length i') @ toBytes i' @ []"
    using len by auto
  ultimately show ?thesis
    using lp_inject [of "toBytes i" "[]" "toBytes i'" "[]"] ids by simp
qed

section \<open>The blocklist\<close>

lemma blocked_fold:
  "foldl (\<lambda>b k. b OR ctCompare p k) a ks = 0 \<longleftrightarrow> a = 0 \<and> p \<notin> set ks"
proof (induction ks arbitrary: a)
  case Nil
  then show ?case by simp
next
  case (Cons k ks)
  have "a OR ctCompare p k = 0 \<longleftrightarrow> a = 0 \<and> p \<noteq> k"
    by (auto simp: ctCompare_def or_eq_0_iff)
  with Cons show ?case by auto
qed

lemma usableIdentityKey_iff: "usableIdentityKey p \<longleftrightarrow> length p = 32 \<and> p \<notin> set smallOrderEd25519"
  by (simp add: usableIdentityKey_def blocked_fold)

section \<open>Properties of the primitives\<close>

text \<open>\<^verbatim>\<open>unpad\<close> undoes \<^verbatim>\<open>pad\<close>, and it accepts nothing but a text followed by one marker byte
  and zeros: whatever it returns, the padded text was that result, \<^verbatim>\<open>0x80\<close> and zero bytes.\<close>

theorem pad_roundtrip:
  "unpad (pad x) = Inr x
   \<and> (unpad p = Inr y \<longleftrightarrow> (\<exists>k. p = y @ 0x80 # replicate k 0))"
  using padding.dec_enc unpad_Inr unpad_marked by blast

text \<open>Padding rounds every plaintext up to the next multiple of 256 bytes, strictly above its
  length; so two plaintexts give equally long padded texts exactly when their lengths fall in the
  same 256-byte block.\<close>

theorem pad_hides_length:
  "256 dvd length (pad x) \<and> length x < length (pad x) \<and> length (pad x) \<le> length x + 256
   \<and> (length (pad x) = length (pad y) \<longleftrightarrow> length x div 256 = length y div 256)"
proof -
  have "m < (m div 256 + 1) * 256 \<and> (m div 256 + 1) * 256 \<le> m + 256" for m :: nat
    using block_split [of m] by (simp add: algebra_simps)
  then show ?thesis unfolding length_pad by simp
qed

text \<open>One label, one purpose: the fifteen labels are pairwise different, and two signed or
  authenticated contexts under protocol labels are equal only when label, transcript, identity
  key and ID all are.\<close>

theorem signing_contexts_separated:
  "distinct allLabels
   \<and> (contextBytes l t p i = contextBytes l' t' p' i' \<and> l \<in> set allLabels \<and> l' \<in> set allLabels
      \<and> length t = length t' \<and> length p = length p'
      \<and> length i < 2 ^ 32 \<and> length i' < 2 ^ 32 \<longrightarrow> l = l' \<and> t = t' \<and> p = p' \<and> i = i')"
proof -
  have "distinct allLabels" by code_simp
  then show ?thesis using contextBytes_inject [of l t p i l' t' p' i'] by auto
qed

theorem signing_contexts_separated_witness:
  "contextBytes labelSignatureResponder [1, 2] [3] ''cc'' \<noteq> contextBytes labelSignatureInitiator [1, 2] [3] ''cc''"
proof -
  have "labelSignatureResponder \<noteq> labelSignatureInitiator" by code_simp
  moreover have "labelSignatureResponder \<in> set allLabels" "labelSignatureInitiator \<in> set allLabels"
    by (simp_all add: allLabels_def)
  ultimately show ?thesis
    using signing_contexts_separated [of labelSignatureResponder "[1, 2]" "[3]" "''cc''"
      labelSignatureInitiator "[1, 2]" "[3]" "''cc''"] by auto
qed

text \<open>The key table decodes at start-up without a panic into eleven different 32-byte keys, and
  a key is usable as an identity exactly when it has 32 bytes and is none of them; in particular
  the all-zero key is refused.\<close>

theorem usable_identity_keys:
  "mustDecodeKeys smallOrderTable = Some smallOrderEd25519
   \<and> distinct smallOrderEd25519 \<and> length smallOrderEd25519 = 11
   \<and> (usableIdentityKey p \<longleftrightarrow> length p = 32 \<and> p \<notin> set smallOrderEd25519)
   \<and> \<not> usableIdentityKey (replicate 32 0)"
proof -
  have t: "mustDecodeKeys smallOrderTable \<noteq> None" by code_simp
  then have "mustDecodeKeys smallOrderTable = Some smallOrderEd25519"
    by (auto simp: smallOrderEd25519_def)
  moreover have "distinct smallOrderEd25519 \<and> length smallOrderEd25519 = 11" by code_simp
  moreover have "\<not> usableIdentityKey (replicate 32 0)" by code_simp
  ultimately show ?thesis using usableIdentityKey_iff by blast
qed

end
