(* ===== verification/Ratchet.thy ===== *)
theory Ratchet
  imports Primitives
begin

text \<open>
  \<^verbatim>\<open>internal/e2ee/ratchet.go\<close>: the Double Ratchet state of one session and its operations. A
  \<^verbatim>\<open>nil\<close> chain is \<^verbatim>\<open>None\<close>; the random source is a tape of bytes that is consumed even where the
  ratchet state itself is thrown away, since a clone shares the reader of the original. Wiping a
  slice has no counterpart: no wiped slice is reachable from the values kept here.
\<close>

section \<open>State\<close>

definition V1 :: u16 where "V1 = 1"
definition V2 :: u16 where "V2 = 2"

definition MaxSkip :: nat where "MaxSkip = 1000"
definition MaxSkipStore :: nat where "MaxSkipStore = 2000"
definition headerSize :: nat where "headerSize = 1 + 32 + 4 + 4"

record header =
  hdr_version :: byte
  hdr_ratchetPub :: bytes
  hdr_pn :: u32
  hdr_n :: u32

definition headerEncode :: "header \<Rightarrow> bytes" where
  "headerEncode h = appendU32 (appendU32 (hdr_version h # hdr_ratchetPub h) (hdr_pn h)) (hdr_n h)"

definition decodeHeader :: "bytes \<Rightarrow> e2eeErr + header" where
  "decodeHeader b =
     (if length b \<noteq> headerSize then Inl ErrMalformed
      else Inr \<lparr>hdr_version = b ! 0, hdr_ratchetPub = take 32 (drop 1 b),
                hdr_pn = getU32 (take 4 (drop 33 b)), hdr_n = getU32 (take 4 (drop 37 b))\<rparr>)"

type_synonym skippedKey = "bytes \<times> u32"

record ratchet =
  rootKey :: bytes
  sendKey :: bytes
  receiveKey :: "bytes option"
  sendChain :: "bytes option"
  receiveChain :: "bytes option"
  sendCount :: u32
  receiveCount :: u32
  previousSent :: u32
  skipped :: "skippedKey \<Rightarrow> bytes option"
  order :: "skippedKey list"
  steps :: u64

section \<open>Key derivation\<close>

definition hkdfNew :: "crypto \<Rightarrow> bytes \<Rightarrow> bytes \<Rightarrow> bytes \<Rightarrow> nat \<Rightarrow> e2eeErr + bytes" where
  "hkdfNew C secret salt info n = hkdfExpand C (hkdfExtract C salt secret) info n"

definition kdfRootKey :: "crypto \<Rightarrow> bytes \<Rightarrow> bytes \<Rightarrow> e2eeErr + (bytes \<times> bytes)" where
  "kdfRootKey C root dh =
     bindE (hkdfNew C dh root (toBytes labelRatchetRoot) (2 * keySize))
       (\<lambda>out. Inr (take keySize out, drop keySize out))"

definition kdfChainKey :: "crypto \<Rightarrow> bytes \<Rightarrow> bytes \<times> bytes" where
  "kdfChainKey C chain = (hmacSHA256 C chain [1], hmacSHA256 C chain [2])"

definition messageKeys :: "crypto \<Rightarrow> bytes \<Rightarrow> e2eeErr + (bytes \<times> bytes)" where
  "messageKeys C mk =
     bindE (hkdfNew C mk [] (toBytes labelMessageKeys) (keySize + nonceSize))
       (\<lambda>out. Inr (take keySize out, drop keySize out))"

section \<open>Construction\<close>

definition draw :: "nat \<Rightarrow> (bytes, e2eeErr, bytes) prog" where
  "draw k tape = (if k \<le> length tape then (Inr (take k tape), drop k tape) else (Inl ErrRandom, []))"

definition newRatchetInitiator :: "crypto \<Rightarrow> bytes \<Rightarrow> bytes \<Rightarrow> (bytes, e2eeErr, ratchet) prog" where
  "newRatchetInitiator C root peerRatchet =
     bindS (draw 32) (\<lambda>sk.
     bindS (liftS (fromOption ErrMalformed (c_ecdh C sk peerRatchet))) (\<lambda>shared.
     bindS (liftS (kdfRootKey C root shared)) (\<lambda>(newRoot, chain).
     retS \<lparr>rootKey = newRoot, sendKey = sk, receiveKey = Some peerRatchet, sendChain = Some chain,
           receiveChain = None, sendCount = 0, receiveCount = 0, previousSent = 0,
           skipped = (\<lambda>_. None), order = [], steps = 0\<rparr>)))"

definition newRatchetResponder :: "bytes \<Rightarrow> bytes \<Rightarrow> ratchet" where
  "newRatchetResponder root ephemeral =
     \<lparr>rootKey = root, sendKey = ephemeral, receiveKey = None, sendChain = None,
      receiveChain = None, sendCount = 0, receiveCount = 0, previousSent = 0,
      skipped = (\<lambda>_. None), order = [], steps = 0\<rparr>"

section \<open>Sending\<close>

definition canSend :: "ratchet \<Rightarrow> bool" where
  "canSend r \<longleftrightarrow> sendChain r \<noteq> None"

definition sliceChain :: "bytes option \<Rightarrow> bytes" where
  "sliceChain c = (case c of None \<Rightarrow> [] | Some x \<Rightarrow> x)"

definition ratchetNext :: "crypto \<Rightarrow> (ratchet, e2eeErr, header \<times> bytes) prog" where
  "ratchetNext C r =
     (if \<not> canSend r then (Inl ErrCannotSend, r)
      else if sendCount r = NOT 0 then (Inl ErrChainExhausted, r)
      else case kdfChainKey C (sliceChain (sendChain r)) of (mk, nextChain) \<Rightarrow>
        (Inr (\<lparr>hdr_version = ucast V2, hdr_ratchetPub = c_xpub C (sendKey r),
               hdr_pn = previousSent r, hdr_n = sendCount r\<rparr>, mk),
         r\<lparr>sendChain := Some nextChain, sendCount := sendCount r + 1\<rparr>))"

section \<open>The DH ratchet step\<close>

definition stepRatchet :: "crypto \<Rightarrow> bytes \<Rightarrow> (ratchet \<times> bytes, e2eeErr, unit) prog" where
  "stepRatchet C peerRatchet = (\<lambda>(r, tape).
     let r1 = r\<lparr>previousSent := sendCount r, sendCount := 0, receiveCount := 0,
                receiveKey := Some peerRatchet\<rparr>
     in case c_ecdh C (sendKey r1) peerRatchet of
          None \<Rightarrow> (Inl ErrMalformed, (r1, tape))
        | Some shared \<Rightarrow>
       (case kdfRootKey C (rootKey r1) shared of
          Inl e \<Rightarrow> (Inl e, (r1, tape))
        | Inr (newRoot, recvChain) \<Rightarrow>
       let r2 = r1\<lparr>rootKey := newRoot, receiveChain := Some recvChain\<rparr>
       in case draw 32 tape of
          (Inl e, tape') \<Rightarrow> (Inl e, (r2, tape'))
        | (Inr sk, tape') \<Rightarrow>
       (case c_ecdh C sk peerRatchet of
          None \<Rightarrow> (Inl ErrMalformed, (r2, tape'))
        | Some shared' \<Rightarrow>
       (case kdfRootKey C (rootKey r2) shared' of
          Inl e \<Rightarrow> (Inl e, (r2, tape'))
        | Inr (newRoot', sendCh) \<Rightarrow>
          (Inr (), (r2\<lparr>rootKey := newRoot', sendChain := Some sendCh, sendKey := sk,
                       steps := steps r2 + 1\<rparr>, tape'))))))"

section \<open>The store of skipped message keys\<close>

fun trimStore :: "skippedKey list \<Rightarrow> (skippedKey \<Rightarrow> bytes option) \<Rightarrow> skippedKey list \<times> (skippedKey \<Rightarrow> bytes option)" where
  "trimStore [] m = ([], m)"
| "trimStore (k # ks) m =
     (if length (k # ks) > MaxSkipStore then trimStore ks (m(k := None)) else (k # ks, m))"

definition remember :: "skippedKey \<Rightarrow> bytes \<Rightarrow> ratchet \<Rightarrow> ratchet" where
  "remember k mk r =
     (let ks = (if skipped r k = None then order r @ [k] else order r);
          m = (skipped r)(k := Some mk)
      in case trimStore ks m of (ks', m') \<Rightarrow> r\<lparr>order := ks', skipped := m'\<rparr>)"

definition forget :: "skippedKey \<Rightarrow> ratchet \<Rightarrow> ratchet" where
  "forget k r =
     (if skipped r k \<noteq> None
      then r\<lparr>skipped := (skipped r)(k := None), order := remove1 k (order r)\<rparr> else r)"

section \<open>Receiving\<close>

text \<open>One turn of the loop of \<^verbatim>\<open>skipTo\<close>.\<close>

definition skipOne :: "crypto \<Rightarrow> bytes \<Rightarrow> ratchet \<Rightarrow> ratchet" where
  "skipOne C pub r =
     (case kdfChainKey C (sliceChain (receiveChain r)) of (mk, nextChain) \<Rightarrow>
       let r1 = remember (pub, receiveCount r) mk (r\<lparr>receiveChain := Some nextChain\<rparr>)
       in r1\<lparr>receiveCount := receiveCount r1 + 1\<rparr>)"

lemma remember_fields [simp]:
  "rootKey (remember k v r) = rootKey r" "sendKey (remember k v r) = sendKey r"
  "receiveKey (remember k v r) = receiveKey r" "sendChain (remember k v r) = sendChain r"
  "receiveChain (remember k v r) = receiveChain r" "sendCount (remember k v r) = sendCount r"
  "receiveCount (remember k v r) = receiveCount r" "previousSent (remember k v r) = previousSent r"
  "steps (remember k v r) = steps r"
  by (simp_all add: remember_def Let_def split: prod.splits)

lemma skipOne_fields [simp]:
  "rootKey (skipOne C p r) = rootKey r" "sendKey (skipOne C p r) = sendKey r"
  "receiveKey (skipOne C p r) = receiveKey r" "sendChain (skipOne C p r) = sendChain r"
  "sendCount (skipOne C p r) = sendCount r" "receiveCount (skipOne C p r) = receiveCount r + 1"
  "previousSent (skipOne C p r) = previousSent r" "steps (skipOne C p r) = steps r"
  by (simp_all add: skipOne_def Let_def kdfChainKey_def)

lemma word_less_Suc: "c < (t :: u32) \<Longrightarrow> unat (c + 1) = Suc (unat c)"
  using unat_bounds(3) [of t] by (simp add: unat_word_ariths word_less_nat_alt)

function skipLoop :: "crypto \<Rightarrow> bytes \<Rightarrow> u32 \<Rightarrow> ratchet \<Rightarrow> ratchet" where
  "skipLoop C pub target r =
     (if receiveCount r < target then skipLoop C pub target (skipOne C pub r) else r)"
  by pat_completeness auto
termination
  by (relation "measure (\<lambda>(C, pub, target, r). unat target - unat (receiveCount r))")
    (auto simp: word_less_Suc word_less_nat_alt)

declare skipLoop.simps [simp del]

definition skipTo :: "crypto \<Rightarrow> u32 \<Rightarrow> (ratchet, e2eeErr, unit) prog" where
  "skipTo C target r =
     (if receiveChain r = None then (Inr (), r)
      else if target < receiveCount r then (Inr (), r)
      else if unat (target - receiveCount r) > MaxSkip then (Inl ErrSkipTooLarge, r)
      else case receiveKey r of
             None \<Rightarrow> (Inl ErrPanic, r)
           | Some pub \<Rightarrow> (Inr (), skipLoop C pub target r))"

definition noKey :: skippedKey where "noKey = ([], 0)"

text \<open>The tail of \<^verbatim>\<open>receive\<close>, once the chain is the right one.\<close>

definition receiveChainKey :: "crypto \<Rightarrow> header \<Rightarrow> (ratchet, e2eeErr, bytes \<times> skippedKey) prog" where
  "receiveChainKey C h r =
     (if hdr_n h < receiveCount r then (Inl ErrStaleMessage, r)
      else case skipTo C (hdr_n h) r of
        (Inl e, r1) \<Rightarrow> (Inl e, r1)
      | (Inr _, r1) \<Rightarrow>
          (case kdfChainKey C (sliceChain (receiveChain r1)) of (mk, nextChain) \<Rightarrow>
            (Inr (mk, noKey), r1\<lparr>receiveChain := Some nextChain, receiveCount := receiveCount r1 + 1\<rparr>)))"

definition receive :: "crypto \<Rightarrow> header \<Rightarrow> (ratchet \<times> bytes, e2eeErr, bytes \<times> skippedKey) prog" where
  "receive C h = (\<lambda>(r, tape).
     if length (hdr_ratchetPub h) \<noteq> 32 then (Inl ErrMalformed, (r, tape))
     else case skipped r (hdr_ratchetPub h, hdr_n h) of
       Some mk \<Rightarrow> (Inr (mk, (hdr_ratchetPub h, hdr_n h)), (r, tape))
     | None \<Rightarrow>
         if receiveKey r \<noteq> Some (hdr_ratchetPub h) then
           (case skipTo C (hdr_pn h) r of
              (Inl e, r1) \<Rightarrow> (Inl e, (r1, tape))
            | (Inr _, r1) \<Rightarrow>
           (case stepRatchet C (hdr_ratchetPub h) (r1, tape) of
              (Inl e, s2) \<Rightarrow> (Inl e, s2)
            | (Inr _, (r2, tape')) \<Rightarrow>
                (case receiveChainKey C h r2 of (x, r3) \<Rightarrow> (x, (r3, tape')))))
         else (case receiveChainKey C h r of (x, r3) \<Rightarrow> (x, (r3, tape))))"

text \<open>\<^verbatim>\<open>clone\<close> copies every slice; with values there is nothing to copy.\<close>

definition cloneRatchet :: "ratchet \<Rightarrow> ratchet" where
  "cloneRatchet r =
     \<lparr>rootKey = rootKey r, sendKey = sendKey r, receiveKey = receiveKey r,
      sendChain = sendChain r, receiveChain = receiveChain r, sendCount = sendCount r,
      receiveCount = receiveCount r, previousSent = previousSent r,
      skipped = skipped r, order = order r, steps = steps r\<rparr>"

definition destroyRatchet :: "ratchet \<Rightarrow> ratchet" where
  "destroyRatchet r =
     r\<lparr>rootKey := [], sendChain := None, receiveChain := None, skipped := (\<lambda>_. None), order := []\<rparr>"

section \<open>Headers\<close>

lemma headerEncode_eq:
  "headerEncode h = hdr_version h # hdr_ratchetPub h @ putU32 (hdr_pn h) @ putU32 (hdr_n h)"
  by (simp add: headerEncode_def appendU32_def)

lemma decode_encode_header:
  "length (hdr_ratchetPub h) = 32 \<Longrightarrow> decodeHeader (headerEncode h) = Inr h"
  by (simp add: decodeHeader_def headerSize_def headerEncode_eq)

lemma length_headerEncode: "length (hdr_ratchetPub h) = 32 \<Longrightarrow> length (headerEncode h) = 41"
  by (simp add: headerEncode_eq)

lemma encode_decode_header:
  assumes "decodeHeader b = Inr h"
  shows "headerEncode h = b" "length (hdr_ratchetPub h) = 32"
proof -
  from assms have l: "length b = 41" and h: "h = \<lparr>hdr_version = b ! 0, hdr_ratchetPub = take 32 (drop 1 b),
      hdr_pn = getU32 (take 4 (drop 33 b)), hdr_n = getU32 (take 4 (drop 37 b))\<rparr>"
    by (auto simp: decodeHeader_def headerSize_def split: if_splits)
  obtain v u where vu: "b = v # u" using l by (cases b) simp_all
  with l have u: "length u = 40" by simp
  have "u = take 32 u @ take 4 (drop 32 u) @ take 4 (drop 36 u)"
    using append_take_drop_id [of 32 u] append_take_drop_id [of 4 "drop 32 u"] u by simp
  moreover have "putU32 (hdr_pn h) = take 4 (drop 32 u)" "putU32 (hdr_n h) = take 4 (drop 36 u)"
    using u vu by (simp_all add: h putU32_getU32)
  ultimately show "headerEncode h = b" by (simp add: headerEncode_eq h vu)
  show "length (hdr_ratchetPub h) = 32" by (simp add: h l)
qed

interpretation headers: canonical_codec headerEncode decodeHeader "\<lambda>h. length (hdr_ratchetPub h) = 32"
  by unfold_locales (auto simp: decode_encode_header encode_decode_header)

end
