(* ===== verification/RatchetStore.thy ===== *)
theory RatchetStore
  imports Ratchet
begin

text \<open>
  The store of skipped message keys as a component of its own: what a bounded key store promises,
  that the ratchet's map-and-order pair keeps it, and that no operation of the ratchet breaks the
  agreement of the two nor the bounds.
\<close>

section \<open>The contract of a bounded one-use key store\<close>

locale key_store =
  fixes look :: "'s \<Rightarrow> 'k \<Rightarrow> 'v option"
    and put :: "'k \<Rightarrow> 'v \<Rightarrow> 's \<Rightarrow> 's"
    and del :: "'k \<Rightarrow> 's \<Rightarrow> 's"
    and inv :: "'s \<Rightarrow> bool"
    and cap :: nat
  assumes put_same: "inv s \<Longrightarrow> look (put k v s) k = Some v"
    and put_other: "inv s \<Longrightarrow> k \<noteq> k' \<Longrightarrow> look (put k v s) k' = look s k' \<or> look (put k v s) k' = None"
    and del_same: "inv s \<Longrightarrow> look (del k s) k = None"
    and del_other: "inv s \<Longrightarrow> k \<noteq> k' \<Longrightarrow> look (del k s) k' = look s k'"
    and inv_put: "inv s \<Longrightarrow> inv (put k v s)"
    and inv_del: "inv s \<Longrightarrow> inv (del k s)"
    and bounded: "inv s \<Longrightarrow> finite (dom (look s)) \<and> card (dom (look s)) \<le> cap"
begin

text \<open>A key that was taken out stays out, whatever else is stored afterwards.\<close>

lemma gone_stays_gone:
  "inv s \<Longrightarrow> look s k = None \<Longrightarrow> k \<notin> fst ` set kvs \<Longrightarrow>
     look (fold (\<lambda>(k, v). put k v) kvs s) k = None \<and> inv (fold (\<lambda>(k, v). put k v) kvs s)"
proof (induction kvs arbitrary: s)
  case Nil
  then show ?case by simp
next
  case (Cons kv kvs)
  obtain k' v where kv: "kv = (k', v)" by (cases kv)
  with Cons.prems have "look (put k' v s) k = None"
    using put_other [of s k' k v] by auto
  with Cons kv inv_put show ?case by simp
qed

lemma deleted_stays_gone:
  assumes "inv s" "k \<notin> fst ` set kvs"
  shows "look (fold (\<lambda>(k, v). put k v) kvs (del k s)) k = None"
  by (rule gone_stays_gone [THEN conjunct1, OF inv_del [OF assms(1)] del_same [OF assms(1)] assms(2)])

end

section \<open>The ratchet keeps it\<close>

definition storeOk :: "ratchet \<Rightarrow> bool" where
  "storeOk r \<longleftrightarrow> distinct (order r) \<and> set (order r) = dom (skipped r) \<and> length (order r) \<le> MaxSkipStore"

lemma trimStore_spec:
  "distinct ks \<Longrightarrow> set ks = dom m \<Longrightarrow>
     trimStore ks m = (drop (length ks - MaxSkipStore) ks,
                       m |` set (drop (length ks - MaxSkipStore) ks))"
proof (induction ks arbitrary: m)
  case Nil
  then show ?case by (auto simp: restrict_map_def fun_eq_iff dom_def)
next
  case (Cons k ks)
  show ?case
  proof (cases "length (k # ks) > MaxSkipStore")
    case True
    have "set ks = dom (m(k := None))" using Cons.prems by auto
    then have "trimStore ks (m(k := None)) =
        (drop (length ks - MaxSkipStore) ks, (m(k := None)) |` set (drop (length ks - MaxSkipStore) ks))"
      using Cons by simp
    moreover have "k \<notin> set (drop (length ks - MaxSkipStore) ks)"
      using Cons.prems(1) set_drop_subset [of "length ks - MaxSkipStore" ks] by auto
    moreover have "drop (length (k # ks) - MaxSkipStore) (k # ks) = drop (length ks - MaxSkipStore) ks"
      using True by (simp add: Suc_diff_le)
    ultimately show ?thesis using True by (simp add: restrict_fun_upd fun_upd_None_restrict)
  next
    case False
    have "m |` set (k # ks) = m"
      using Cons.prems(2) by (auto simp: restrict_map_def fun_eq_iff dom_def)
    then show ?thesis using False by simp
  qed
qed

lemma remember_spec:
  assumes "storeOk r" and "ks = (if skipped r k = None then order r @ [k] else order r)"
  shows "order (remember k v r) = drop (length ks - MaxSkipStore) ks"
    "skipped (remember k v r) = ((skipped r)(k := Some v)) |` set (drop (length ks - MaxSkipStore) ks)"
proof -
  have "distinct ks" "set ks = dom ((skipped r)(k := Some v))"
    using assms by (auto simp: storeOk_def)
  then have "trimStore ks ((skipped r)(k := Some v)) =
      (drop (length ks - MaxSkipStore) ks,
       ((skipped r)(k := Some v)) |` set (drop (length ks - MaxSkipStore) ks))"
    by (rule trimStore_spec)
  then show "order (remember k v r) = drop (length ks - MaxSkipStore) ks"
    "skipped (remember k v r) = ((skipped r)(k := Some v)) |` set (drop (length ks - MaxSkipStore) ks)"
    unfolding remember_def assms(2) by (simp_all add: Let_def)
qed

lemma remember_keeps_newest:
  assumes "storeOk r"
  shows "k \<in> set (order (remember k v r))"
proof (cases "skipped r k = None")
  case True
  have "length (order r @ [k]) - MaxSkipStore \<le> length (order r)"
    using assms by (simp add: storeOk_def MaxSkipStore_def)
  with True show ?thesis using remember_spec(1) [OF assms refl, of k v] by (simp add: drop_append)
next
  case False
  then have "order (remember k v r) = drop (length (order r) - MaxSkipStore) (order r)"
    by (intro remember_spec(1) [OF assms]) simp
  moreover have "k \<in> set (order r)" using False assms by (auto simp: storeOk_def)
  ultimately show ?thesis using assms by (simp add: storeOk_def)
qed

lemma storeOk_remember:
  assumes ok: "storeOk r"
  shows "storeOk (remember k v r)"
proof -
  define ks where "ks = (if skipped r k = None then order r @ [k] else order r)"
  define ds where "ds = drop (length ks - MaxSkipStore) ks"
  have ks: "distinct ks" "set ks = insert k (dom (skipped r))"
    using ok by (auto simp: storeOk_def ks_def)
  have "set ds \<subseteq> dom ((skipped r)(k := Some v))"
    using set_drop_subset [of "length ks - MaxSkipStore" ks] ks(2) by (simp add: ds_def)
  moreover have "distinct ds" "length ds \<le> MaxSkipStore" using ks(1) by (simp_all add: ds_def)
  moreover have "order (remember k v r) = ds" "skipped (remember k v r) = ((skipped r)(k := Some v)) |` set ds"
    unfolding ds_def by (rule remember_spec [OF ok ks_def])+
  ultimately show ?thesis by (simp only: storeOk_def dom_restrict) (simp add: inf_absorb2)
qed

lemma storeOk_forget: "storeOk r \<Longrightarrow> storeOk (forget k r)"
  by (auto simp: storeOk_def forget_def distinct_remove1 length_remove1)

interpretation keys: key_store skipped remember forget storeOk MaxSkipStore
proof (unfold_locales, goal_cases)
  case (1 s k v)
  then show ?case using remember_keeps_newest [of s k v] remember_spec [OF _ refl, of s k v] by simp
next
  case (2 s k k' v)
  then show ?case using remember_spec(2) [OF _ refl, of s k v] by (auto simp: restrict_map_def)
next
  case (3 s k)
  then show ?case by (simp add: forget_def)
next
  case (4 s k k')
  then show ?case by (simp add: forget_def)
next
  case (5 s k v)
  then show ?case by (rule storeOk_remember)
next
  case (6 s k)
  then show ?case by (rule storeOk_forget)
next
  case (7 s)
  then have "dom (skipped s) = set (order s)" "distinct (order s)" "length (order s) \<le> MaxSkipStore"
    by (auto simp: storeOk_def)
  then show ?case by (simp add: distinct_card)
qed

section \<open>The invariant of the ratchet\<close>

definition ratchetOk :: "ratchet \<Rightarrow> bool" where
  "ratchetOk r \<longleftrightarrow> storeOk r \<and> (receiveChain r \<noteq> None \<longrightarrow> receiveKey r \<noteq> None)"

lemma ratchetOk_new:
  "ratchetOk (newRatchetResponder k e)"
  "newRatchetInitiator C k p t = (Inr r, t') \<Longrightarrow> ratchetOk r"
  by (auto simp: newRatchetInitiator_def newRatchetResponder_def ratchetOk_def storeOk_def
      bindS_eq_Inr liftS_def retS_def MaxSkipStore_def)

lemma ratchetOk_upd [simp]:
  "storeOk (r\<lparr>receiveChain := c\<rparr>) = storeOk r" "storeOk (r\<lparr>receiveCount := n\<rparr>) = storeOk r"
  "storeOk (r\<lparr>sendChain := c\<rparr>) = storeOk r" "storeOk (r\<lparr>sendCount := n\<rparr>) = storeOk r"
  "storeOk (r\<lparr>previousSent := n\<rparr>) = storeOk r" "storeOk (r\<lparr>receiveKey := p\<rparr>) = storeOk r"
  "storeOk (r\<lparr>rootKey := b\<rparr>) = storeOk r" "storeOk (r\<lparr>sendKey := b\<rparr>) = storeOk r"
  "storeOk (r\<lparr>steps := s\<rparr>) = storeOk r"
  by (simp_all add: storeOk_def)

lemma ratchetOk_skipOne: "ratchetOk r \<Longrightarrow> receiveKey r \<noteq> None \<Longrightarrow> ratchetOk (skipOne C p r)"
  by (auto simp: ratchetOk_def skipOne_def kdfChainKey_def Let_def storeOk_remember)

lemma skipLoop_preserves:
  "(\<And>r. P r \<Longrightarrow> receiveCount r < target \<Longrightarrow> P (skipOne C p r)) \<Longrightarrow> P r \<Longrightarrow> P (skipLoop C p target r)"
proof (induction C p target r rule: skipLoop.induct)
  case (1 C p target r)
  show ?case
  proof (cases "receiveCount r < target")
    case True
    then show ?thesis using 1 by (simp add: skipLoop.simps [of C p target r])
  next
    case False
    then show ?thesis using "1.prems"(2) by (simp add: skipLoop.simps [of C p target r])
  qed
qed

lemma skipTo_preserves:
  assumes "\<And>p r. P r \<Longrightarrow> receiveKey r \<noteq> None \<Longrightarrow> P (skipOne C p r)" "P r"
  shows "P (snd (skipTo C target r))"
proof -
  have "P (skipLoop C p target r) \<and> receiveKey (skipLoop C p target r) \<noteq> None"
    if "receiveKey r \<noteq> None" for p
    by (rule skipLoop_preserves [where P = "\<lambda>r. P r \<and> receiveKey r \<noteq> None"]) (use that assms in auto)
  then show ?thesis using assms(2) by (auto simp: skipTo_def split: option.splits)
qed

lemma skipLoop_fields:
  "rootKey (skipLoop C p t r) = rootKey r" "sendKey (skipLoop C p t r) = sendKey r"
  "receiveKey (skipLoop C p t r) = receiveKey r" "sendChain (skipLoop C p t r) = sendChain r"
  "sendCount (skipLoop C p t r) = sendCount r" "previousSent (skipLoop C p t r) = previousSent r"
  "steps (skipLoop C p t r) = steps r"
  by (rule skipLoop_preserves; simp)+

lemma skipLoop_count: "receiveCount r \<le> t \<Longrightarrow> receiveCount (skipLoop C p t r) = t"
proof (induction C p t r rule: skipLoop.induct)
  case (1 C p t r)
  show ?case
  proof (cases "receiveCount r < t")
    case True
    then have "receiveCount r + 1 \<le> t"
      using word_less_Suc [OF True] by (simp add: word_le_nat_alt word_less_nat_alt)
    then show ?thesis using True 1 by (simp add: skipLoop.simps [of C p t r])
  next
    case False
    then show ?thesis using "1.prems" by (simp add: skipLoop.simps [of C p t r])
  qed
qed

lemma skipTo_ok: "ratchetOk r \<Longrightarrow> ratchetOk (snd (skipTo C t r))"
  by (rule skipTo_preserves) (simp_all add: ratchetOk_skipOne)

lemma skipTo_key: "receiveKey (snd (skipTo C t r)) = receiveKey r"
  by (simp add: skipTo_def skipLoop_fields split: option.splits)

lemma skipTo_no_panic: "ratchetOk r \<Longrightarrow> fst (skipTo C t r) \<noteq> Inl ErrPanic"
  by (auto simp: skipTo_def ratchetOk_def split: option.splits)

lemma skipTo_errors: "skipTo C t r = (Inl e, r') \<Longrightarrow> (e = ErrSkipTooLarge \<or> e = ErrPanic) \<and> r' = r"
  by (auto simp: skipTo_def split: if_splits option.splits)

lemma hkdfNew_ok: "n \<le> 8160 \<Longrightarrow> hkdfNew C s a i n = Inr (c_expand C (c_extract C a s) i n)"
  by (simp add: hkdfNew_def hkdfExpand_def hkdfExtract_def)

lemma kdfRootKey_eq:
  "kdfRootKey C rk dh =
     (let out = c_expand C (c_extract C rk dh) (toBytes labelRatchetRoot) 64 in Inr (take 32 out, drop 32 out))"
  by (simp add: kdfRootKey_def hkdfNew_ok keySize_def Let_def)

lemma messageKeys_eq:
  "messageKeys C mk =
     (let out = c_expand C (c_extract C [] mk) (toBytes labelMessageKeys) 44 in Inr (take 32 out, drop 32 out))"
  by (simp add: messageKeys_def hkdfNew_ok keySize_def nonceSize_def Let_def)

lemma stepRatchet_ok: "ratchetOk r \<Longrightarrow> ratchetOk (fst (snd (stepRatchet C p (r, t))))"
  by (auto simp: stepRatchet_def ratchetOk_def Let_def kdfRootKey_eq split: option.splits prod.splits sum.splits)

lemma stepRatchet_errors:
  "fst (stepRatchet C p s) = Inl e \<Longrightarrow> e = ErrMalformed \<or> e = ErrRandom"
  by (auto simp: stepRatchet_def Let_def kdfRootKey_eq draw_def split: option.splits prod.splits sum.splits if_splits)

lemma stepRatchet_key: "stepRatchet C p (r, t) = (Inr u, (r', t')) \<Longrightarrow> receiveKey r' = Some p \<and> receiveChain r' \<noteq> None"
  by (auto simp: stepRatchet_def Let_def kdfRootKey_eq split: option.splits prod.splits sum.splits)

lemma receiveChainKey_ok:
  assumes "ratchetOk r" "receiveKey r \<noteq> None"
  shows "ratchetOk (snd (receiveChainKey C h r))" "fst (receiveChainKey C h r) \<noteq> Inl ErrPanic"
proof -
  obtain x r1 where s: "skipTo C (hdr_n h) r = (x, r1)" by (cases "skipTo C (hdr_n h) r")
  have r1: "ratchetOk r1" "receiveKey r1 \<noteq> None" "x \<noteq> Inl ErrPanic"
    using skipTo_ok [OF assms(1), of C "hdr_n h"] skipTo_key [of C "hdr_n h" r]
      skipTo_no_panic [OF assms(1), of C "hdr_n h"] assms(2) s by simp_all
  then show "ratchetOk (snd (receiveChainKey C h r))" "fst (receiveChainKey C h r) \<noteq> Inl ErrPanic"
    using assms by (auto simp: receiveChainKey_def s ratchetOk_def kdfChainKey_def split: sum.splits)
qed

lemma receive_ok:
  assumes "ratchetOk r"
  shows "ratchetOk (fst (snd (receive C h (r, t)))) \<and> fst (receive C h (r, t)) \<noteq> Inl ErrPanic"
proof -
  obtain x r1 where s: "skipTo C (hdr_pn h) r = (x, r1)" by (cases "skipTo C (hdr_pn h) r")
  obtain y r2 t' where st: "stepRatchet C (hdr_ratchetPub h) (r1, t) = (y, (r2, t'))"
    by (metis prod.exhaust)
  have r1: "ratchetOk r1" "x \<noteq> Inl ErrPanic"
    using skipTo_ok [OF assms, of C "hdr_pn h"] skipTo_no_panic [OF assms, of C "hdr_pn h"] s by simp_all
  have r2: "ratchetOk r2" "y \<noteq> Inl ErrPanic"
    using stepRatchet_ok [OF r1(1), of C "hdr_ratchetPub h" t] stepRatchet_errors [of C "hdr_ratchetPub h" "(r1, t)"] st
    by auto
  have k2: "receiveKey r2 \<noteq> None" if "y = Inr u" for u
    using stepRatchet_key [of C "hdr_ratchetPub h" r1 t u r2 t'] st that by simp
  show ?thesis
    using assms r1 r2 k2 receiveChainKey_ok [of r2 C h] receiveChainKey_ok [OF assms, of C h]
    by (auto simp: receive_def s st split: option.splits sum.splits prod.splits)
qed

lemma ratchetNext_ok: "ratchetOk r \<Longrightarrow> ratchetOk (snd (ratchetNext C r))"
  by (simp add: ratchetNext_def ratchetOk_def kdfChainKey_def)

lemma forget_ok: "ratchetOk r \<Longrightarrow> ratchetOk (forget k r)"
  using storeOk_forget [of r k] by (auto simp: ratchetOk_def forget_def)

lemma clone_id [simp]: "cloneRatchet r = r"
  by (simp add: cloneRatchet_def)

text \<open>C10: the ratchet's invariant: the order list and the map of skipped message keys always hold
  the same keys, without repetition and at most \<^verbatim>\<open>MaxSkipStore\<close> of them, and a receiving chain never
  exists without a receiving key. Both constructors establish it, and sending, receiving (whether or
  not it succeeds) and forgetting preserve it; no reachable call of \<^verbatim>\<open>receive\<close> dereferences a nil key.\<close>

theorem ratchet_invariant:
  "ratchetOk (newRatchetResponder k e)
   \<and> (newRatchetInitiator C k p t = (Inr r0, t') \<longrightarrow> ratchetOk r0)
   \<and> (ratchetOk r \<longrightarrow> ratchetOk (snd (ratchetNext C r)) \<and> ratchetOk (forget sk r)
        \<and> ratchetOk (fst (snd (receive C h (r, t)))) \<and> fst (receive C h (r, t)) \<noteq> Inl ErrPanic)"
  using ratchetOk_new ratchetNext_ok forget_ok receive_ok by blast

theorem ratchet_invariant_witness:
  "ratchetOk (fst (snd (receive plainCrypto \<lparr>hdr_version = 2, hdr_ratchetPub = replicate 32 7, hdr_pn = 0, hdr_n = 3\<rparr>
      (newRatchetResponder [1] [2], replicate 32 5))))"
proof -
  have "ratchetOk (newRatchetResponder [1] [2])"
    using ratchet_invariant [of "[1]" "[2]" plainCrypto] by blast
  then show ?thesis using ratchet_invariant by blast
qed

end
