(* ===== verification/RatchetView.thy ===== *)
theory RatchetView
  imports RatchetStore
begin

text \<open>
  What the receiving side of the ratchet promises, stated without chains, counters and stores: a
  map from message positions to the one key that opens the message there, from which every
  successful fetch removes exactly one entry. The concrete \<^verbatim>\<open>receive\<close> refines it inside a window.
\<close>

section \<open>The contract: one-use keys\<close>

fun fetchAll :: "('m \<Rightarrow> 's \<Rightarrow> ('e + 'v) \<times> 's) \<Rightarrow> 'm list \<Rightarrow> 's \<Rightarrow> ('e + 'v) list \<times> 's" where
  "fetchAll fetch [] s = ([], s)"
| "fetchAll fetch (m # ms) s =
     (case fetch m s of (x, s1) \<Rightarrow> case fetchAll fetch ms s1 of (xs, s2) \<Rightarrow> (x # xs, s2))"

locale key_source =
  fixes view :: "'s \<Rightarrow> 'k \<Rightarrow> 'v option"
    and key :: "'m \<Rightarrow> 'k"
    and fetch :: "'m \<Rightarrow> 's \<Rightarrow> ('e + 'v) \<times> 's"
    and inv :: "'s \<Rightarrow> bool"
    and win :: "'m \<Rightarrow> bool"
    and stale :: 'e
  assumes fetch_hit: "inv s \<Longrightarrow> win m \<Longrightarrow> view s (key m) = Some v \<Longrightarrow>
      \<exists>s'. fetch m s = (Inr v, s') \<and> view s' = (view s)(key m := None) \<and> inv s'"
    and fetch_miss: "inv s \<Longrightarrow> win m \<Longrightarrow> view s (key m) = None \<Longrightarrow> fetch m s = (Inl stale, s)"
begin

lemma fetch_any_order:
  "inv s \<Longrightarrow> \<forall>m \<in> set ms. win m \<and> view s (key m) \<noteq> None \<Longrightarrow> distinct (map key ms) \<Longrightarrow>
     fst (fetchAll fetch ms s) = map (\<lambda>m. Inr (the (view s (key m)))) ms
     \<and> inv (snd (fetchAll fetch ms s))
     \<and> (\<forall>k. view (snd (fetchAll fetch ms s)) k = (if k \<in> key ` set ms then None else view s k))"
proof (induction ms arbitrary: s)
  case Nil
  then show ?case by simp
next
  case (Cons m ms)
  then obtain v where v: "view s (key m) = Some v" and w: "win m" by auto
  from fetch_hit [OF Cons.prems(1) w v] obtain s1 where
    s1: "fetch m s = (Inr v, s1)" "view s1 = (view s)(key m := None)" "inv s1" by blast
  have sub: "\<forall>m' \<in> set ms. win m' \<and> view s1 (key m') = view s (key m') \<and> view s1 (key m') \<noteq> None"
    using Cons.prems(2,3) s1(2) by (force simp: image_iff)
  then have "fst (fetchAll fetch ms s1) = map (\<lambda>m'. Inr (the (view s1 (key m')))) ms
     \<and> inv (snd (fetchAll fetch ms s1))
     \<and> (\<forall>k. view (snd (fetchAll fetch ms s1)) k = (if k \<in> key ` set ms then None else view s1 k))"
    using Cons.IH [OF s1(3) _ conjunct2 [OF Cons.prems(3) [simplified]]] by blast
  moreover have "map (\<lambda>m'. Inr (the (view s1 (key m')))) ms = map (\<lambda>m'. Inr (the (view s (key m')))) ms"
    using sub by simp
  ultimately show ?case using s1 v by (auto split: prod.splits)
qed

lemma fetch_never_twice:
  assumes "inv s" "\<forall>m \<in> set ms. win m \<and> view s (key m) \<noteq> None" "distinct (map key ms)" "m \<in> set ms"
  shows "fetch m (snd (fetchAll fetch ms s)) = (Inl stale, snd (fetchAll fetch ms s))"
  using fetch_any_order [OF assms(1-3)] assms(2,4) by (intro fetch_miss) auto

end

section \<open>Chains\<close>

fun chainAt :: "crypto \<Rightarrow> bytes \<Rightarrow> nat \<Rightarrow> bytes" where
  "chainAt C ck 0 = ck"
| "chainAt C ck (Suc i) = chainAt C (snd (kdfChainKey C ck)) i"

definition mkAt :: "crypto \<Rightarrow> bytes \<Rightarrow> nat \<Rightarrow> bytes" where
  "mkAt C ck i = fst (kdfChainKey C (chainAt C ck i))"

lemma chainAt_snoc: "chainAt C ck (Suc i) = snd (kdfChainKey C (chainAt C ck i))"
  by (induction i arbitrary: ck) simp_all

lemma mkAt_simps [simp]:
  "mkAt C ck 0 = fst (kdfChainKey C ck)"
  "mkAt C ck (Suc i) = mkAt C (snd (kdfChainKey C ck)) i"
  by (simp_all add: mkAt_def)

section \<open>The abstraction\<close>

definition keyView :: "crypto \<Rightarrow> ratchet \<Rightarrow> skippedKey \<Rightarrow> bytes option" where
  "keyView C r k =
     (case skipped r k of
        Some mk \<Rightarrow> Some mk
      | None \<Rightarrow>
          (if receiveKey r = Some (fst k) \<and> receiveChain r \<noteq> None \<and> receiveCount r \<le> snd k
           then Some (mkAt C (sliceChain (receiveChain r)) (unat (snd k) - unat (receiveCount r)))
           else None))"

definition chainFresh :: "bytes \<Rightarrow> ratchet \<Rightarrow> bool" where
  "chainFresh pub r \<longleftrightarrow> (\<forall>n. skipped r (pub, n) \<noteq> None \<longrightarrow> n < receiveCount r)"

text \<open>
  The window: \<^verbatim>\<open>W\<close> positions from \<^verbatim>\<open>c0\<close> on in the current receiving chain, with room in the store
  for the keys of all that are still to come.
\<close>

definition inWindow :: "bytes \<Rightarrow> nat \<Rightarrow> nat \<Rightarrow> ratchet \<Rightarrow> bool" where
  "inWindow pub c0 W r \<longleftrightarrow>
     ratchetOk r \<and> receiveKey r = Some pub \<and> length pub = 32 \<and> receiveChain r \<noteq> None
     \<and> c0 \<le> unat (receiveCount r) \<and> unat (receiveCount r) \<le> c0 + W
     \<and> W \<le> MaxSkip \<and> c0 + W < 2 ^ 32
     \<and> length (order r) + (c0 + W - unat (receiveCount r)) \<le> MaxSkipStore
     \<and> chainFresh pub r"

lemma remember_room:
  assumes "storeOk r" "skipped r k = None" "length (order r) < MaxSkipStore"
  shows "order (remember k v r) = order r @ [k]" "skipped (remember k v r) = (skipped r)(k := Some v)"
proof -
  define ds where "ds = drop (length (order r @ [k]) - MaxSkipStore) (order r @ [k])"
  have e: "order r @ [k] = (if skipped r k = None then order r @ [k] else order r)" using assms(2) by simp
  have ds: "ds = order r @ [k]" using assms(3) by (simp add: ds_def)
  have dom: "dom ((skipped r)(k := Some v)) = set ds" using assms(1) by (auto simp: storeOk_def ds)
  show "order (remember k v r) = order r @ [k]"
    using remember_spec(1) [OF assms(1) e, of v] ds by (simp only: ds_def)
  have "m |` dom m = m" for m :: "skippedKey \<Rightarrow> bytes option"
    by (auto simp: restrict_map_def fun_eq_iff dom_def)
  then have "((skipped r)(k := Some v)) |` set ds = (skipped r)(k := Some v)"
    by (simp only: dom [symmetric])
  then show "skipped (remember k v r) = (skipped r)(k := Some v)"
    using remember_spec(2) [OF assms(1) e, of v] by (simp only: ds_def)
qed

lemma skipOne_eq:
  "skipOne C pub r =
     (remember (pub, receiveCount r) (mkAt C (sliceChain (receiveChain r)) 0)
        (r\<lparr>receiveChain := Some (chainAt C (sliceChain (receiveChain r)) 1)\<rparr>))
       \<lparr>receiveCount := receiveCount r + 1\<rparr>"
  by (simp add: skipOne_def kdfChainKey_def Let_def)

lemma word_Suc_le: "c < (t :: u32) \<Longrightarrow> c + 1 \<le> n \<longleftrightarrow> c < n"
  by (simp add: word_less_Suc word_le_nat_alt word_less_nat_alt Suc_le_eq)

lemma skipOne_window:
  assumes w: "inWindow pub c0 W r" and lt: "unat (receiveCount r) < c0 + W"
  shows "inWindow pub c0 W (skipOne C pub r)" "keyView C (skipOne C pub r) = keyView C r"
proof -
  let ?k = "(pub, receiveCount r)"
  let ?r1 = "r\<lparr>receiveChain := Some (chainAt C (sliceChain (receiveChain r)) 1)\<rparr>"
  have ok: "storeOk r" "storeOk ?r1" using w by (simp_all add: inWindow_def ratchetOk_def)
  have free: "skipped ?r1 ?k = None" using w by (force simp: inWindow_def chainFresh_def)
  have "length (order r) + (c0 + W - unat (receiveCount r)) \<le> MaxSkipStore" using w by (simp only: inWindow_def)
  with lt have room: "length (order ?r1) < MaxSkipStore" by simp
  note rem = remember_room [OF ok(2) free room, of "mkAt C (sliceChain (receiveChain r)) 0"]
  have cnt: "unat (receiveCount r + 1) = Suc (unat (receiveCount r))"
    using w lt by (simp add: inWindow_def unat_word_ariths)
  have le: "receiveCount r + 1 \<le> n \<longleftrightarrow> receiveCount r < n" for n
    using cnt by (simp add: word_le_nat_alt word_less_nat_alt Suc_le_eq)
  have flds: "order (skipOne C pub r) = order r @ [?k]"
    "skipped (skipOne C pub r) = (skipped r)(?k := Some (mkAt C (sliceChain (receiveChain r)) 0))"
    "receiveChain (skipOne C pub r) = Some (chainAt C (sliceChain (receiveChain r)) 1)"
    using rem by (simp_all add: skipOne_eq)
  have "ratchetOk (skipOne C pub r)"
    using w by (intro ratchetOk_skipOne) (simp_all add: inWindow_def)
  moreover have "chainFresh pub (skipOne C pub r)"
    using w cnt by (auto simp: chainFresh_def inWindow_def flds word_less_nat_alt split: if_splits
        intro: less_SucI)
  ultimately show "inWindow pub c0 W (skipOne C pub r)"
    using w lt cnt by (auto simp: inWindow_def flds)
  show "keyView C (skipOne C pub r) = keyView C r"
  proof
    fix k
    show "keyView C (skipOne C pub r) k = keyView C r k"
    proof (cases "k = ?k")
      case True
      then show ?thesis using w free by (simp add: keyView_def flds inWindow_def)
    next
      case False
      show ?thesis
      proof (cases "receiveKey r = Some (fst k) \<and> receiveCount r < snd k \<and> skipped r k = None")
        case True
        then obtain d where d: "unat (snd k) - unat (receiveCount r) = Suc d" "unat (snd k) - Suc (unat (receiveCount r)) = d"
          by (metis Suc_diff_Suc word_less_nat_alt)
        have "receiveCount r \<le> snd k" using True by (simp add: order_less_imp_le)
        then show ?thesis using True False w d cnt le by (simp add: keyView_def flds sliceChain_def inWindow_def)
      next
        case no: False
        have "receiveKey r = Some (fst k) \<Longrightarrow> snd k \<noteq> receiveCount r"
          using False w by (cases k) (auto simp: inWindow_def)
        then have "receiveKey r = Some (fst k) \<Longrightarrow> skipped r k = None \<Longrightarrow> \<not> receiveCount r \<le> snd k"
          using no by fastforce
        moreover have "\<not> receiveCount r \<le> snd k \<Longrightarrow> \<not> receiveCount r < snd k" by (simp add: order_less_imp_le)
        ultimately show ?thesis using False by (cases "skipped r k"; cases "receiveKey r = Some (fst k)") (simp_all add: keyView_def flds le)
      qed
    qed
  qed
qed

lemma skipLoop_window:
  "inWindow pub c0 W r \<Longrightarrow> unat t \<le> c0 + W \<Longrightarrow>
     inWindow pub c0 W (skipLoop C pub t r) \<and> keyView C (skipLoop C pub t r) = keyView C r"
proof (induction C pub t r rule: skipLoop.induct)
  case (1 C pub t r)
  show ?case
  proof (cases "receiveCount r < t")
    case True
    then have "unat (receiveCount r) < c0 + W" using "1.prems"(2) by (simp add: word_less_nat_alt)
    from skipOne_window [OF "1.prems"(1) this, of C] show ?thesis
      using True "1.IH" "1.prems"(2) by (simp add: skipLoop.simps [of C pub t r])
  next
    case False
    then show ?thesis using "1.prems" by (simp add: skipLoop.simps [of C pub t r])
  qed
qed

lemma receiveChainKey_window:
  assumes w: "inWindow pub c0 W r" and h: "hdr_ratchetPub h = pub" "receiveCount r \<le> hdr_n h" "unat (hdr_n h) < c0 + W"
  shows "\<exists>r'. receiveChainKey C h r = (Inr (mkAt C (sliceChain (receiveChain r)) (unat (hdr_n h) - unat (receiveCount r)), noKey), r')
      \<and> inWindow pub c0 W r' \<and> keyView C r' = (keyView C r)((pub, hdr_n h) := None)"
proof -
  define r1 where "r1 = skipLoop C pub (hdr_n h) r"
  have w1: "inWindow pub c0 W r1" and v1: "keyView C r1 = keyView C r"
    using skipLoop_window [OF w, of "hdr_n h" C] h(3) by (simp_all add: r1_def)
  have c1: "receiveCount r1 = hdr_n h" unfolding r1_def by (rule skipLoop_count [OF h(2)])
  have gap: "unat (hdr_n h - receiveCount r) \<le> MaxSkip"
  proof -
    have "unat (hdr_n h - receiveCount r) = unat (hdr_n h) - unat (receiveCount r)" by (rule unat_sub [OF h(2)])
    moreover have "c0 \<le> unat (receiveCount r)" "W \<le> MaxSkip" using w by (simp_all only: inWindow_def)
    ultimately show ?thesis using h(3) by linarith
  qed
  have skip: "skipTo C (hdr_n h) r = (Inr (), r1)"
    using w gap h(2) by (auto simp: skipTo_def inWindow_def r1_def)
  define r' where "r' = r1\<lparr>receiveChain := Some (snd (kdfChainKey C (sliceChain (receiveChain r1)))),
      receiveCount := receiveCount r1 + 1\<rparr>"
  have run: "receiveChainKey C h r = (Inr (fst (kdfChainKey C (sliceChain (receiveChain r1))), noKey), r')"
    using h(2) by (simp add: receiveChainKey_def skip r'_def kdfChainKey_def)
  have free: "skipped r1 (pub, hdr_n h) = None" using w1 c1 by (force simp: inWindow_def chainFresh_def)
  have free0: "skipped r (pub, hdr_n h) = None" using w h(2) by (force simp: inWindow_def chainFresh_def)
  have "keyView C r1 (pub, hdr_n h) = Some (fst (kdfChainKey C (sliceChain (receiveChain r1))))"
    using free w1 c1 by (simp add: keyView_def inWindow_def)
  moreover have "keyView C r (pub, hdr_n h) = Some (mkAt C (sliceChain (receiveChain r)) (unat (hdr_n h) - unat (receiveCount r)))"
    using free0 w h(2) by (simp add: keyView_def inWindow_def)
  ultimately have mk: "fst (kdfChainKey C (sliceChain (receiveChain r1))) =
      mkAt C (sliceChain (receiveChain r)) (unat (hdr_n h) - unat (receiveCount r))"
    using v1 by simp
  have cnt: "unat (hdr_n h + 1) = Suc (unat (hdr_n h))"
    using w h(3) by (simp add: inWindow_def unat_word_ariths)
  have le: "hdr_n h + 1 \<le> n \<longleftrightarrow> hdr_n h < n" for n
    using cnt by (simp add: word_le_nat_alt word_less_nat_alt Suc_le_eq)
  have "inWindow pub c0 W r'"
    using w1 c1 cnt h(3) by (auto simp: inWindow_def r'_def ratchetOk_def chainFresh_def word_less_nat_alt intro: less_SucI)
  moreover have "keyView C r' k = ((keyView C r)((pub, hdr_n h) := None)) k" for k
  proof (cases "k = (pub, hdr_n h)")
    case True
    then show ?thesis using free le c1 by (simp add: keyView_def r'_def)
  next
    case False
    have "keyView C r' k = keyView C r1 k"
    proof (cases "receiveKey r1 = Some (fst k) \<and> hdr_n h < snd k \<and> skipped r1 k = None")
      case True
      then obtain d where d: "unat (snd k) - unat (hdr_n h) = Suc d" "unat (snd k) - Suc (unat (hdr_n h)) = d"
        by (metis Suc_diff_Suc word_less_nat_alt)
      have "hdr_n h \<le> snd k" using True by (simp add: order_less_imp_le)
      then show ?thesis using True w1 d cnt le c1 by (simp add: keyView_def r'_def sliceChain_def inWindow_def)
    next
      case no: False
      have "receiveKey r1 = Some (fst k) \<Longrightarrow> snd k \<noteq> hdr_n h" using False w1 by (cases k) (auto simp: inWindow_def)
      then have "receiveKey r1 = Some (fst k) \<Longrightarrow> skipped r1 k = None \<Longrightarrow> \<not> hdr_n h \<le> snd k"
        using no by fastforce
      moreover have "\<not> hdr_n h \<le> snd k \<Longrightarrow> \<not> hdr_n h < snd k" by (simp add: order_less_imp_le)
      ultimately show ?thesis by (cases "skipped r1 k"; cases "receiveKey r1 = Some (fst k)") (simp_all add: keyView_def r'_def le c1)
    qed
    with v1 False show ?thesis by simp
  qed
  ultimately show ?thesis using run mk by (intro exI [of _ r']) (auto simp: fun_eq_iff)
qed

section \<open>Fetching the key of a header\<close>

text \<open>
  The ratchet's part of \<^verbatim>\<open>Session.Decrypt\<close> when the record authenticates: work on a clone, adopt it
  only on success, and forget a skipped key once it was used.
\<close>

definition commitKey :: "skippedKey \<Rightarrow> ratchet \<Rightarrow> ratchet" where
  "commitKey from r = (if fst from \<noteq> [] then forget from r else r)"

definition fetchKey :: "crypto \<Rightarrow> header \<Rightarrow> (ratchet \<times> bytes, e2eeErr, bytes) prog" where
  "fetchKey C h = (\<lambda>(r, tape).
     case receive C h (cloneRatchet r, tape) of
       (Inl e, (_, tape')) \<Rightarrow> (Inl e, (r, tape'))
     | (Inr (mk, from), (r', tape')) \<Rightarrow> (Inr mk, (commitKey from r', tape')))"

lemma forget_window:
  assumes "inWindow pub c0 W r" "skipped r k \<noteq> None" "fst k = pub"
  shows "inWindow pub c0 W (forget k r)" "keyView C (forget k r) = (keyView C r)(k := None)"
proof -
  have "length (remove1 k (order r)) \<le> length (order r)" by (simp add: length_remove1)
  then show "inWindow pub c0 W (forget k r)"
    using assms forget_ok [of r k] by (auto simp: inWindow_def forget_def chainFresh_def)
  have "snd k < receiveCount r"
    using assms by (cases k) (auto simp: inWindow_def chainFresh_def)
  then show "keyView C (forget k r) = (keyView C r)(k := None)"
    using assms by (auto simp: fun_eq_iff keyView_def forget_def split: option.splits)
qed

lemma fetchKey_hit:
  assumes w: "inWindow pub c0 W (fst s)" and p: "hdr_ratchetPub h = pub" "unat (hdr_n h) < c0 + W"
    and v: "keyView C (fst s) (pub, hdr_n h) = Some mk"
  shows "\<exists>s'. fetchKey C h s = (Inr mk, s') \<and> keyView C (fst s') = (keyView C (fst s))((pub, hdr_n h) := None)
    \<and> inWindow pub c0 W (fst s') \<and> snd s' = snd s"
proof -
  obtain r t where s: "s = (r, t)" by (cases s)
  have w: "inWindow pub c0 W r" and v: "keyView C r (pub, hdr_n h) = Some mk" using w v s by simp_all
  have pub: "length pub = 32" "receiveKey r = Some pub" using w by (simp_all add: inWindow_def)
  show ?thesis
  proof (cases "skipped r (pub, hdr_n h)")
    case None
    with v have ge: "receiveCount r \<le> hdr_n h"
      and mk: "mk = mkAt C (sliceChain (receiveChain r)) (unat (hdr_n h) - unat (receiveCount r))"
      by (auto simp: keyView_def split: if_splits)
    from receiveChainKey_window [OF w p(1) ge p(2), of C] obtain r' where
      "receiveChainKey C h r = (Inr (mk, noKey), r')" "inWindow pub c0 W r'"
      "keyView C r' = (keyView C r)((pub, hdr_n h) := None)" unfolding mk by blast
    then show ?thesis using None p pub s by (simp add: fetchKey_def receive_def commitKey_def noKey_def)
  next
    case (Some mk')
    with v have "mk' = mk" by (simp add: keyView_def)
    moreover have "pub \<noteq> []" using pub by auto
    ultimately show ?thesis
      using Some p pub s forget_window(1) [OF w, of "(pub, hdr_n h)"] forget_window(2) [OF w, of "(pub, hdr_n h)" C]
      by (simp add: fetchKey_def receive_def commitKey_def)
  qed
qed

lemma fetchKey_miss:
  assumes w: "inWindow pub c0 W (fst s)" and p: "hdr_ratchetPub h = pub"
    and v: "keyView C (fst s) (pub, hdr_n h) = None"
  shows "fetchKey C h s = (Inl ErrStaleMessage, s)"
proof -
  obtain r t where s: "s = (r, t)" by (cases s)
  have "skipped r (pub, hdr_n h) = None" "hdr_n h < receiveCount r"
    using v w s by (auto simp: keyView_def inWindow_def split: option.splits if_splits)
  then show ?thesis using w p s by (simp add: fetchKey_def receive_def inWindow_def receiveChainKey_def)
qed

interpretation chain: key_source "\<lambda>s. keyView C (fst s)" "\<lambda>h. (hdr_ratchetPub h, hdr_n h)" "fetchKey C"
  "\<lambda>s. inWindow pub c0 W (fst s)" "\<lambda>h. hdr_ratchetPub h = pub \<and> unat (hdr_n h) < c0 + W" ErrStaleMessage
  for C pub c0 W
proof (unfold_locales, goal_cases)
  case (1 s m v)
  then show ?case using fetchKey_hit [of pub c0 W s m C v] by fastforce
next
  case (2 s m)
  then show ?case using fetchKey_miss [of pub c0 W s m C] by simp
qed


section \<open>Any order, each once\<close>

lemma inWindow_start:
  assumes "ratchetOk r" "receiveKey r = Some pub" "length pub = 32" "receiveChain r \<noteq> None"
    "chainFresh pub r" "length (order r) \<le> 1000" "unat (receiveCount r) + 1000 < 2 ^ 32"
  shows "inWindow pub (unat (receiveCount r)) 1000 r"
  using assms by (simp add: inWindow_def MaxSkip_def MaxSkipStore_def)

text \<open>C9: delivery of one receiving chain in any order. Take a ratchet whose current chain is
  \<^verbatim>\<open>ck\<close> and whose store has room, and any list of distinct headers of that chain within the next
  1000 positions, in whatever order they arrive. Fetching their keys one after the other always
  succeeds; the key handed out for position \<^verbatim>\<open>n\<close> is the \<^verbatim>\<open>n\<close>-th of the chain, whatever arrived before;
  and afterwards a header seen again is refused with the ratchet left exactly as it was.\<close>

theorem any_order_delivery:
  assumes r: "ratchetOk r" "receiveKey r = Some pub" "length pub = 32" "receiveChain r = Some ck"
      "chainFresh pub r" "length (order r) \<le> 1000" "unat (receiveCount r) + 1000 < 2 ^ 32"
    and hs: "\<forall>h \<in> set hs. hdr_ratchetPub h = pub \<and> receiveCount r \<le> hdr_n h
        \<and> unat (hdr_n h) < unat (receiveCount r) + 1000"
      "distinct (map hdr_n hs)"
  shows "fst (fetchAll (fetchKey C) hs (r, tape)) =
           map (\<lambda>h. Inr (mkAt C ck (unat (hdr_n h) - unat (receiveCount r)))) hs
         \<and> (\<forall>h \<in> set hs. fetchKey C h (snd (fetchAll (fetchKey C) hs (r, tape))) =
              (Inl ErrStaleMessage, snd (fetchAll (fetchKey C) hs (r, tape))))"
proof (intro conjI ballI)
  let ?key = "\<lambda>h. (hdr_ratchetPub h, hdr_n h)"
  have w: "inWindow pub (unat (receiveCount r)) 1000 (fst (r, tape))"
    using inWindow_start [of r pub] r by simp
  have fresh: "skipped r (pub, n) = None" if "receiveCount r \<le> n" for n
    using r(5) that by (cases "skipped r (pub, n)") (auto simp: chainFresh_def)
  have v: "keyView C (fst (r, tape)) (?key h) = Some (mkAt C ck (unat (hdr_n h) - unat (receiveCount r)))"
    if "h \<in> set hs" for h
    using hs(1) that r fresh [of "hdr_n h"] by (simp add: keyView_def sliceChain_def)
  have ok: "\<forall>h \<in> set hs. (hdr_ratchetPub h = pub \<and> unat (hdr_n h) < unat (receiveCount r) + 1000)
      \<and> keyView C (fst (r, tape)) (?key h) \<noteq> None"
    using hs(1) v by simp
  have "inj_on hdr_n (set hs)" "distinct hs" using hs(2) by (simp_all add: distinct_map)
  then have d: "distinct (map ?key hs)" by (auto simp: distinct_map inj_on_def)
  have "map (\<lambda>h. Inr (the (keyView C (fst (r, tape)) (?key h)))) hs =
      map (\<lambda>h. Inr (mkAt C ck (unat (hdr_n h) - unat (receiveCount r)))) hs"
    by (rule map_cong [OF refl]) (simp add: v del: fst_conv)
  then show "fst (fetchAll (fetchKey C) hs (r, tape)) =
      map (\<lambda>h. Inr (mkAt C ck (unat (hdr_n h) - unat (receiveCount r)))) hs"
    using chain.fetch_any_order [OF w ok d] by simp
  show "fetchKey C h (snd (fetchAll (fetchKey C) hs (r, tape))) =
      (Inl ErrStaleMessage, snd (fetchAll (fetchKey C) hs (r, tape)))" if "h \<in> set hs" for h
    by (rule chain.fetch_never_twice [OF w ok d that])
qed

text \<open>Three messages of a fresh chain, the last one first.\<close>

theorem any_order_delivery_witness:
  "fst (fetchAll (fetchKey plainCrypto)
      (map (\<lambda>n. \<lparr>hdr_version = 2, hdr_ratchetPub = replicate 32 7, hdr_pn = 0, hdr_n = n\<rparr>) [2, 0, 1])
      ((newRatchetResponder [1] [2])\<lparr>receiveKey := Some (replicate 32 7), receiveChain := Some [9]\<rparr>, [])) =
   map (\<lambda>n. Inr (mkAt plainCrypto [9] n)) [2, 0, 1]"
  using any_order_delivery [of "(newRatchetResponder [1] [2])\<lparr>receiveKey := Some (replicate 32 7), receiveChain := Some [9]\<rparr>"
      "replicate 32 7" "[9]"
      "map (\<lambda>n. \<lparr>hdr_version = 2, hdr_ratchetPub = replicate 32 7, hdr_pn = 0, hdr_n = n\<rparr>) [2, 0, 1]" plainCrypto "[]"]
  by (simp add: ratchetOk_def storeOk_def newRatchetResponder_def MaxSkipStore_def chainFresh_def)

end
