(* ===== verification/Session.thy ===== *)
theory Session
  imports RatchetView
begin

text \<open>
  \<^verbatim>\<open>internal/e2ee/session.go\<close>: the record layer. A session is the ratchet, the session tag that
  every record is bound to, and the counters of the rekey policy. The random source is a tape the
  session shares with its clones, so what a failed call drew from it stays drawn; the wall clock is
  an argument, in nanoseconds.
\<close>

section \<open>State\<close>

record peerInfo =
  peer_ID :: string
  peer_PublicKey :: bytes
  peer_Nickname :: string
  peer_Version :: u16

datatype role = roleInitiator | roleResponder

definition RekeyAfterMessages :: int where "RekeyAfterMessages = 64"
definition RekeyAfterInterval :: int where "RekeyAfterInterval = 5 * 60 * 1000000000"

record session =
  s_ratchet :: ratchet
  s_closed :: bool
  s_associated :: bytes
  s_peer :: peerInfo
  s_role :: role
  s_sentSinceStep :: int
  s_lastStep :: int
  s_steps :: u64

definition newSession ::
  "crypto \<Rightarrow> int \<Rightarrow> bytes \<Rightarrow> bytes \<Rightarrow> peerInfo \<Rightarrow> role \<Rightarrow> bytes option \<Rightarrow> bytes option
     \<Rightarrow> (bytes, e2eeErr, session) prog" where
  "newSession C now prk th4 peer r peerEphemeral ownEphemeral =
     bindS (liftS (hkdfExpand C prk (toBytes labelRootKey @ th4) keySize)) (\<lambda>root.
     bindS (liftS (hkdfExpand C prk (toBytes labelAssociatedTag @ th4) keySize)) (\<lambda>associated.
     let s = (\<lambda>ra. \<lparr>s_ratchet = ra, s_closed = False, s_associated = associated, s_peer = peer,
                s_role = r, s_sentSinceStep = 0, s_lastStep = now, s_steps = 0\<rparr>)
     in case r of
          roleInitiator \<Rightarrow>
            (case peerEphemeral of
               None \<Rightarrow> failS ErrNoKey
             | Some pk \<Rightarrow> bindS (newRatchetInitiator C root pk) (\<lambda>ra. retS (s ra)))
        | roleResponder \<Rightarrow>
            (case ownEphemeral of
               None \<Rightarrow> failS ErrNoKey
             | Some sk \<Rightarrow> retS (s (newRatchetResponder root sk)))))"

definition closeSession :: "session \<Rightarrow> session" where
  "closeSession s =
     (if s_closed s then s
      else s\<lparr>s_closed := True, s_ratchet := destroyRatchet (s_ratchet s), s_associated := []\<rparr>)"

definition sessionCanSend :: "session \<Rightarrow> bool" where
  "sessionCanSend s \<longleftrightarrow> \<not> s_closed s \<and> canSend (s_ratchet s)"

definition needsRekey :: "int \<Rightarrow> session \<Rightarrow> bool" where
  "needsRekey now s \<longleftrightarrow>
     \<not> s_closed s \<and> (s_sentSinceStep s \<ge> RekeyAfterMessages \<or> now - s_lastStep s \<ge> RekeyAfterInterval)"

section \<open>Records\<close>

definition additionalData :: "session \<Rightarrow> bytes \<Rightarrow> bytes" where
  "additionalData s headerBytes = s_associated s @ headerBytes"

definition encrypt :: "crypto \<Rightarrow> bytes \<Rightarrow> (session, e2eeErr, bytes) prog" where
  "encrypt C plaintext s =
     (if s_closed s then (Inl ErrSessionClosed, s)
      else case ratchetNext C (s_ratchet s) of
        (Inl e, ra) \<Rightarrow> (Inl e, s\<lparr>s_ratchet := ra\<rparr>)
      | (Inr (h, messageKey), ra) \<Rightarrow>
          (let s1 = s\<lparr>s_ratchet := ra\<rparr>
           in case messageKeys C messageKey of
                Inl e \<Rightarrow> (Inl e, s1)
              | Inr (key, nonce) \<Rightarrow>
             (case aead key of
                Inl e \<Rightarrow> (Inl e, s1)
              | Inr box \<Rightarrow>
                 (let headerBytes = headerEncode h;
                      padded = pad plaintext
                  in (Inr (headerBytes @ c_seal C box nonce padded (additionalData s1 headerBytes)),
                      s1\<lparr>s_sentSinceStep := s_sentSinceStep s1 + 1\<rparr>)))))"

text \<open>
  \<^verbatim>\<open>Decrypt\<close>: everything up to the tag works on a clone of the ratchet; the last lines adopt it.
\<close>

definition adopt :: "int \<Rightarrow> skippedKey \<Rightarrow> ratchet \<Rightarrow> session \<Rightarrow> session" where
  "adopt now from speculative s =
     (let spec = (if fst from \<noteq> [] then forget from speculative else speculative);
          stepped = (steps spec \<noteq> steps (s_ratchet s));
          s1 = s\<lparr>s_ratchet := spec\<rparr>
      in if stepped then s1\<lparr>s_steps := steps spec, s_sentSinceStep := 0, s_lastStep := now\<rparr> else s1)"

definition decrypt :: "crypto \<Rightarrow> int \<Rightarrow> bytes \<Rightarrow> (session \<times> bytes, e2eeErr, bytes) prog" where
  "decrypt C now rec = (\<lambda>(s, tape).
     if s_closed s then (Inl ErrSessionClosed, (s, tape))
     else if length rec < headerSize + tagSize then (Inl ErrMalformed, (s, tape))
     else let headerBytes = take headerSize rec in
       case decodeHeader headerBytes of
         Inl e \<Rightarrow> (Inl e, (s, tape))
       | Inr h \<Rightarrow>
         if hdr_version h \<noteq> ucast V2 then (Inl ErrMalformed, (s, tape))
         else case receive C h (cloneRatchet (s_ratchet s), tape) of
           (Inl e, (_, tape')) \<Rightarrow> (Inl e, (s, tape'))
         | (Inr (messageKey, from), (speculative, tape')) \<Rightarrow>
           (case messageKeys C messageKey of
              Inl e \<Rightarrow> (Inl e, (s, tape'))
            | Inr (key, nonce) \<Rightarrow>
           (case aead key of
              Inl e \<Rightarrow> (Inl e, (s, tape'))
            | Inr box \<Rightarrow>
           (case c_open C box nonce (drop headerSize rec) (additionalData s headerBytes) of
              None \<Rightarrow> (Inl ErrDecrypt, (s, tape'))
            | Some padded \<Rightarrow>
           (case unpad padded of
              Inl e \<Rightarrow> (Inl ErrDecrypt, (s, tape'))
            | Inr plaintext \<Rightarrow> (Inr plaintext, (adopt now from speculative s, tape')))))))"

definition writeMessage :: "crypto \<Rightarrow> bytes \<Rightarrow> (session \<times> writer_st, e2eeErr, unit) prog" where
  "writeMessage C plaintext = (\<lambda>(s, w).
     case encrypt C plaintext s of
       (Inl e, s') \<Rightarrow> (Inl e, (s', w))
     | (Inr rec, s') \<Rightarrow> (case writeFrame rec w of (x, w') \<Rightarrow> (x, (s', w'))))"

definition readMessage :: "crypto \<Rightarrow> int \<Rightarrow> (session \<times> bytes \<times> reader_st, e2eeErr, bytes) prog" where
  "readMessage C now = (\<lambda>(s, tape, r).
     case readFrame r of
       (Inl e, r') \<Rightarrow> (Inl e, (s, tape, r'))
     | (Inr rec, r') \<Rightarrow>
         (case decrypt C now rec (s, tape) of (x, (s', tape')) \<Rightarrow> (x, (s', tape', r'))))"

section \<open>The record of a header and a message key\<close>

text \<open>What both directions agree on, with the derivation errors already excluded.\<close>

definition recordKey :: "crypto \<Rightarrow> bytes \<Rightarrow> bytes" where
  "recordKey C mk = take 32 (c_expand C (c_extract C [] mk) (toBytes labelMessageKeys) 44)"

definition recordNonce :: "crypto \<Rightarrow> bytes \<Rightarrow> bytes" where
  "recordNonce C mk = drop 32 (c_expand C (c_extract C [] mk) (toBytes labelMessageKeys) 44)"

definition sealPadded :: "crypto \<Rightarrow> bytes \<Rightarrow> header \<Rightarrow> bytes \<Rightarrow> bytes \<Rightarrow> bytes" where
  "sealPadded C ad h mk padded =
     headerEncode h @ c_seal C (recordKey C mk) (recordNonce C mk) padded (ad @ headerEncode h)"

lemma messageKeys_record: "messageKeys C mk = Inr (recordKey C mk, recordNonce C mk)"
  by (simp add: messageKeys_eq recordKey_def recordNonce_def Let_def)

lemma aead_recordKey: "hash_lengths C \<Longrightarrow> aead (recordKey C mk) = Inr (recordKey C mk)"
  by (simp add: aead_def recordKey_def keySize_def hash_lengths_simps)

lemma encrypt_Inr:
  assumes "hash_lengths C"
  shows "encrypt C p s = (Inr rec, s') \<longleftrightarrow>
     (\<exists>h mk ra. \<not> s_closed s \<and> ratchetNext C (s_ratchet s) = (Inr (h, mk), ra)
        \<and> rec = sealPadded C (s_associated s) h mk (pad p)
        \<and> s' = s\<lparr>s_ratchet := ra, s_sentSinceStep := s_sentSinceStep s + 1\<rparr>)"
  by (auto simp: encrypt_def messageKeys_record aead_recordKey [OF assms] additionalData_def
      sealPadded_def Let_def split: sum.splits prod.splits)

lemma decrypt_Inr:
  assumes "hash_lengths C"
  shows "decrypt C now rec (s, tape) = (Inr p, (s', tape')) \<longleftrightarrow>
     (\<exists>h mk from ra padded. \<not> s_closed s \<and> headerSize + tagSize \<le> length rec
        \<and> decodeHeader (take headerSize rec) = Inr h \<and> hdr_version h = ucast V2
        \<and> receive C h (s_ratchet s, tape) = (Inr (mk, from), (ra, tape'))
        \<and> c_open C (recordKey C mk) (recordNonce C mk) (drop headerSize rec)
             (s_associated s @ take headerSize rec) = Some padded
        \<and> unpad padded = Inr p \<and> s' = adopt now from ra s)"
  by (auto simp: decrypt_def messageKeys_record aead_recordKey [OF assms] additionalData_def
      Let_def split: sum.splits prod.splits option.splits if_splits)


section \<open>Failure leaves the session alone\<close>

text \<open>C7: no failing call of \<^verbatim>\<open>Decrypt\<close> changes the session: whatever bytes arrive, when the answer is
  an error then the ratchet, its stored keys and every counter are exactly what they were. (What is
  not restored is the position in the random source.)\<close>

theorem decrypt_failure_unchanged:
  assumes "decrypt C now rec (s, tape) = (Inl e, (s', tape'))"
  shows "s' = s"
  using assms
  by (auto simp: decrypt_def Let_def split: if_splits sum.splits prod.splits option.splits)

text \<open>A session in the middle of a conversation, at which the witnesses evaluate.\<close>

definition sampleSession :: session where
  "sampleSession =
     \<lparr>s_ratchet = (newRatchetResponder [1] [2])
        \<lparr>receiveKey := Some (replicate 32 7), receiveChain := Some [9], sendChain := Some [8]\<rparr>,
      s_closed = False, s_associated = [5],
      s_peer = \<lparr>peer_ID = ''cc-A'', peer_PublicKey = [3], peer_Nickname = ''a'', peer_Version = 2\<rparr>,
      s_role = roleResponder, s_sentSinceStep = 0, s_lastStep = 0, s_steps = 0\<rparr>"

definition sampleHeader :: "u32 \<Rightarrow> header" where
  "sampleHeader n = \<lparr>hdr_version = 2, hdr_ratchetPub = replicate 32 7, hdr_pn = 0, hdr_n = n\<rparr>"

theorem decrypt_failure_unchanged_witness:
  "decrypt plainCrypto 9 [1, 2, 3] (sampleSession, [4]) = (Inl ErrMalformed, (sampleSession, [4]))
   \<and> sampleSession = sampleSession"
proof -
  have d: "decrypt plainCrypto 9 [1, 2, 3] (sampleSession, [4]) = (Inl ErrMalformed, (sampleSession, [4]))"
    by (simp add: decrypt_def sampleSession_def headerSize_def)
  show ?thesis using d decrypt_failure_unchanged [OF d] by (rule conjI)
qed

section \<open>Closing\<close>

text \<open>After \<^verbatim>\<open>Close\<close> the session is inert: it holds no root key, chain, stored key or tag, closing
  again changes nothing, sending and receiving fail with \<^verbatim>\<open>ErrSessionClosed\<close> without touching the
  session or the random source, and neither \<^verbatim>\<open>CanSend\<close> nor \<^verbatim>\<open>NeedsRekey\<close> is true any more.\<close>

theorem closed_session_inert:
  "let c = closeSession s in
     closeSession c = c \<and> s_closed c \<and> \<not> sessionCanSend c \<and> \<not> needsRekey now c
     \<and> encrypt C p c = (Inl ErrSessionClosed, c)
     \<and> decrypt C now rec (c, tape) = (Inl ErrSessionClosed, (c, tape))
     \<and> (s_closed s \<or> rootKey (s_ratchet c) = [] \<and> sendChain (s_ratchet c) = None
          \<and> receiveChain (s_ratchet c) = None \<and> skipped (s_ratchet c) = (\<lambda>_. None) \<and> s_associated c = [])"
  by (simp add: closeSession_def sessionCanSend_def needsRekey_def encrypt_def decrypt_def
      destroyRatchet_def Let_def)

section \<open>What an accepted record is\<close>

lemma sealPadded_parts:
  "length (hdr_ratchetPub h) = 32 \<Longrightarrow> take headerSize (sealPadded C ad h mk p) = headerEncode h
     \<and> drop headerSize (sealPadded C ad h mk p) = c_seal C (recordKey C mk) (recordNonce C mk) p (ad @ headerEncode h)"
  using length_headerEncode [of h] by (simp add: sealPadded_def headerSize_def)

text \<open>C6: every record \<^verbatim>\<open>Decrypt\<close> accepts is, byte for byte, the record sealing produces: a header of
  the current version, followed by the encryption of the padded plaintext under the message key the
  ratchet derives for exactly that header, with the session tag and the header authenticated. A
  record is never accepted after any other change of its bytes.\<close>

theorem decrypt_accepts_only_sealed:
  assumes "hash_lengths C" "aead_law C"
    and "decrypt C now rec (s, tape) = (Inr p, (s', tape'))"
  shows "\<exists>h mk from ra k. receive C h (s_ratchet s, tape) = (Inr (mk, from), (ra, tape'))
     \<and> hdr_version h = 2 \<and> s' = adopt now from ra s \<and> \<not> s_closed s
     \<and> rec = sealPadded C (s_associated s) h mk (p @ 0x80 # replicate k 0)"
proof -
  from assms(3) [unfolded decrypt_Inr [OF assms(1)]] obtain h mk fk ra padded where
    d: "decodeHeader (take headerSize rec) = Inr h" "hdr_version h = ucast V2"
      "receive C h (s_ratchet s, tape) = (Inr (mk, fk), (ra, tape'))" "unpad padded = Inr p"
      "s' = adopt now fk ra s" "\<not> s_closed s"
      "c_open C (recordKey C mk) (recordNonce C mk) (drop headerSize rec)
         (s_associated s @ take headerSize rec) = Some padded" by blast
  have h: "take headerSize rec = headerEncode h" using encode_decode_header [OF d(1)] by simp
  have "drop headerSize rec = c_seal C (recordKey C mk) (recordNonce C mk) padded (s_associated s @ headerEncode h)"
    using d(7) h by (simp add: aead_open_iff [OF assms(2)])
  then have "rec = sealPadded C (s_associated s) h mk padded"
    using h by (metis append_take_drop_id sealPadded_def)
  moreover obtain k where "padded = p @ 0x80 # replicate k 0" using unpad_Inr [OF d(4)] by blast
  moreover have "hdr_version h = 2" using d(2) by (simp add: V2_def)
  ultimately show ?thesis using d by blast
qed

lemma decrypt_sealPadded:
  assumes "hash_lengths C" "aead_law C" "\<not> s_closed s"
    and "length (hdr_ratchetPub h) = 32" "hdr_version h = 2"
    and "receive C h (s_ratchet s, tape) = (Inr (mk, from), (ra, tape'))"
  shows "decrypt C now (sealPadded C (s_associated s) h mk (pad p)) (s, tape) = (Inr p, (adopt now from ra s, tape'))"
  unfolding decrypt_Inr [OF assms(1)]
  by (intro exI [of _ h] exI [of _ mk] exI [of _ "from"] exI [of _ ra] exI [of _ "pad p"])
    (simp add: sealPadded_parts [OF assms(4)] assms aead_open_seal decode_encode_header V2_def
      padding.dec_enc, simp add: sealPadded_def length_headerEncode assms aead_length headerSize_def tagSize_def)

lemma sample_receive:
  "receive C (sampleHeader 0) (s_ratchet sampleSession, tape) =
     (Inr (fst (kdfChainKey C [9]), noKey),
      ((s_ratchet sampleSession)\<lparr>receiveChain := Some (snd (kdfChainKey C [9])), receiveCount := 1\<rparr>, tape))"
  by (simp add: receive_def sampleHeader_def sampleSession_def newRatchetResponder_def receiveChainKey_def
      skipTo_def kdfChainKey_def sliceChain_def skipLoop.simps)

lemma sample_decrypt:
  assumes "hash_lengths C" "aead_law C"
  shows "decrypt C now (sealPadded C [5] (sampleHeader 0) (fst (kdfChainKey C [9])) (pad p)) (sampleSession, tape) =
     (Inr p, (adopt now noKey ((s_ratchet sampleSession)\<lparr>receiveChain := Some (snd (kdfChainKey C [9])), receiveCount := 1\<rparr>)
        sampleSession, tape))"
  using decrypt_sealPadded [OF assms _ _ _ sample_receive [of C tape], of now p]
  by (simp add: sampleHeader_def sampleSession_def)

theorem decrypt_accepts_only_sealed_witness:
  "\<exists>h mk from ra k. receive plainCrypto h (s_ratchet sampleSession, []) = (Inr (mk, from), (ra, []))
     \<and> sealPadded plainCrypto [5] (sampleHeader 0) (fst (kdfChainKey plainCrypto [9])) (pad [6])
         = sealPadded plainCrypto (s_associated sampleSession) h mk ([6] @ 0x80 # replicate k 0)"
  using decrypt_accepts_only_sealed [OF crypto_law_parts(1,2) [OF plainCrypto_law]
      sample_decrypt [OF crypto_law_parts(1,2) [OF plainCrypto_law], of 9 "[6]" "[]"]]
  by blast

section \<open>Replay\<close>

lemma unat_max_u32: "unat (NOT 0 :: u32) = 4294967295"
  by (simp add: unsigned_minus_1_eq_mask mask_eq_exp_minus_1)

lemma unat_Suc_u32: "w \<noteq> NOT 0 \<Longrightarrow> unat (w + 1) = Suc (unat (w :: u32))"
proof -
  assume w: "w \<noteq> NOT 0"
  have "unat w \<noteq> 4294967295"
  proof
    assume "unat w = 4294967295"
    then have "w = of_nat 4294967295" by (metis of_nat_unat ucast_id)
    with w show False by simp
  qed
  then show ?thesis using unat_bounds(3) [of w] by (simp add: unat_word_ariths)
qed

lemma trimStore_none: "m k = None \<Longrightarrow> snd (trimStore ks m) k = None"
  by (induction ks arbitrary: m) auto

lemma remember_none:
  assumes "skipped r k = None" "k \<noteq> k'"
  shows "skipped (remember k' v r) k = None"
proof -
  have "snd (trimStore ks ((skipped r)(k' := Some v))) k = None" for ks
    using assms by (intro trimStore_none) simp
  then show ?thesis by (simp add: remember_def Let_def split_beta)
qed

lemma skipOne_none: "skipped r k = None \<Longrightarrow> k \<noteq> (p, receiveCount r) \<Longrightarrow> skipped (skipOne C p r) k = None"
  by (auto simp: skipOne_def Let_def kdfChainKey_def intro: remember_none)

lemma skipLoop_none:
  assumes "skipped r k = None" "fst k \<noteq> p \<or> \<not> snd k < t"
  shows "skipped (skipLoop C p t r) k = None"
proof (rule skipLoop_preserves [where P = "\<lambda>r. skipped r k = None"])
  show "skipped (skipOne C p r) k = None" if "skipped r k = None" "receiveCount r < t" for r
    using that assms(2) by (intro skipOne_none) auto
qed (rule assms(1))

lemma skipTo_none:
  assumes "skipTo C t r = (Inr u, r')" "skipped r k = None" "receiveKey r \<noteq> Some (fst k) \<or> \<not> snd k < t"
  shows "skipped r' k = None"
  using assms by (auto simp: skipTo_def split: if_splits option.splits intro: skipLoop_none)

lemma skipTo_count:
  "skipTo C t r = (Inr u, r') \<Longrightarrow> receiveChain r \<noteq> None \<Longrightarrow> receiveCount r \<le> t \<Longrightarrow> receiveCount r' = t"
  by (auto simp: skipTo_def skipLoop_count split: if_splits option.splits)

lemma stepRatchet_skipped: "skipped (fst (snd (stepRatchet C p (r, t)))) = skipped r"
  by (auto simp: stepRatchet_def Let_def split: option.splits sum.splits prod.splits)

lemma receiveChainKey_new:
  assumes "receiveChainKey C h r = (Inr (mk, from), r')" "receiveChain r \<noteq> None"
    "skipped r (hdr_ratchetPub h, hdr_n h) = None"
  shows "from = noKey" "receiveKey r' = receiveKey r" "receiveCount r' = hdr_n h + 1"
    "skipped r' (hdr_ratchetPub h, hdr_n h) = None"
proof -
  from assms(1) obtain u r1 where s: "skipTo C (hdr_n h) r = (Inr u, r1)" and ge: "receiveCount r \<le> hdr_n h"
    and r': "r' = r1\<lparr>receiveChain := Some (snd (kdfChainKey C (sliceChain (receiveChain r1)))), receiveCount := receiveCount r1 + 1\<rparr>"
    and "from = noKey"
    by (auto simp: receiveChainKey_def kdfChainKey_def split: if_splits prod.splits sum.splits)
  then show "from = noKey" by simp
  show "receiveKey r' = receiveKey r" using skipTo_key [of C "hdr_n h" r] s by (simp add: r')
  show "receiveCount r' = hdr_n h + 1" using skipTo_count [OF s assms(2) ge] by (simp add: r')
  show "skipped r' (hdr_ratchetPub h, hdr_n h) = None" using skipTo_none [OF s assms(3)] by (simp add: r')
qed

lemma receive_new:
  assumes "receive C h (r, t) = (Inr (mk, from), (r', t'))"
    and "skipped r (hdr_ratchetPub h, hdr_n h) = None"
    and "receiveKey r = Some (hdr_ratchetPub h) \<Longrightarrow> receiveChain r \<noteq> None"
  shows "from = noKey" "receiveKey r' = Some (hdr_ratchetPub h)" "receiveCount r' = hdr_n h + 1"
    "skipped r' (hdr_ratchetPub h, hdr_n h) = None" "length (hdr_ratchetPub h) = 32"
proof -
  have len: "length (hdr_ratchetPub h) = 32" using assms(1) by (auto simp: receive_def split: if_splits)
  have "\<exists>r0. receiveChainKey C h r0 = (Inr (mk, from), r') \<and> receiveChain r0 \<noteq> None
      \<and> receiveKey r0 = Some (hdr_ratchetPub h) \<and> skipped r0 (hdr_ratchetPub h, hdr_n h) = None"
  proof (cases "receiveKey r = Some (hdr_ratchetPub h)")
    case True
    then show ?thesis using assms len by (intro exI [of _ r]) (auto simp: receive_def split: prod.splits)
  next
    case False
    with assms len obtain u r1 u' r2 t2 where
      s: "skipTo C (hdr_pn h) r = (Inr u, r1)" "stepRatchet C (hdr_ratchetPub h) (r1, t) = (Inr u', (r2, t2))"
        "receiveChainKey C h r2 = (Inr (mk, from), r')"
      by (auto simp: receive_def split: prod.splits sum.splits)
    have "skipped r1 (hdr_ratchetPub h, hdr_n h) = None"
      using skipTo_none [OF s(1) assms(2)] False by simp
    then have "skipped r2 (hdr_ratchetPub h, hdr_n h) = None"
      using stepRatchet_skipped [of C "hdr_ratchetPub h" r1 t] s(2) by simp
    then show ?thesis using s(3) stepRatchet_key [OF s(2)] by blast
  qed
  then obtain r0 where r0: "receiveChainKey C h r0 = (Inr (mk, from), r')" "receiveChain r0 \<noteq> None"
    "receiveKey r0 = Some (hdr_ratchetPub h)" "skipped r0 (hdr_ratchetPub h, hdr_n h) = None" by blast
  from receiveChainKey_new [OF r0(1,2,4)] r0(3) len
  show "from = noKey" "receiveKey r' = Some (hdr_ratchetPub h)" "receiveCount r' = hdr_n h + 1"
    "skipped r' (hdr_ratchetPub h, hdr_n h) = None" "length (hdr_ratchetPub h) = 32" by simp_all
qed

lemma adopt_noKey [simp]:
  "s_ratchet (adopt now noKey ra s) = ra" "s_closed (adopt now from ra s) = s_closed s"
  "s_associated (adopt now from ra s) = s_associated s" "s_peer (adopt now from ra s) = s_peer s"
  "s_role (adopt now from ra s) = s_role s"
  by (simp_all add: adopt_def noKey_def Let_def)

lemma adopt_ratchet: "s_ratchet (adopt now from ra s) = (if fst from \<noteq> [] then forget from ra else ra)"
  by (simp add: adopt_def Let_def)




section \<open>Sending\<close>

lemma chainAt_Suc0 [simp]: "chainAt C ck (Suc 0) = snd (kdfChainKey C ck)"
  by simp

fun encryptAll :: "crypto \<Rightarrow> bytes list \<Rightarrow> (session, e2eeErr, bytes list) prog" where
  "encryptAll C [] s = (Inr [], s)"
| "encryptAll C (p # ps) s = bindS (encrypt C p) (\<lambda>r. bindS (encryptAll C ps) (\<lambda>rs. retS (r # rs))) s"

text \<open>The records of a run of messages: consecutive numbers, consecutive keys of the chain.\<close>

fun chainRecs :: "crypto \<Rightarrow> bytes \<Rightarrow> bytes \<Rightarrow> u32 \<Rightarrow> bytes \<Rightarrow> u32 \<Rightarrow> bytes list \<Rightarrow> bytes list" where
  "chainRecs C ad pub pn ck n [] = []"
| "chainRecs C ad pub pn ck n (p # ps) =
     sealPadded C ad \<lparr>hdr_version = 2, hdr_ratchetPub = pub, hdr_pn = pn, hdr_n = n\<rparr> (fst (kdfChainKey C ck)) (pad p)
     # chainRecs C ad pub pn (snd (kdfChainKey C ck)) (n + 1) ps"

lemma encrypt_one:
  assumes "hash_lengths C" "\<not> s_closed s" "sendChain (s_ratchet s) = Some ck" "sendCount (s_ratchet s) \<noteq> NOT 0"
  shows "encrypt C p s = (Inr (hd (chainRecs C (s_associated s) (c_xpub C (sendKey (s_ratchet s)))
            (previousSent (s_ratchet s)) ck (sendCount (s_ratchet s)) [p])),
      s\<lparr>s_ratchet := (s_ratchet s)\<lparr>sendChain := Some (snd (kdfChainKey C ck)), sendCount := sendCount (s_ratchet s) + 1\<rparr>,
        s_sentSinceStep := s_sentSinceStep s + 1\<rparr>)"
  unfolding encrypt_Inr [OF assms(1)]
  using assms(2-4) by (simp add: ratchetNext_def canSend_def sliceChain_def kdfChainKey_def V2_def)

text \<open>A session that has a sending chain \<^verbatim>\<open>ck\<close> encrypts any run of messages (short of the 2^32 - 1
  numbers of a chain): the records carry the same ratchet key and consecutive numbers, the \<^verbatim>\<open>i\<close>-th one
  under the \<^verbatim>\<open>i\<close>-th key of the chain; the session advances its chain and its counters by exactly the
  number of messages, and changes nothing else. From 64 unanswered messages on it asks for a rekey.\<close>

theorem encrypt_run:
  assumes "hash_lengths C" "\<not> s_closed s" "sendChain (s_ratchet s) = Some ck"
    "unat (sendCount (s_ratchet s)) + length ps < 2 ^ 32"
  shows "\<exists>s'. encryptAll C ps s = (Inr (chainRecs C (s_associated s) (c_xpub C (sendKey (s_ratchet s)))
              (previousSent (s_ratchet s)) ck (sendCount (s_ratchet s)) ps), s')
      \<and> s' = s\<lparr>s_ratchet := (s_ratchet s)\<lparr>sendChain := Some (chainAt C ck (length ps)),
                   sendCount := sendCount (s_ratchet s) + of_nat (length ps)\<rparr>,
               s_sentSinceStep := s_sentSinceStep s + int (length ps)\<rparr>
      \<and> (s_sentSinceStep s + int (length ps) \<ge> 64 \<longrightarrow> needsRekey now s')"
proof -
  have "encryptAll C ps s = (Inr (chainRecs C (s_associated s) (c_xpub C (sendKey (s_ratchet s)))
              (previousSent (s_ratchet s)) ck (sendCount (s_ratchet s)) ps),
      s\<lparr>s_ratchet := (s_ratchet s)\<lparr>sendChain := Some (chainAt C ck (length ps)),
             sendCount := sendCount (s_ratchet s) + of_nat (length ps)\<rparr>,
         s_sentSinceStep := s_sentSinceStep s + int (length ps)\<rparr>)"
    using assms(2-4)
  proof (induction ps arbitrary: s ck)
    case Nil
    then show ?case by simp
  next
    case (Cons p ps)
    have "unat (sendCount (s_ratchet s)) < 4294967295" using Cons.prems(3) by simp
    then have c: "sendCount (s_ratchet s) \<noteq> NOT 0" using unat_max_u32 by auto
    define s1 where "s1 = s\<lparr>s_ratchet := (s_ratchet s)\<lparr>sendChain := Some (snd (kdfChainKey C ck)),
        sendCount := sendCount (s_ratchet s) + 1\<rparr>, s_sentSinceStep := s_sentSinceStep s + 1\<rparr>"
    have e: "encrypt C p s = (Inr (hd (chainRecs C (s_associated s) (c_xpub C (sendKey (s_ratchet s)))
            (previousSent (s_ratchet s)) ck (sendCount (s_ratchet s)) [p])), s1)"
      unfolding s1_def by (rule encrypt_one [OF assms(1) Cons.prems(1,2) c])
    have "unat (sendCount (s_ratchet s1)) + length ps < 2 ^ 32"
      using Cons.prems(3) unat_Suc_u32 [OF c] by (simp add: s1_def)
    from Cons.IH [OF _ _ this, of "snd (kdfChainKey C ck)"] Cons.prems(1) e
    show ?case by (simp add: run_simps) (simp add: s1_def run_simps add_ac)
  qed
  then show ?thesis using assms(2) by (simp add: needsRekey_def RekeyAfterMessages_def)
qed

theorem encrypt_run_witness:
  "\<exists>s'. encryptAll plainCrypto [[1], [2]] sampleSession =
      (Inr (chainRecs plainCrypto [5] (c_xpub plainCrypto [2]) 0 [8] 0 [[1], [2]]), s')
      \<and> sendCount (s_ratchet s') = 2"
  using encrypt_run [OF crypto_law_parts(1) [OF plainCrypto_law], of sampleSession "[8]" "[[1], [2]]"]
  by (auto simp: sampleSession_def newRatchetResponder_def)


section \<open>How long a message may be\<close>

lemma length_sealPadded:
  "aead_law C \<Longrightarrow> length (hdr_ratchetPub h) = 32 \<Longrightarrow> length (sealPadded C ad h mk p) = 57 + length p"
  by (simp add: sealPadded_def length_headerEncode aead_length)

lemma padded_limit: "57 + length (pad p) \<le> MaxFrameSize \<longleftrightarrow> length p \<le> 65279"
proof -
  have "57 + (q + 1) * 256 \<le> MaxFrameSize \<longleftrightarrow> q * 256 + r \<le> 65279" if "r < 256" for q r :: nat
  proof -
    have "57 + (q + 1) * 256 \<le> MaxFrameSize \<longleftrightarrow> q \<le> 254" by (simp add: MaxFrameSize_def) arith
    also have "\<dots> \<longleftrightarrow> q * 256 + r \<le> 65279"
    proof (cases "q \<le> 254")
      case True
      then have "q * 256 \<le> 254 * 256" by (rule mult_le_mono1)
      with that True show ?thesis by simp
    next
      case False
      then have "255 * 256 \<le> q * 256" by (intro mult_le_mono1) simp
      with False show ?thesis by simp
    qed
    finally show ?thesis .
  qed
  from this [of "length p mod 256" "length p div 256"] show ?thesis
    unfolding length_pad using block_split [of "length p"] by simp
qed

lemma writeMessage_eq:
  assumes "hash_lengths C" "aead_law C" "dh_law C" "\<not> s_closed s" "sendChain (s_ratchet s) = Some ck"
    "sendCount (s_ratchet s) \<noteq> NOT 0" "outRoom w = None"
  shows "\<exists>rec s'. encrypt C p s = (Inr rec, s') \<and> sendCount (s_ratchet s') = sendCount (s_ratchet s) + 1
     \<and> writeMessage C p (s, w) =
         (if length p \<le> 65279 then (Inr (), (s', w\<lparr>outBytes := outBytes w @ putFrame rec\<rparr>))
          else (Inl ErrFrameTooLarge, (s', w)))"
proof -
  let ?rec = "hd (chainRecs C (s_associated s) (c_xpub C (sendKey (s_ratchet s))) (previousSent (s_ratchet s)) ck
      (sendCount (s_ratchet s)) [p])"
  note e = encrypt_one [OF assms(1,4-6), of p]
  have "length (c_xpub C (sendKey (s_ratchet s))) = 32" using assms(3) by (simp add: dh_law_def)
  then have l: "length ?rec = 57 + length (pad p)" using assms(2) by (simp add: length_sealPadded)
  show ?thesis
  proof (cases "length p \<le> 65279")
    case True
    then have "length ?rec \<le> MaxFrameSize" by (simp only: l padded_limit)
    from writeFrame_ok [OF this assms(7)] show ?thesis
      using e True by (simp add: writeMessage_def)
  next
    case False
    then have "length ?rec > MaxFrameSize" using padded_limit [of p] l by linarith
    then have "writeFrame ?rec w = (Inl ErrFrameTooLarge, w)" by (simp only: writeFrame_def if_True prog_apply)
    then show ?thesis using e False by (simp add: writeMessage_def)
  qed
qed

text \<open>The length limit of \<^verbatim>\<open>WriteMessage\<close>. On a session that can send and a writer that does not
  fail, a plaintext of at most 65279 bytes is sealed and leaves as exactly one frame; a longer one is
  refused with \<^verbatim>\<open>ErrFrameTooLarge\<close> and nothing is written, but its message number is used up all the
  same.\<close>

theorem writeMessage_limit:
  assumes "hash_lengths C" "aead_law C" "dh_law C" "\<not> s_closed s" "sendChain (s_ratchet s) = Some ck"
    "sendCount (s_ratchet s) \<noteq> NOT 0" "outRoom w = None"
  shows "\<exists>rec s'. encrypt C p s = (Inr rec, s') \<and> sendCount (s_ratchet s') = sendCount (s_ratchet s) + 1
     \<and> writeMessage C p (s, w) =
         (if length p \<le> 65279 then (Inr (), (s', w\<lparr>outBytes := outBytes w @ putFrame rec\<rparr>))
          else (Inl ErrFrameTooLarge, (s', w)))"
  by (rule writeMessage_eq [OF assms])

theorem writeMessage_limit_witness:
  "\<exists>rec s'. encrypt plainCrypto (replicate 65280 1) sampleSession = (Inr rec, s')
     \<and> writeMessage plainCrypto (replicate 65280 1) (sampleSession, \<lparr>outBytes = [], outRoom = None\<rparr>) =
         (Inl ErrFrameTooLarge, (s', \<lparr>outBytes = [], outRoom = None\<rparr>))"
  using writeMessage_limit [OF crypto_law_parts(1-3) [OF plainCrypto_law], of sampleSession "[8]"
      "\<lparr>outBytes = [], outRoom = None\<rparr>" "replicate 65280 1"]
  by (auto simp: sampleSession_def newRatchetResponder_def)

section \<open>The first record an initiator accepts\<close>

definition rootStep :: "crypto \<Rightarrow> bytes \<Rightarrow> bytes \<Rightarrow> bytes \<times> bytes" where
  "rootStep C root dh =
     (let out = c_expand C (c_extract C root dh) (toBytes labelRatchetRoot) 64 in (take 32 out, drop 32 out))"

lemma kdfRootKey_step: "kdfRootKey C root dh = Inr (rootStep C root dh)"
  by (simp add: kdfRootKey_eq rootStep_def Let_def)

lemma newRatchetInitiator_Inr:
  "newRatchetInitiator C root pk tape = (Inr r, tape') \<longleftrightarrow>
     32 \<le> length tape \<and> tape' = drop 32 tape
     \<and> (\<exists>dh. c_ecdh C (take 32 tape) pk = Some dh
          \<and> r = \<lparr>rootKey = fst (rootStep C root dh), sendKey = take 32 tape, receiveKey = Some pk,
                 sendChain = Some (snd (rootStep C root dh)), receiveChain = None, sendCount = 0,
                 receiveCount = 0, previousSent = 0, skipped = (\<lambda>_. None), order = [], steps = 0\<rparr>)"
  by (auto simp: newRatchetInitiator_def bindS_eq_Inr draw_def kdfRootKey_step liftS_def retS_def
      split_beta split: if_splits)

lemma newSession_initiator_Inr:
  "newSession C now prk th4 peer roleInitiator (Some pk) own tape = (Inr s, tape') \<longleftrightarrow>
     (\<exists>ra. newRatchetInitiator C (c_expand C prk (toBytes labelRootKey @ th4) 32) pk tape = (Inr ra, tape')
        \<and> s = \<lparr>s_ratchet = ra, s_closed = False, s_associated = c_expand C prk (toBytes labelAssociatedTag @ th4) 32,
               s_peer = peer, s_role = roleInitiator, s_sentSinceStep = 0, s_lastStep = now, s_steps = 0\<rparr>)"
  by (auto simp: newSession_def bindS_eq_Inr hkdfExpand_def keySize_def liftS_def retS_def Let_def)

lemma newSession_initiator:
  assumes "newSession C now prk th4 peer roleInitiator (Some pk) own tape = (Inr s, tape')"
  shows "receiveKey (s_ratchet s) = Some pk" "receiveChain (s_ratchet s) = None" "receiveCount (s_ratchet s) = 0"
    "skipped (s_ratchet s) = (\<lambda>_. None)" "\<not> s_closed s" "s_associated s = c_expand C prk (toBytes labelAssociatedTag @ th4) 32"
    "steps (s_ratchet s) = 0"
  using assms unfolding newSession_initiator_Inr newRatchetInitiator_Inr by auto

text \<open>C14: a fresh initiator already holds the responder's ratchet key but no receiving chain, and a
  header that names that key does not start one: the message key of such a record is the HMAC of the
  empty key, which anybody can compute. So a record sealed under that constant key is accepted, with
  any number in its header; only the session tag stands in the way of a forger.\<close>

theorem fresh_initiator_accepts_constant_key:
  assumes "hash_lengths C" "aead_law C" "length pk = 32"
    and "newSession C now prk th4 peer roleInitiator (Some pk) own tape = (Inr s, tape')"
  shows "\<exists>s'. decrypt C now' (sealPadded C (c_expand C prk (toBytes labelAssociatedTag @ th4) 32)
              \<lparr>hdr_version = 2, hdr_ratchetPub = pk, hdr_pn = pn, hdr_n = n\<rparr> (c_hmac C [] [1]) (pad p)) (s, tape'')
            = (Inr p, (s', tape''))"
proof -
  note n = newSession_initiator [OF assms(4)]
  let ?h = "\<lparr>hdr_version = 2, hdr_ratchetPub = pk, hdr_pn = pn, hdr_n = n\<rparr>"
  have r: "receive C ?h (s_ratchet s, tape'') = (Inr (c_hmac C [] [1], noKey),
      ((s_ratchet s)\<lparr>receiveChain := Some (c_hmac C [] [2]), receiveCount := 1\<rparr>, tape''))"
    using n assms(3) by (simp add: receive_def receiveChainKey_def skipTo_def kdfChainKey_def hmacSHA256_def sliceChain_def)
  show ?thesis
    using decrypt_sealPadded [OF assms(1,2) n(5) _ _ r, of now' p] assms(3) n(6) by simp
qed

theorem fresh_initiator_accepts_constant_key_witness:
  "\<exists>s tape' s'. newSession plainCrypto 0 [1] [2] (s_peer sampleSession) roleInitiator (Some (replicate 32 7)) None (replicate 32 3)
        = (Inr s, tape')
     \<and> decrypt plainCrypto 1 (sealPadded plainCrypto (c_expand plainCrypto [1] (toBytes labelAssociatedTag @ [2]) 32)
         \<lparr>hdr_version = 2, hdr_ratchetPub = replicate 32 7, hdr_pn = 0, hdr_n = 41\<rparr> (c_hmac plainCrypto [] [1]) (pad [104, 105]))
         (s, []) = (Inr [104, 105], (s', []))"
proof -
  obtain s tape' where ns: "newSession plainCrypto 0 [1] [2] (s_peer sampleSession) roleInitiator (Some (replicate 32 7)) None
      (replicate 32 3) = (Inr s, tape')"
    unfolding newSession_initiator_Inr newRatchetInitiator_Inr by (simp add: plainCrypto_def)
  from fresh_initiator_accepts_constant_key [OF crypto_law_parts(1,2) [OF plainCrypto_law] _ ns, of 1 0 41 "[104, 105]" "[]"]
  show ?thesis using ns by fastforce
qed

end
