(* ===== verification/Conversation.thy ===== *)
theory Conversation
  imports Session
begin

text \<open>
  Two sessions and the two directions of a TCP stream between them. The sides send when they like
  and read when they like; what they wrote and the other has not read yet waits in order. The
  abstract specification is a pair of queues of plaintexts; the theorem is that the two ratchets
  implement it.
\<close>

section \<open>The configuration of a conversation\<close>

record conv =
  cv_a :: session
  cv_b :: session
  cv_ab :: "bytes list"      \<comment> \<open>records a wrote and b has not read\<close>
  cv_ba :: "bytes list"
  cv_sentA :: "bytes list"   \<comment> \<open>every plaintext a sent, oldest first\<close>
  cv_sentB :: "bytes list"
  cv_gotA :: "bytes list"    \<comment> \<open>every plaintext a decrypted, oldest first\<close>
  cv_gotB :: "bytes list"

text \<open>
  One step of one side. A read draws the next ratchet key from the tape it is given; the hypotheses
  of the rule say that the tape is long enough and that the key drawn is not the one the reader
  already uses.
\<close>

definition freshTape :: "crypto \<Rightarrow> session \<Rightarrow> bytes \<Rightarrow> bool" where
  "freshTape C s tape \<longleftrightarrow>
     32 \<le> length tape \<and> c_xpub C (take 32 tape) \<noteq> c_xpub C (sendKey (s_ratchet s))"

inductive conv_step :: "crypto \<Rightarrow> conv \<Rightarrow> conv \<Rightarrow> bool" for C where
  sendA: "encrypt C p (cv_a v) = (Inr rec, a') \<Longrightarrow>
     conv_step C v (v\<lparr>cv_a := a', cv_ab := cv_ab v @ [rec], cv_sentA := cv_sentA v @ [p]\<rparr>)"
| sendB: "encrypt C p (cv_b v) = (Inr rec, b') \<Longrightarrow>
     conv_step C v (v\<lparr>cv_b := b', cv_ba := cv_ba v @ [rec], cv_sentB := cv_sentB v @ [p]\<rparr>)"
| readB: "cv_ab v = rec # recs \<Longrightarrow> freshTape C (cv_b v) tape \<Longrightarrow>
     decrypt C now rec (cv_b v, tape) = (Inr p, (b', tape')) \<Longrightarrow>
     conv_step C v (v\<lparr>cv_b := b', cv_ab := recs, cv_gotB := cv_gotB v @ [p]\<rparr>)"
| readA: "cv_ba v = rec # recs \<Longrightarrow> freshTape C (cv_a v) tape \<Longrightarrow>
     decrypt C now rec (cv_a v, tape) = (Inr p, (a', tape')) \<Longrightarrow>
     conv_step C v (v\<lparr>cv_a := a', cv_ba := recs, cv_gotA := cv_gotA v @ [p]\<rparr>)"

inductive conv_reach :: "crypto \<Rightarrow> conv \<Rightarrow> conv \<Rightarrow> bool" for C v where
  conv_here: "conv_reach C v v"
| conv_more: "conv_reach C v u \<Longrightarrow> conv_step C u w \<Longrightarrow> conv_reach C v w"

inductive_cases conv_stepE: "conv_step C v w"

text \<open>Two sessions as the handshake leaves them, before the priming record has been read.\<close>

definition startPair :: "crypto \<Rightarrow> session \<Rightarrow> session \<Rightarrow> bool" where
  "startPair C a b \<longleftrightarrow>
     (\<exists>root e t t'. newRatchetInitiator C root (c_xpub C e) t = (Inr (s_ratchet a), t')
        \<and> s_ratchet b = newRatchetResponder root e)
     \<and> s_associated a = s_associated b \<and> \<not> s_closed a \<and> \<not> s_closed b"

definition startConv :: "session \<Rightarrow> session \<Rightarrow> conv" where
  "startConv a b = \<lparr>cv_a = a, cv_b = b, cv_ab = [], cv_ba = [], cv_sentA = [], cv_sentB = [],
                    cv_gotA = [], cv_gotB = []\<rparr>"

section \<open>One side ahead of the other\<close>

text \<open>
  At every moment exactly one side has turned its ratchet without the other knowing. \<^verbatim>\<open>ahead\<close> relates
  the ratchet \<^verbatim>\<open>S\<close> of that side to the other, \<^verbatim>\<open>R\<close>, and to what is in flight: towards \<^verbatim>\<open>R\<close> first the rest
  \<^verbatim>\<open>old\<close> of \<^verbatim>\<open>S\<close>'s previous chain, then the messages \<^verbatim>\<open>new\<close> of its current one; towards \<^verbatim>\<open>S\<close> the messages
  \<^verbatim>\<open>back\<close> of the one chain \<^verbatim>\<open>R\<close> sends on.
\<close>

definition quiet :: "ratchet \<Rightarrow> bool" where
  "quiet r \<longleftrightarrow> skipped r = (\<lambda>_. None) \<and> order r = []"

definition oldPart :: "crypto \<Rightarrow> bytes \<Rightarrow> u32 \<Rightarrow> ratchet \<Rightarrow> u32 \<Rightarrow> bytes list \<Rightarrow> bytes list \<Rightarrow> bool" where
  "oldPart C ad topN R pn old recs \<longleftrightarrow>
     (case receiveChain R of
        None \<Rightarrow> old = [] \<and> recs = []
      | Some ck \<Rightarrow> (\<exists>pub. receiveKey R = Some pub \<and> length pub = 32 \<and> recs = chainRecs C ad pub pn ck (receiveCount R) old
                     \<and> unat (receiveCount R) + length old = unat topN))"

definition backPart :: "crypto \<Rightarrow> bytes \<Rightarrow> ratchet \<Rightarrow> ratchet \<Rightarrow> bytes list \<Rightarrow> bytes list \<Rightarrow> bool" where
  "backPart C ad S R back recs \<longleftrightarrow>
     (case receiveChain S of
        None \<Rightarrow> sendChain R = None \<and> back = [] \<and> recs = []
      | Some ck \<Rightarrow> sendChain R = Some (chainAt C ck (length back))
          \<and> unat (receiveCount S) + length back = unat (sendCount R)
          \<and> recs = chainRecs C ad (c_xpub C (sendKey R)) (previousSent R) ck (receiveCount S) back)"

definition ahead :: "crypto \<Rightarrow> bytes \<Rightarrow> ratchet \<Rightarrow> ratchet \<Rightarrow> bytes list \<Rightarrow> bytes list
    \<Rightarrow> bytes list \<Rightarrow> bytes list \<Rightarrow> bool" where
  "ahead C ad S R toR toS recsR recsS \<longleftrightarrow>
     quiet S \<and> quiet R \<and> receiveKey S = Some (c_xpub C (sendKey R))
     \<and> receiveKey R \<noteq> Some (c_xpub C (sendKey S))
     \<and> (\<exists>dh ck old new recs pn.
          c_ecdh C (sendKey S) (c_xpub C (sendKey R)) = Some dh
          \<and> rootStep C (rootKey R) dh = (rootKey S, ck)
          \<and> sendChain S = Some (chainAt C ck (length new)) \<and> unat (sendCount S) = length new
          \<and> toR = old @ new
          \<and> recsR = recs @ chainRecs C ad (c_xpub C (sendKey S)) (previousSent S) ck 0 new
          \<and> oldPart C ad (previousSent S) R pn old recs)
     \<and> backPart C ad S R toS recsS"

definition sent :: "crypto \<Rightarrow> bytes \<Rightarrow> ratchet \<Rightarrow> ratchet" where
  "sent C ck r = r\<lparr>sendChain := Some (snd (kdfChainKey C ck)), sendCount := sendCount r + 1\<rparr>"

lemma aheadI:
  assumes "quiet S" "quiet R" "receiveKey S = Some (c_xpub C (sendKey R))"
    "receiveKey R \<noteq> Some (c_xpub C (sendKey S))"
    "c_ecdh C (sendKey S) (c_xpub C (sendKey R)) = Some dh" "rootStep C (rootKey R) dh = (rootKey S, ck)"
    "sendChain S = Some (chainAt C ck (length new))" "unat (sendCount S) = length new" "toR = old @ new"
    "recsR = recs @ chainRecs C ad (c_xpub C (sendKey S)) (previousSent S) ck 0 new"
    "oldPart C ad (previousSent S) R pn old recs" "backPart C ad S R toS recsS"
  shows "ahead C ad S R toR toS recsR recsS"
  using assms unfolding ahead_def by blast

lemma oldPart_sent [simp]: "oldPart C ad l (sent C c R) pn old recs = oldPart C ad l R pn old recs"
  by (cases "receiveChain R") (simp_all add: oldPart_def sent_def)

lemma backPart_sent [simp]: "backPart C ad (sent C c S) R back recs = backPart C ad S R back recs"
  by (cases "receiveChain S") (simp_all add: backPart_def sent_def)

lemma sent_fields [simp]:
  "quiet (sent C c r) = quiet r" "receiveKey (sent C c r) = receiveKey r" "rootKey (sent C c r) = rootKey r"
  "sendKey (sent C c r) = sendKey r" "previousSent (sent C c r) = previousSent r"
  "sendChain (sent C c r) = Some (snd (kdfChainKey C c))" "sendCount (sent C c r) = sendCount r + 1"
  by (simp_all add: sent_def quiet_def)

lemma chainRecs_snoc:
  "chainRecs C ad pub pn ck n (ps @ [p]) = chainRecs C ad pub pn ck n ps
     @ chainRecs C ad pub pn (chainAt C ck (length ps)) (n + of_nat (length ps)) [p]"
proof (induction ps arbitrary: ck n)
  case (Cons a ps)
  then show ?case by (simp add: add_ac)
qed simp

lemma chainAt_snoc' [simp]: "snd (kdfChainKey C (chainAt C ck k)) = chainAt C ck (Suc k)"
  by (rule chainAt_snoc [symmetric])

section \<open>Sending\<close>

lemma ahead_send_S:
  assumes "ahead C ad S R toR toS recsR recsS" "sendChain S = Some c" "sendCount S \<noteq> NOT 0"
  shows "ahead C ad (sent C c S) R (toR @ [p]) toS
     (recsR @ chainRecs C ad (c_xpub C (sendKey S)) (previousSent S) c (sendCount S) [p]) recsS"
proof -
  from assms(1) obtain dh ck old new recs pn where
    k: "quiet S" "quiet R" "receiveKey S = Some (c_xpub C (sendKey R))" "receiveKey R \<noteq> Some (c_xpub C (sendKey S))"
      "c_ecdh C (sendKey S) (c_xpub C (sendKey R)) = Some dh" "rootStep C (rootKey R) dh = (rootKey S, ck)"
      "sendChain S = Some (chainAt C ck (length new))" "unat (sendCount S) = length new" "toR = old @ new"
      "recsR = recs @ chainRecs C ad (c_xpub C (sendKey S)) (previousSent S) ck 0 new"
      "oldPart C ad (previousSent S) R pn old recs" "backPart C ad S R toS recsS"
    unfolding ahead_def by blast
  have c: "c = chainAt C ck (length new)" using k(7) assms(2) by simp
  have n: "sendCount S = of_nat (length new)" using k(8) by (metis of_nat_unat ucast_id)
  have "recsR @ chainRecs C ad (c_xpub C (sendKey S)) (previousSent S) c (sendCount S) [p] =
      recs @ chainRecs C ad (c_xpub C (sendKey S)) (previousSent S) ck 0 (new @ [p])"
    unfolding chainRecs_snoc by (simp add: k(10) c n)
  moreover have "unat (sendCount S + 1) = length (new @ [p])" using unat_Suc_u32 [OF assms(3)] k(8) by simp
  moreover have "snd (kdfChainKey C c) = chainAt C ck (length (new @ [p]))" by (simp add: c)
  moreover have "toR @ [p] = old @ (new @ [p])" using k(9) by simp
  ultimately show ?thesis
    by (intro aheadI [where dh = dh and ck = ck and old = old and new = "new @ [p]" and recs = recs and pn = pn])
      (use k in \<open>simp_all del: chainRecs.simps length_append \<close>)
qed

lemma ahead_send_R:
  assumes "ahead C ad S R toR toS recsR recsS" "sendChain R = Some c" "sendCount R \<noteq> NOT 0"
  shows "ahead C ad S (sent C c R) toR (toS @ [p]) recsR
     (recsS @ chainRecs C ad (c_xpub C (sendKey R)) (previousSent R) c (sendCount R) [p])"
proof -
  have b: "backPart C ad S R toS recsS" using assms(1) by (simp add: ahead_def)
  then obtain ck where ck: "receiveChain S = Some ck" using assms(2) by (cases "receiveChain S") (simp_all add: backPart_def)
  with b have k: "sendChain R = Some (chainAt C ck (length toS))"
    "unat (receiveCount S) + length toS = unat (sendCount R)"
    "recsS = chainRecs C ad (c_xpub C (sendKey R)) (previousSent R) ck (receiveCount S) toS"
    by (simp_all add: backPart_def)
  have "sendCount R = of_nat (unat (receiveCount S) + length toS)" using k(2) by (metis of_nat_unat ucast_id)
  then have n: "sendCount R = receiveCount S + of_nat (length toS)" by simp
  have c: "c = chainAt C ck (length toS)" using k(1) assms(2) by simp
  have "backPart C ad S (sent C c R) (toS @ [p])
     (recsS @ chainRecs C ad (c_xpub C (sendKey R)) (previousSent R) c (sendCount R) [p])"
    using unat_Suc_u32 [OF assms(3)] k(2)
    by (simp add: backPart_def ck sent_def chainRecs_snoc k(3) c n del: chainRecs.simps(2))
  then show ?thesis using assms(1) by (simp add: ahead_def)
qed

section \<open>Reading\<close>

definition tookNext :: "crypto \<Rightarrow> bytes \<Rightarrow> ratchet \<Rightarrow> ratchet" where
  "tookNext C ck r = r\<lparr>receiveChain := Some (snd (kdfChainKey C ck)), receiveCount := receiveCount r + 1\<rparr>"

definition turned :: "crypto \<Rightarrow> bytes \<Rightarrow> bytes \<Rightarrow> bytes \<Rightarrow> bytes \<Rightarrow> bytes \<Rightarrow> ratchet \<Rightarrow> ratchet" where
  "turned C sk pub root sc ck r =
     r\<lparr>rootKey := root, sendKey := sk, receiveKey := Some pub, sendChain := Some sc,
       receiveChain := Some (snd (kdfChainKey C ck)), sendCount := 0, receiveCount := 1,
       previousSent := sendCount r, steps := steps r + 1\<rparr>"

lemma tookNext_fields [simp]:
  "quiet (tookNext C c r) = quiet r" "receiveKey (tookNext C c r) = receiveKey r" "rootKey (tookNext C c r) = rootKey r"
  "sendKey (tookNext C c r) = sendKey r" "previousSent (tookNext C c r) = previousSent r"
  "sendChain (tookNext C c r) = sendChain r" "sendCount (tookNext C c r) = sendCount r"
  "receiveChain (tookNext C c r) = Some (snd (kdfChainKey C c))" "receiveCount (tookNext C c r) = receiveCount r + 1"
  by (simp_all add: tookNext_def quiet_def)

lemma turned_fields [simp]:
  "quiet (turned C sk pub root sc ck r) = quiet r" "receiveKey (turned C sk pub root sc ck r) = Some pub"
  "rootKey (turned C sk pub root sc ck r) = root" "sendKey (turned C sk pub root sc ck r) = sk"
  "previousSent (turned C sk pub root sc ck r) = sendCount r" "sendChain (turned C sk pub root sc ck r) = Some sc"
  "sendCount (turned C sk pub root sc ck r) = 0" "receiveCount (turned C sk pub root sc ck r) = 1"
  "receiveChain (turned C sk pub root sc ck r) = Some (snd (kdfChainKey C ck))"
  by (simp_all add: turned_def quiet_def)

lemma skipTo_here:
  assumes "receiveChain r = None \<or> receiveKey r \<noteq> None \<and> receiveCount r = t"
  shows "skipTo C t r = (Inr (), r)"
proof -
  have "skipLoop C p (receiveCount r) r = r" for p by (simp add: skipLoop.simps [of C p "receiveCount r" r])
  then show ?thesis using assms by (auto simp: skipTo_def)
qed

lemma receiveChainKey_next:
  assumes "receiveChain r = Some ck" "receiveKey r = Some pub" "hdr_n h = receiveCount r"
  shows "receiveChainKey C h r = (Inr (fst (kdfChainKey C ck), noKey), tookNext C ck r)"
  using assms skipTo_here [of r "receiveCount r" C]
  by (simp add: receiveChainKey_def kdfChainKey_def sliceChain_def tookNext_def)

lemma receive_in_order:
  assumes "quiet r" "receiveChain r = Some ck" "receiveKey r = Some pub" "length pub = 32"
    "hdr_ratchetPub h = pub" "hdr_n h = receiveCount r"
  shows "receive C h (r, t) = (Inr (fst (kdfChainKey C ck), noKey), (tookNext C ck r, t))"
  using assms receiveChainKey_next [OF assms(2,3,6), of C] by (simp add: receive_def quiet_def)

lemma receive_turn:
  assumes q: "quiet r" "receiveKey r \<noteq> Some pub" "length pub = 32" "32 \<le> length tape"
    and h: "hdr_ratchetPub h = pub" "hdr_n h = 0" "receiveChain r = None \<or> receiveKey r \<noteq> None \<and> receiveCount r = hdr_pn h"
    and k: "c_ecdh C (sendKey r) pub = Some dh" "rootStep C (rootKey r) dh = (rk, ck)"
      "c_ecdh C (take 32 tape) pub = Some dh'" "rootStep C rk dh' = (root, sc)"
  shows "receive C h (r, tape) =
     (Inr (fst (kdfChainKey C ck), noKey), (turned C (take 32 tape) pub root sc ck r, drop 32 tape))"
proof -
  have skip: "skipTo C (hdr_pn h) r = (Inr (), r)"
    using h(3) by (rule skipTo_here)
  define r2 where "r2 = r\<lparr>previousSent := sendCount r, sendCount := 0, receiveCount := 0, receiveKey := Some pub,
      rootKey := root, receiveChain := Some ck, sendChain := Some sc, sendKey := take 32 tape, steps := steps r + 1\<rparr>"
  have step: "stepRatchet C pub (r, tape) = (Inr (), (r2, drop 32 tape))"
    using k q(4) by (simp add: stepRatchet_def kdfRootKey_step draw_def r2_def Let_def)
  have "receiveChainKey C h r2 = (Inr (fst (kdfChainKey C ck), noKey), tookNext C ck r2)"
    by (rule receiveChainKey_next) (simp_all add: r2_def h)
  moreover have "tookNext C ck r2 = turned C (take 32 tape) pub root sc ck r"
    by (simp add: tookNext_def turned_def r2_def)
  ultimately show ?thesis using q h skip step by (simp add: receive_def quiet_def)
qed

lemma suc_fits: "unat (n :: u32) + Suc k = unat (m :: u32) \<Longrightarrow> unat (n + 1) = Suc (unat n)"
  using unat_bounds(3) [of m] by (simp add: unat_word_ariths)

lemma ahead_read_S:
  assumes "dh_law C" "ahead C ad S R toR (p # toS) recsR (rec # recsS)"
  shows "\<exists>h mk S'. rec = sealPadded C ad h mk (pad p) \<and> length (hdr_ratchetPub h) = 32 \<and> hdr_version h = 2
     \<and> receive C h (S, tape) = (Inr (mk, noKey), (S', tape)) \<and> ahead C ad S' R toR toS recsR recsS"
proof -
  have b: "backPart C ad S R (p # toS) (rec # recsS)" and q: "quiet S" "receiveKey S = Some (c_xpub C (sendKey R))"
    using assms(2) by (simp_all add: ahead_def)
  obtain ck where ck: "receiveChain S = Some ck" using b by (cases "receiveChain S") (simp_all add: backPart_def)
  let ?h = "\<lparr>hdr_version = 2, hdr_ratchetPub = c_xpub C (sendKey R), hdr_pn = previousSent R, hdr_n = receiveCount S\<rparr>"
  have rec: "rec = sealPadded C ad ?h (fst (kdfChainKey C ck)) (pad p)"
    and k: "unat (receiveCount S) + Suc (length toS) = unat (sendCount R)"
    "sendChain R = Some (chainAt C ck (Suc (length toS)))"
    "recsS = chainRecs C ad (c_xpub C (sendKey R)) (previousSent R) (snd (kdfChainKey C ck)) (receiveCount S + 1) toS"
    using b ck by (simp_all add: backPart_def)
  have len: "length (c_xpub C (sendKey R)) = 32" using assms(1) by (simp add: dh_law_def)
  have r: "receive C ?h (S, tape) = (Inr (fst (kdfChainKey C ck), noKey), (tookNext C ck S, tape))"
    by (rule receive_in_order [OF q(1) ck q(2) len]) simp_all
  have "backPart C ad (tookNext C ck S) R toS recsS"
    using k suc_fits [OF k(1)] by (simp add: backPart_def)
  then have "ahead C ad (tookNext C ck S) R toR toS recsR recsS"
    using assms(2) by (simp add: ahead_def)
  then show ?thesis using rec len r by (intro exI [of _ ?h]) auto
qed

lemma ahead_read_R:
  assumes law: "dh_law C" "\<And>a b. c_ecdh C a (c_xpub C b) \<noteq> None"
    and ah: "ahead C ad S R (p # toR) toS (rec # recsR) recsS"
    and tape: "32 \<le> length tape" "c_xpub C (take 32 tape) \<noteq> c_xpub C (sendKey R)"
  shows "\<exists>h mk R' tape'. rec = sealPadded C ad h mk (pad p) \<and> length (hdr_ratchetPub h) = 32 \<and> hdr_version h = 2
     \<and> receive C h (R, tape) = (Inr (mk, noKey), (R', tape'))
     \<and> (ahead C ad S R' toR toS recsR recsS \<or> ahead C ad R' S toS toR recsS recsR)"
proof -
  from ah obtain dh ck old new recs pn where
    k: "quiet S" "quiet R" "receiveKey S = Some (c_xpub C (sendKey R))" "receiveKey R \<noteq> Some (c_xpub C (sendKey S))"
      "c_ecdh C (sendKey S) (c_xpub C (sendKey R)) = Some dh" "rootStep C (rootKey R) dh = (rootKey S, ck)"
      "sendChain S = Some (chainAt C ck (length new))" "unat (sendCount S) = length new" "p # toR = old @ new"
      "rec # recsR = recs @ chainRecs C ad (c_xpub C (sendKey S)) (previousSent S) ck 0 new"
      "oldPart C ad (previousSent S) R pn old recs" "backPart C ad S R toS recsS"
    unfolding ahead_def by blast
  show ?thesis
  proof (cases old)
    case (Cons p' old')
    with k(9) have p': "p' = p" "toR = old' @ new" by simp_all
    from k(11) Cons obtain c pub where
      c: "receiveChain R = Some c" "receiveKey R = Some pub" "length pub = 32"
        "recs = chainRecs C ad pub pn c (receiveCount R) (p # old')"
        "unat (receiveCount R) + Suc (length old') = unat (previousSent S)"
      by (auto simp: oldPart_def p' split: option.splits)
    let ?h = "\<lparr>hdr_version = 2, hdr_ratchetPub = pub, hdr_pn = pn, hdr_n = receiveCount R\<rparr>"
    have rec: "rec = sealPadded C ad ?h (fst (kdfChainKey C c)) (pad p)"
      and recsR: "recsR = chainRecs C ad pub pn (snd (kdfChainKey C c)) (receiveCount R + 1) old'
         @ chainRecs C ad (c_xpub C (sendKey S)) (previousSent S) ck 0 new"
      using k(10) c(4) by simp_all
    have r: "receive C ?h (R, tape) = (Inr (fst (kdfChainKey C c), noKey), (tookNext C c R, tape))"
      by (rule receive_in_order [OF k(2) c(1,2,3)]) simp_all
    have "oldPart C ad (previousSent S) (tookNext C c R) pn old'
        (chainRecs C ad pub pn (snd (kdfChainKey C c)) (receiveCount R + 1) old')"
      using c(2,3,5) suc_fits [OF c(5)] by (simp add: oldPart_def)
    moreover have "backPart C ad S (tookNext C c R) toS recsS"
      using k(12) by (cases "receiveChain S") (simp_all add: backPart_def)
    ultimately have "ahead C ad S (tookNext C c R) toR toS recsR recsS"
      by (intro aheadI [OF _ _ _ _ _ _ k(7,8) p'(2) recsR]) (use k in simp_all)
    then show ?thesis using rec r c(3) by (intro exI [of _ ?h]) auto
  next
    case Nil
    then have recs: "recs = []" using k(11) by (auto simp: oldPart_def split: option.splits)
    have new: "new = p # toR" using k(9) Nil by simp
    define pub where "pub = c_xpub C (sendKey S)"
    let ?h = "\<lparr>hdr_version = 2, hdr_ratchetPub = pub, hdr_pn = previousSent S, hdr_n = 0\<rparr>"
    have rec: "rec = sealPadded C ad ?h (fst (kdfChainKey C ck)) (pad p)"
      and recsR: "recsR = chainRecs C ad pub (previousSent S) (snd (kdfChainKey C ck)) 1 toR"
      using k(10) recs new by (simp_all add: pub_def)
    have len: "length pub = 32" "length (c_xpub C (sendKey R)) = 32" using law(1) by (simp_all add: dh_law_def pub_def)
    have dh: "c_ecdh C (sendKey R) pub = Some dh" using k(5) law(1) by (simp add: dh_law_def pub_def)
    obtain dh' where dh': "c_ecdh C (take 32 tape) pub = Some dh'" using law(2) pub_def by blast
    obtain root sc where rs: "rootStep C (rootKey S) dh' = (root, sc)" by (cases "rootStep C (rootKey S) dh'")
    let ?R = "turned C (take 32 tape) pub root sc ck R"
    have pn: "receiveChain R = None \<or> receiveKey R \<noteq> None \<and> receiveCount R = hdr_pn ?h"
      using k(11) Nil by (auto simp: oldPart_def split: option.splits intro: unsigned_word_eqI)
    have r: "receive C ?h (R, tape) = (Inr (fst (kdfChainKey C ck), noKey), (?R, drop 32 tape))"
      by (rule receive_turn [OF k(2) _ len(1) tape(1) _ _ pn dh k(6) dh' rs]) (use k(4) pub_def in simp_all)
    have "\<exists>pn. oldPart C ad (sendCount R) S pn toS recsS"
      using k(3,12) len by (auto simp: oldPart_def backPart_def split: option.splits)
    then obtain pn2 where prev: "oldPart C ad (previousSent ?R) S pn2 toS recsS" by auto
    have bk: "backPart C ad ?R S toR recsR"
      using k(7,8) new recsR pub_def by (simp add: backPart_def)
    have "ahead C ad ?R S toS toR recsS recsR"
      by (rule aheadI [where new = "[]" and dh = dh' and ck = sc, OF _ _ _ _ _ _ _ _ _ _ prev bk])
        (use k tape rs dh' pub_def in simp_all)
    then show ?thesis using rec r len(1) by (intro exI [of _ ?h]) auto
  qed
qed

section \<open>The refinement\<close>

text \<open>The abstract state: what each side has sent that the other has not got yet, oldest first.\<close>

definition pendingTo :: "bytes list \<Rightarrow> bytes list \<Rightarrow> bytes list \<Rightarrow> bool" where
  "pendingTo ps sentList gotList \<longleftrightarrow> sentList = gotList @ ps"

definition linked :: "crypto \<Rightarrow> conv \<Rightarrow> bytes list \<Rightarrow> bytes list \<Rightarrow> bool" where
  "linked C v toB toA \<longleftrightarrow>
     s_associated (cv_a v) = s_associated (cv_b v) \<and> \<not> s_closed (cv_a v) \<and> \<not> s_closed (cv_b v)
     \<and> pendingTo toB (cv_sentA v) (cv_gotB v) \<and> pendingTo toA (cv_sentB v) (cv_gotA v)
     \<and> (ahead C (s_associated (cv_a v)) (s_ratchet (cv_a v)) (s_ratchet (cv_b v)) toB toA (cv_ab v) (cv_ba v)
        \<or> ahead C (s_associated (cv_a v)) (s_ratchet (cv_b v)) (s_ratchet (cv_a v)) toA toB (cv_ba v) (cv_ab v))"

definition honestKeys :: "crypto \<Rightarrow> bool" where
  "honestKeys C \<longleftrightarrow> (\<forall>a b. c_ecdh C a (c_xpub C b) \<noteq> None)"

text \<open>The two directions are the same up to swapping the names.\<close>

definition flip :: "conv \<Rightarrow> conv" where
  "flip v = \<lparr>cv_a = cv_b v, cv_b = cv_a v, cv_ab = cv_ba v, cv_ba = cv_ab v, cv_sentA = cv_sentB v,
             cv_sentB = cv_sentA v, cv_gotA = cv_gotB v, cv_gotB = cv_gotA v\<rparr>"

lemma linked_flip: "linked C (flip v) toA toB \<longleftrightarrow> linked C v toB toA"
  unfolding linked_def flip_def by (auto simp: pendingTo_def)

lemma linked_start:
  assumes "startPair C a b" "dh_law C"
  shows "linked C (startConv a b) [] []"
proof -
  from assms(1) obtain root e t t' where
    i: "newRatchetInitiator C root (c_xpub C e) t = (Inr (s_ratchet a), t')" "s_ratchet b = newRatchetResponder root e"
    by (auto simp: startPair_def)
  from i(1) obtain dh where dh: "c_ecdh C (take 32 t) (c_xpub C e) = Some dh"
    and ra: "s_ratchet a = \<lparr>rootKey = fst (rootStep C root dh), sendKey = take 32 t, receiveKey = Some (c_xpub C e),
        sendChain = Some (snd (rootStep C root dh)), receiveChain = None, sendCount = 0, receiveCount = 0,
        previousSent = 0, skipped = (\<lambda>_. None), order = [], steps = 0\<rparr>"
    unfolding newRatchetInitiator_Inr by blast
  have "ahead C (s_associated a) (s_ratchet a) (s_ratchet b) [] [] [] []"
    by (rule aheadI [where old = "[]" and new = "[]" and recs = "[]" and dh = dh and ck = "snd (rootStep C root dh)"])
      (simp_all add: ra i(2) dh newRatchetResponder_def quiet_def oldPart_def backPart_def)
  then show ?thesis using assms(1) by (simp add: linked_def startConv_def startPair_def pendingTo_def)
qed

lemma encrypt_sent:
  assumes "hash_lengths C" "encrypt C p s = (Inr rec, s')"
  shows "\<exists>ck. sendChain (s_ratchet s) = Some ck \<and> sendCount (s_ratchet s) \<noteq> NOT 0
     \<and> [rec] = chainRecs C (s_associated s) (c_xpub C (sendKey (s_ratchet s))) (previousSent (s_ratchet s)) ck (sendCount (s_ratchet s)) [p]
     \<and> s_ratchet s' = sent C ck (s_ratchet s) \<and> s_associated s' = s_associated s \<and> s_closed s' = s_closed s"
proof -
  obtain ck where ck: "sendChain (s_ratchet s) = Some ck" "sendCount (s_ratchet s) \<noteq> NOT 0" "\<not> s_closed s"
    using assms(2) unfolding encrypt_Inr [OF assms(1)] by (auto simp: ratchetNext_def canSend_def split: if_splits)
  show ?thesis using encrypt_one [OF assms(1) ck(3,1,2), of p] assms(2) ck by (auto simp: sent_def)
qed

lemma linked_sendA:
  assumes "hash_lengths C" "linked C v toB toA" "encrypt C p (cv_a v) = (Inr rec, a')"
  shows "linked C (v\<lparr>cv_a := a', cv_ab := cv_ab v @ [rec], cv_sentA := cv_sentA v @ [p]\<rparr>) (toB @ [p]) toA"
proof -
  from encrypt_sent [OF assms(1,3)] obtain ck where
    e: "sendChain (s_ratchet (cv_a v)) = Some ck" "sendCount (s_ratchet (cv_a v)) \<noteq> NOT 0"
      "[rec] = chainRecs C (s_associated (cv_a v)) (c_xpub C (sendKey (s_ratchet (cv_a v)))) (previousSent (s_ratchet (cv_a v)))
         ck (sendCount (s_ratchet (cv_a v))) [p]"
      "s_ratchet a' = sent C ck (s_ratchet (cv_a v))" "s_associated a' = s_associated (cv_a v)" "s_closed a' = s_closed (cv_a v)"
    by blast
  show ?thesis
    using assms(2) ahead_send_S [OF _ e(1,2)] ahead_send_R [OF _ e(1,2)]
    by (auto simp: linked_def pendingTo_def e simp del: chainRecs.simps)
qed

lemma adopt_quiet: "s_ratchet (adopt now noKey ra s) = ra"
  by simp

lemma linked_readB:
  assumes law: "hash_lengths C" "aead_law C" "dh_law C" "honestKeys C"
    and "linked C v (p # toB) toA" "cv_ab v = rec # recs" "freshTape C (cv_b v) tape"
  shows "\<exists>b' tape'. decrypt C now rec (cv_b v, tape) = (Inr p, (b', tape'))
     \<and> linked C (v\<lparr>cv_b := b', cv_ab := recs, cv_gotB := cv_gotB v @ [p]\<rparr>) toB toA"
proof -
  let ?A = "s_ratchet (cv_a v)" and ?B = "s_ratchet (cv_b v)" and ?ad = "s_associated (cv_a v)"
  have ad: "s_associated (cv_b v) = ?ad" "\<not> s_closed (cv_b v)" using assms(5) by (simp_all add: linked_def)
  have tape: "32 \<le> length tape" "c_xpub C (take 32 tape) \<noteq> c_xpub C (sendKey ?B)"
    using assms(7) by (simp_all add: freshTape_def)
  have h: "\<And>a b. c_ecdh C a (c_xpub C b) \<noteq> None" using law(4) by (simp add: honestKeys_def)
  have "\<exists>h mk B' tape'. rec = sealPadded C ?ad h mk (pad p) \<and> length (hdr_ratchetPub h) = 32 \<and> hdr_version h = 2
      \<and> receive C h (?B, tape) = (Inr (mk, noKey), (B', tape'))
      \<and> (ahead C ?ad ?A B' toB toA recs (cv_ba v) \<or> ahead C ?ad B' ?A toA toB (cv_ba v) recs)"
  proof (cases "ahead C ?ad ?A ?B (p # toB) toA (rec # recs) (cv_ba v)")
    case True
    from ahead_read_R [OF law(3) h True tape] show ?thesis by blast
  next
    case False
    then have "ahead C ?ad ?B ?A toA (p # toB) (cv_ba v) (rec # recs)"
      using assms(5) unfolding linked_def assms(6) by blast
    from ahead_read_S [OF law(3) this, of tape] show ?thesis by blast
  qed
  then obtain h mk B' tape' where
    r: "rec = sealPadded C ?ad h mk (pad p)" "length (hdr_ratchetPub h) = 32" "hdr_version h = 2"
      "receive C h (?B, tape) = (Inr (mk, noKey), (B', tape'))"
      "ahead C ?ad ?A B' toB toA recs (cv_ba v) \<or> ahead C ?ad B' ?A toA toB (cv_ba v) recs"
    by blast
  have "decrypt C now rec (cv_b v, tape) = (Inr p, (adopt now noKey B' (cv_b v), tape'))"
    using decrypt_sealPadded [OF law(1,2) ad(2) r(2,3,4), of now p] r(1) ad(1) by simp
  moreover have "linked C (v\<lparr>cv_b := adopt now noKey B' (cv_b v), cv_ab := recs, cv_gotB := cv_gotB v @ [p]\<rparr>) toB toA"
    using assms(5) r(5) by (simp add: linked_def pendingTo_def)
  ultimately show ?thesis by blast
qed

lemma length_chainRecs [simp]: "length (chainRecs C ad pub pn ck n ps) = length ps"
  by (induction ps arbitrary: ck n) simp_all

lemma ahead_lengths: "ahead C ad S R toR toS recsR recsS \<Longrightarrow> length recsR = length toR \<and> length recsS = length toS"
  by (auto simp: ahead_def oldPart_def backPart_def split: option.splits)

lemma linked_lengths: "linked C v toB toA \<Longrightarrow> length (cv_ab v) = length toB \<and> length (cv_ba v) = length toA"
  unfolding linked_def using ahead_lengths by blast

lemma linked_step:
  assumes law: "hash_lengths C" "aead_law C" "dh_law C" "honestKeys C"
    and "linked C v toB toA" "conv_step C v w"
  shows "\<exists>toB' toA'. linked C w toB' toA'"
  using assms(6)
proof cases
  case (sendA p rec a')
  then show ?thesis using linked_sendA [OF law(1) assms(5)] by blast
next
  case (sendB p rec b')
  have "linked C (flip v) toA toB" using assms(5) by (simp add: linked_flip)
  from linked_sendA [OF law(1) this, of p rec b'] sendB(2)
  have "linked C (flip w) (toA @ [p]) toB" by (simp add: flip_def sendB(1))
  then show ?thesis unfolding linked_flip by blast
next
  case (readB rec recs tape now p b' tape')
  then obtain q ps where toB: "toB = q # ps" using linked_lengths [OF assms(5)] by (cases toB) simp_all
  from linked_readB [OF law assms(5) [unfolded toB] readB(2,3), of now] readB(4)
  show ?thesis by (auto simp: readB(1))
next
  case (readA rec recs tape now p a' tape')
  then obtain q ps where toA: "toA = q # ps" using linked_lengths [OF assms(5)] by (cases toA) simp_all
  have l: "linked C (flip v) (q # ps) toB" using assms(5) toA by (simp add: linked_flip)
  from linked_readB [OF law l, of rec recs tape now] readA
  have "linked C (flip w) ps toB" by (simp add: flip_def)
  then show ?thesis unfolding linked_flip by blast
qed

lemma linked_reach:
  assumes "conv_reach C u v" "hash_lengths C" "aead_law C" "dh_law C" "honestKeys C" "linked C u toB toA"
  shows "\<exists>toB' toA'. linked C v toB' toA'"
  using assms(1,6)
proof (induction rule: conv_reach.induct)
  case conv_here
  then show ?case by blast
next
  case (conv_more u w)
  then show ?case using linked_step [OF assms(2-5)] by blast
qed

lemma linked_next:
  assumes law: "hash_lengths C" "aead_law C" "dh_law C" "honestKeys C" and l: "linked C v toB toA"
    and r: "cv_ab v = rec # recs" "freshTape C (cv_b v) tape"
  shows "\<exists>st. decrypt C now rec (cv_b v, tape) = (Inr (cv_sentA v ! length (cv_gotB v)), st)"
proof -
  obtain p ps where toB: "toB = p # ps" using linked_lengths [OF l] r(1) by (cases toB) simp_all
  have "cv_sentA v = cv_gotB v @ p # ps" using l toB by (simp add: linked_def pendingTo_def)
  then have "cv_sentA v ! length (cv_gotB v) = p" by simp
  then show ?thesis using linked_readB [OF law l [unfolded toB] r, of now] by auto
qed

section \<open>Every conversation is delivered\<close>

definition delivers :: "crypto \<Rightarrow> conv \<Rightarrow> bool" where
  "delivers C v \<longleftrightarrow>
     (\<exists>toB. cv_sentA v = cv_gotB v @ toB \<and> length (cv_ab v) = length toB)
     \<and> (\<exists>toA. cv_sentB v = cv_gotA v @ toA \<and> length (cv_ba v) = length toA)
     \<and> (\<forall>rec recs tape now. cv_ab v = rec # recs \<and> freshTape C (cv_b v) tape \<longrightarrow>
          (\<exists>st. decrypt C now rec (cv_b v, tape) = (Inr (cv_sentA v ! length (cv_gotB v)), st)))
     \<and> (\<forall>rec recs tape now. cv_ba v = rec # recs \<and> freshTape C (cv_a v) tape \<longrightarrow>
          (\<exists>st. decrypt C now rec (cv_a v, tape) = (Inr (cv_sentB v ! length (cv_gotA v)), st)))"

lemma reach_delivers:
  assumes law: "hash_lengths C" "aead_law C" "dh_law C" "honestKeys C"
    and start: "startPair C a b" and reach: "conv_reach C (startConv a b) v"
  shows "delivers C v"
proof -
  obtain toB toA where l: "linked C v toB toA"
    using linked_reach [OF reach law linked_start [OF start law(3)]] by blast
  then have f: "linked C (flip v) toA toB" by (simp add: linked_flip)
  show ?thesis
    using l linked_lengths [OF l] linked_next [OF law l] linked_next [OF law f]
    by (auto simp: delivers_def linked_def pendingTo_def flip_def)
qed

lemma conv_reach_trans: "conv_reach C v w \<Longrightarrow> conv_reach C u v \<Longrightarrow> conv_reach C u w"
  by (induction rule: conv_reach.induct) (auto intro: conv_more)

text \<open>C2: reliable delivery of a conversation. Start from two sessions as the handshake leaves them and
  let both sides send and read in any interleaving, messages crossing included. In every configuration
  that can be reached, what a side has decrypted is exactly the beginning of what the other has sent,
  in order, nothing lost, doubled or altered, and one record is in flight for each message not read
  yet; and the next record in flight always decrypts, to the next plaintext, provided the reader can
  draw a ratchet key it is not already using.\<close>

theorem conversation_delivery:
  assumes law: "hash_lengths C" "aead_law C" "dh_law C" "honestKeys C"
    and start: "startPair C a b" and reach: "conv_reach C (startConv a b) v"
  shows "(\<exists>toB. cv_sentA v = cv_gotB v @ toB \<and> length (cv_ab v) = length toB)
     \<and> (\<exists>toA. cv_sentB v = cv_gotA v @ toA \<and> length (cv_ba v) = length toA)
     \<and> (\<forall>rec recs tape now. cv_ab v = rec # recs \<and> freshTape C (cv_b v) tape \<longrightarrow>
          (\<exists>st. decrypt C now rec (cv_b v, tape) = (Inr (cv_sentA v ! length (cv_gotB v)), st)))
     \<and> (\<forall>rec recs tape now. cv_ba v = rec # recs \<and> freshTape C (cv_a v) tape \<longrightarrow>
          (\<exists>st. decrypt C now rec (cv_a v, tape) = (Inr (cv_sentB v ! length (cv_gotA v)), st)))"
  by (rule reach_delivers [OF assms, unfolded delivers_def])

lemma plain_honest: "honestKeys plainCrypto"
  by (simp add: honestKeys_def plainCrypto_def)

theorem conversation_delivery_witness:
  "\<exists>a b v rec st. startPair plainCrypto a b \<and> conv_reach plainCrypto (startConv a b) v
     \<and> cv_ab v = [rec] \<and> cv_sentA v = [[104, 105]]
     \<and> decrypt plainCrypto 7 rec (cv_b v, replicate 32 6) = (Inr [104, 105], st)"
proof -
  note law = crypto_law_parts(1-3) [OF plainCrypto_law]
  obtain ra where ra: "newRatchetInitiator plainCrypto [1] (c_xpub plainCrypto [2]) (replicate 32 3) = (Inr ra, [])"
    unfolding newRatchetInitiator_Inr by (simp add: plainCrypto_def)
  define a where "a = sampleSession\<lparr>s_ratchet := ra\<rparr>"
  define b where "b = sampleSession\<lparr>s_ratchet := newRatchetResponder [1] [2]\<rparr>"
  have st: "startPair plainCrypto a b"
    using ra by (auto simp: startPair_def a_def b_def sampleSession_def)
  have "\<exists>ck. sendChain (s_ratchet a) = Some ck" "sendCount (s_ratchet a) \<noteq> NOT 0"
    using ra unfolding newRatchetInitiator_Inr by (auto simp: a_def)
  then obtain ck where ck: "sendChain (s_ratchet a) = Some ck" "sendCount (s_ratchet a) \<noteq> NOT 0" by blast
  have "\<not> s_closed a" by (simp add: a_def sampleSession_def)
  from encrypt_one [OF law(1) this ck, of "[104, 105]"] obtain rec a' where
    e: "encrypt plainCrypto [104, 105] (cv_a (startConv a b)) = (Inr rec, a')" by (auto simp: startConv_def)
  define v where "v = (startConv a b)\<lparr>cv_a := a', cv_ab := cv_ab (startConv a b) @ [rec],
      cv_sentA := cv_sentA (startConv a b) @ [[104, 105]]\<rparr>"
  have r: "conv_reach plainCrypto (startConv a b) v"
    unfolding v_def by (rule conv_more [OF conv_here]) (rule sendA [OF e])
  have "hd (fill 32 (replicate 32 (6 :: byte))) \<noteq> hd (fill 32 [2])" by (simp add: fill_def)
  then have "fill 32 (replicate 32 (6 :: byte)) \<noteq> fill 32 [2]" by metis
  then have f: "freshTape plainCrypto (cv_b v) (replicate 32 6)"
    by (simp add: freshTape_def v_def startConv_def b_def newRatchetResponder_def plainCrypto_def)
  have w: "cv_ab v = [rec]" "cv_sentA v = [[104, 105]]" "cv_gotB v = []" by (simp_all add: v_def startConv_def)
  from conversation_delivery [OF law plain_honest st r] f w
  have "\<exists>st. decrypt plainCrypto 7 rec (cv_b v, replicate 32 6) = (Inr [104, 105], st)" by fastforce
  with st r w show ?thesis by blast
qed

end
