(* ===== verification/Identity.thy ===== *)
theory Identity
  imports Wire
begin

text \<open>
  \<^verbatim>\<open>internal/identity/identity.go\<close>: the long-term signing identity and the ID it derives. An Ed25519
  private key is Go's 64-byte slice, the seed followed by the public key. How an identity is kept on
  disk is in \<^verbatim>\<open>IdentityStore\<close>.
\<close>

record identity =
  idn_PrivateKey :: bytes
  idn_PublicKey :: bytes
  idn_ID :: string

definition PublicKeySize :: nat where "PublicKeySize = 32"
definition PrivateKeySize :: nat where "PrivateKeySize = 64"
definition SignatureSize :: nat where "SignatureSize = 64"
definition SeedSize :: nat where "SeedSize = 32"

definition deriveID :: "crypto \<Rightarrow> bytes \<Rightarrow> string" where
  "deriveID C pub = ''cc-'' @ base32Encode (take 10 (c_sha256 C pub))"

text \<open>\<^verbatim>\<open>PrivateKey.Public\<close> and \<^verbatim>\<open>PrivateKey.Seed\<close> are the two halves of the slice.\<close>

definition privPublic :: "bytes \<Rightarrow> bytes" where "privPublic k = drop 32 k"
definition privSeed :: "bytes \<Rightarrow> bytes" where "privSeed k = take 32 k"

definition newKeyFromSeed :: "crypto \<Rightarrow> bytes \<Rightarrow> bytes" where
  "newKeyFromSeed C seed = seed @ c_edpub C seed"

definition valid :: "crypto \<Rightarrow> identity option \<Rightarrow> bool" where
  "valid C i \<longleftrightarrow>
     (case i of
        None \<Rightarrow> False
      | Some d \<Rightarrow> length (idn_PrivateKey d) = PrivateKeySize \<and> length (idn_PublicKey d) = PublicKeySize
          \<and> privPublic (idn_PrivateKey d) = idn_PublicKey d \<and> idn_ID d = deriveID C (idn_PublicKey d))"

definition generate :: "crypto \<Rightarrow> bytes \<Rightarrow> identity option \<times> bytes" where
  "generate C tape =
     (if length tape < SeedSize then (None, [])
      else let private = newKeyFromSeed C (take 32 tape)
           in (Some \<lparr>idn_PrivateKey = private, idn_PublicKey = privPublic private,
                     idn_ID = deriveID C (privPublic private)\<rparr>, drop 32 tape))"

definition sign :: "crypto \<Rightarrow> identity \<Rightarrow> bytes \<Rightarrow> bytes" where
  "sign C i data = c_sign C (privSeed (idn_PrivateKey i)) data"

definition verify :: "crypto \<Rightarrow> bytes \<Rightarrow> bytes \<Rightarrow> bytes \<Rightarrow> bool" where
  "verify C pub data sig = c_verify C pub data sig"

definition ellipsis :: string where "ellipsis = ofBytes [0xE2, 0x80, 0xA6]"

definition short :: "string \<Rightarrow> string" where
  "short ident = (if length ident \<le> 14 then ident else take 14 ident @ ellipsis)"

section \<open>The shape of an ID\<close>

lemma length_deriveID: "hash_lengths C \<Longrightarrow> length (deriveID C pub) = 19"
  by (simp add: deriveID_def length_base32 hash_lengths_simps)

lemma deriveID_not_empty [simp]: "deriveID C pub \<noteq> []"
  by (simp add: deriveID_def)

lemma deriveID_chars: "c \<in> set (drop 3 (deriveID C pub)) \<Longrightarrow> c \<in> set base32Alphabet"
  using base32_chars by (simp add: deriveID_def)

section \<open>Generated identities\<close>

text \<open>An identity that \<^verbatim>\<open>Generate\<close> returns is consistent in every respect: it passes \<^verbatim>\<open>Valid\<close>, its
  public key is the one the seed derives, its ID has 19 characters, and what it signs verifies under
  its public key.\<close>

theorem generate_valid:
  assumes "hash_lengths C" "sig_law C" "generate C tape = (Some i, tape')"
  shows "valid C (Some i) \<and> c_edpub C (privSeed (idn_PrivateKey i)) = idn_PublicKey i
     \<and> length (idn_ID i) = 19 \<and> verify C (idn_PublicKey i) m (sign C i m)"
proof -
  have "32 \<le> length tape" and i: "i = \<lparr>idn_PrivateKey = newKeyFromSeed C (take 32 tape),
      idn_PublicKey = privPublic (newKeyFromSeed C (take 32 tape)),
      idn_ID = deriveID C (privPublic (newKeyFromSeed C (take 32 tape)))\<rparr>"
    using assms(3) by (auto simp: generate_def SeedSize_def Let_def split: if_splits)
  then show ?thesis
    using assms(1,2) length_deriveID [of C]
    by (simp add: valid_def newKeyFromSeed_def privPublic_def privSeed_def PrivateKeySize_def PublicKeySize_def
        sig_law_def verify_def sign_def)
qed

theorem generate_valid_witness:
  "\<exists>i. generate plainCrypto (replicate 40 1) = (Some i, replicate 8 1) \<and> valid plainCrypto (Some i)"
proof -
  obtain i where i: "generate plainCrypto (replicate 40 1) = (Some i, replicate 8 1)"
    by (simp add: generate_def SeedSize_def Let_def)
  with generate_valid [OF crypto_law_parts(1,5) [OF plainCrypto_law] i] show ?thesis by blast
qed

text \<open>\<^verbatim>\<open>Valid\<close> compares the public key with the second half of the private key, which Go's
  \<^verbatim>\<open>Public\<close> returns unchecked, and never derives it from the seed. So for every seed and every public key,
  related or not, the identity built from the two halves is \<^verbatim>\<open>Valid\<close>.\<close>

theorem valid_ignores_seed:
  assumes "length seed = 32" "length pub = 32"
  shows "valid C (Some \<lparr>idn_PrivateKey = seed @ pub, idn_PublicKey = pub, idn_ID = deriveID C pub\<rparr>)"
  using assms by (simp add: valid_def privPublic_def PrivateKeySize_def PublicKeySize_def)

theorem valid_ignores_seed_witness:
  "valid plainCrypto (Some \<lparr>idn_PrivateKey = replicate 32 1 @ replicate 32 2, idn_PublicKey = replicate 32 2,
      idn_ID = deriveID plainCrypto (replicate 32 2)\<rparr>)
   \<and> c_edpub plainCrypto (replicate 32 1) \<noteq> replicate 32 2"
proof -
  have "hd (fill 32 (replicate 32 (1 :: byte))) \<noteq> hd (replicate 32 2)" by (simp add: fill_def)
  then have "c_edpub plainCrypto (replicate 32 1) \<noteq> replicate 32 2"
    unfolding plainCrypto_def crypto.simps by metis
  then show ?thesis using valid_ignores_seed [of "replicate 32 1" "replicate 32 2" plainCrypto] by simp
qed

end
