(* ===== verification/AuthPayload.thy ===== *)
theory AuthPayload
  imports Session Identity
begin

text \<open>
  The identity proof of the handshake, from \<^verbatim>\<open>internal/e2ee/handshake.go\<close>: credentials and
  configuration, the payload inside the encrypted second and third flight, \<^verbatim>\<open>sealAuth\<close> which makes one
  and \<^verbatim>\<open>openAuth\<close> which verifies one. The trust policy is code of the caller that may change a store of
  its own, so it is a state-passing function of the configuration.
\<close>

section \<open>Configuration\<close>

record credentials =
  cr_ID :: string
  cr_PublicKey :: bytes
  cr_Sign :: "(bytes \<Rightarrow> bytes) option"
  cr_Nickname :: string

text \<open>\<^verbatim>\<open>Authorize\<close>: \<^verbatim>\<open>None\<close> accepts, \<^verbatim>\<open>Some\<close> refuses with a message.\<close>

type_synonym 't trustPolicy = "string \<Rightarrow> bytes \<Rightarrow> 't \<Rightarrow> string option \<times> 't"

record 't config =
  cfg_Credentials :: credentials
  cfg_ChannelBinding :: bytes
  cfg_Trust :: "'t trustPolicy option"
  cfg_ExpectPeerID :: string
  cfg_Versions :: "u16 list"

definition SupportedVersions :: "u16 list" where "SupportedVersions = [V2]"

definition credentialsValid :: "crypto \<Rightarrow> credentials \<Rightarrow> e2eeErr + unit" where
  "credentialsValid C c =
     (if length (cr_PublicKey c) \<noteq> PublicKeySize \<or> cr_Sign c = None then Inl ErrCredentials
      else if \<not> usableIdentityKey (cr_PublicKey c) then Inl ErrSmallOrderLocal
      else if cr_ID c \<noteq> deriveID C (cr_PublicKey c) then Inl ErrLocalIdMismatch
      else Inr ())"

definition versionsOf :: "'t config \<Rightarrow> u16 list" where
  "versionsOf c = (if length (cfg_Versions c) > 0 then cfg_Versions c else SupportedVersions)"

definition validateConfig :: "crypto \<Rightarrow> 't config \<Rightarrow> e2eeErr + unit" where
  "validateConfig C c =
     bindE (credentialsValid C (cfg_Credentials c)) (\<lambda>_.
       if cfg_ChannelBinding c = [] then Inl ErrNoChannelBinding
       else if cfg_Trust c = None then Inl ErrNoTrustPolicy
       else if versionsOf c = [] then Inl ErrNoCommonVersion
       else Inr ())"

section \<open>The payload\<close>

record authPayload =
  ap_identityPub :: bytes
  ap_id :: string
  ap_signature :: bytes
  ap_mac :: bytes
  ap_nickname :: string

definition authEncode :: "authPayload \<Rightarrow> bytes" where
  "authEncode p =
     lengthPrefix (lengthPrefix (ap_identityPub p) (toBytes (ap_id p)) @ ap_signature p @ ap_mac p)
       (toBytes (ap_nickname p))"

definition decodeAuthPayload :: "bytes \<Rightarrow> e2eeErr + authPayload" where
  "decodeAuthPayload b =
     (case takeN (int PublicKeySize) (newReader b) of (pub, r1) \<Rightarrow>
      case readLp r1 of (ident, r2) \<Rightarrow>
      case takeN (int SignatureSize) r2 of (sig, r3) \<Rightarrow>
      case takeN (int keySize) r3 of (mac, r4) \<Rightarrow>
      case readLp r4 of (nick, r5) \<Rightarrow>
        bindE (curDone r5) (\<lambda>_.
          Inr \<lparr>ap_identityPub = sliceOf pub, ap_id = ofBytes (sliceOf ident), ap_signature = sliceOf sig,
               ap_mac = sliceOf mac, ap_nickname = ofBytes (sliceOf nick)\<rparr>))"

definition MaxNicknameBytes :: nat where "MaxNicknameBytes = 256"
definition MaxIDBytes :: nat where "MaxIDBytes = 64"

definition authShape :: "authPayload \<Rightarrow> bool" where
  "authShape p \<longleftrightarrow> length (ap_identityPub p) = 32 \<and> length (ap_signature p) = 64 \<and> length (ap_mac p) = 32
     \<and> length (ap_id p) < 2 ^ 32 \<and> length (ap_nickname p) < 2 ^ 32"

lemma authEncode_eq:
  "authEncode p = ap_identityPub p @ be 4 (length (ap_id p)) @ toBytes (ap_id p) @ ap_signature p @ ap_mac p
     @ be 4 (length (ap_nickname p)) @ toBytes (ap_nickname p)"
  by (simp add: authEncode_def lengthPrefix_def)

lemma takeN_cur:
  "int (length xs) = n \<Longrightarrow> takeN n \<lparr>cur_b = xs @ ys, cur_err = None\<rparr> = (Some xs, \<lparr>cur_b = ys, cur_err = None\<rparr>)"
  by (auto simp: takeN_def)

lemma decode_encode_auth: "authShape p \<Longrightarrow> decodeAuthPayload (authEncode p) = Inr p"
  using readLp_append [of "toBytes (ap_id p)"] readLp_append [of "toBytes (ap_nickname p)" "[]"]
  by (simp add: decodeAuthPayload_def authEncode_eq newReader_def authShape_def takeN_cur PublicKeySize_def
      SignatureSize_def keySize_def sliceOf_def curDone_def)

lemma takeN_obtain:
  assumes "takeN n r = (x, r')" "cur_err r' = None"
  obtains y where "x = Some y" "cur_err r = None" "cur_b r = y @ cur_b r'" "int (length y) = n"
  using assms takeN_Some [of n r _ r'] takeN_None [of n r r'] by (cases x) auto

lemma encode_decode_auth:
  assumes "decodeAuthPayload b = Inr p"
  shows "authEncode p = b \<and> authShape p"
proof -
  obtain pub r1 ident r2 sig r3 mac r4 nick r5 where
    s: "takeN (int 32) (newReader b) = (pub, r1)" "readLp r1 = (ident, r2)" "takeN (int 64) r2 = (sig, r3)"
      "takeN (int 32) r3 = (mac, r4)" "readLp r4 = (nick, r5)"
    by (metis prod.exhaust)
  have d: "cur_err r5 = None" "cur_b r5 = []" and p: "p = \<lparr>ap_identityPub = sliceOf pub, ap_id = ofBytes (sliceOf ident),
      ap_signature = sliceOf sig, ap_mac = sliceOf mac, ap_nickname = ofBytes (sliceOf nick)\<rparr>"
    using assms s by (auto simp: decodeAuthPayload_def PublicKeySize_def SignatureSize_def keySize_def bindE_eq_Inr)
  from readLp_ok [OF s(5) d(1)] obtain n where
    n: "nick = Some n" "cur_err r4 = None" "cur_b r4 = be 4 (length n) @ n" "length n < 4294967296" using d(2) by auto
  from takeN_obtain [OF s(4) n(2)] obtain m where m: "mac = Some m" "cur_err r3 = None" "cur_b r3 = m @ cur_b r4" "length m = 32" by auto
  from takeN_obtain [OF s(3) m(2)] obtain g where g: "sig = Some g" "cur_err r2 = None" "cur_b r2 = g @ cur_b r3" "length g = 64" by auto
  from readLp_ok [OF s(2) g(2)] obtain i where
    i: "ident = Some i" "cur_err r1 = None" "cur_b r1 = be 4 (length i) @ i @ cur_b r2" "length i < 4294967296" by auto
  from takeN_obtain [OF s(1) i(2)] obtain k where k: "pub = Some k" "b = k @ cur_b r1" "length k = 32" by (auto simp: newReader_def)
  show ?thesis
    by (simp add: authEncode_eq p n m g i k sliceOf_def authShape_def)
qed

interpretation payloads: canonical_codec authEncode decodeAuthPayload authShape
  by unfold_locales (auto simp: decode_encode_auth encode_decode_auth)

text \<open>the identity payload has exactly one encoding: decoding an encoded payload gives it back, and
  whatever decodes is the encoding of the result, with a 32-byte key, a 64-byte signature and a 32-byte
  MAC. No two byte strings decode to the same payload and no payload decodes with bytes to spare.\<close>

theorem auth_payload_canonical:
  "decodeAuthPayload b = Inr p \<longleftrightarrow> authShape p \<and> b = authEncode p"
  by (rule payloads.dec_iff)

section \<open>Making and checking a proof\<close>

definition zeroNonce :: bytes where "zeroNonce = replicate nonceSize 0"

definition sealAuth :: "crypto \<Rightarrow> 't config \<Rightarrow> bytes \<Rightarrow> bytes \<Rightarrow> bytes \<Rightarrow> string \<Rightarrow> string \<Rightarrow> e2eeErr + bytes" where
  "sealAuth C cfg key macKey transcript sigLabel macLabel =
     (let cr = cfg_Credentials cfg;
          ctx = contextBytes sigLabel transcript (cr_PublicKey cr) (cr_ID cr)
      in bindE (fromOption ErrPanic (cr_Sign cr)) (\<lambda>signer.
         let payload = \<lparr>ap_identityPub = cr_PublicKey cr, ap_id = cr_ID cr, ap_signature = signer ctx,
               ap_mac = hmacSHA256 C macKey (contextBytes macLabel transcript (cr_PublicKey cr) (cr_ID cr)),
               ap_nickname = cr_Nickname cr\<rparr>
         in if length (ap_signature payload) \<noteq> SignatureSize then Inl ErrBadSignature
            else bindE (aead key) (\<lambda>box.
                 Inr (c_seal C box zeroNonce (authEncode payload) transcript))))"

text \<open>Everything \<^verbatim>\<open>openAuth\<close> checks before the trust store is asked.\<close>

definition verifyAuth :: "crypto \<Rightarrow> string \<Rightarrow> bytes \<Rightarrow> bytes \<Rightarrow> bytes \<Rightarrow> bytes \<Rightarrow> string \<Rightarrow> string \<Rightarrow> e2eeErr + authPayload" where
  "verifyAuth C expectID ciphertext key macKey transcript sigLabel macLabel =
     bindE (aead key) (\<lambda>box.
     bindE (fromOption ErrAuthentication (c_open C box zeroNonce ciphertext transcript)) (\<lambda>plaintext.
     bindE (mapErr (\<lambda>_. ErrAuthentication) (decodeAuthPayload plaintext)) (\<lambda>payload.
     if length (ap_id payload) = 0 \<or> length (ap_id payload) > MaxIDBytes
        \<or> length (ap_nickname payload) > MaxNicknameBytes then Inl ErrAuthentication
     else let pub = ap_identityPub payload in
       if \<not> usableIdentityKey pub then Inl ErrAuthentication
       else if deriveID C pub \<noteq> ap_id payload then Inl ErrAuthentication
       else if \<not> c_verify C pub (contextBytes sigLabel transcript pub (ap_id payload)) (ap_signature payload)
         then Inl ErrAuthentication
       else if hmacSHA256 C macKey (contextBytes macLabel transcript pub (ap_id payload)) \<noteq> ap_mac payload
         then Inl ErrAuthentication
       else if expectID \<noteq> [] \<and> expectID \<noteq> ap_id payload then Inl (ErrIdentityMismatch expectID (ap_id payload))
       else Inr payload)))"

definition openAuth ::
  "crypto \<Rightarrow> 't config \<Rightarrow> bytes \<Rightarrow> bytes \<Rightarrow> bytes \<Rightarrow> bytes \<Rightarrow> string \<Rightarrow> string \<Rightarrow> ('t, e2eeErr, peerInfo) prog" where
  "openAuth C cfg ciphertext key macKey transcript sigLabel macLabel t =
     (case verifyAuth C (cfg_ExpectPeerID cfg) ciphertext key macKey transcript sigLabel macLabel of
        Inl e \<Rightarrow> (Inl e, t)
      | Inr payload \<Rightarrow>
          (case cfg_Trust cfg of
             None \<Rightarrow> (Inl ErrPanic, t)
           | Some authorize \<Rightarrow>
               (case authorize (ap_id payload) (ap_identityPub payload) t of
                  (Some _, t') \<Rightarrow> (Inl ErrUntrustedKey, t')
                | (None, t') \<Rightarrow>
                    (Inr \<lparr>peer_ID = ap_id payload, peer_PublicKey = ap_identityPub payload,
                          peer_Nickname = ap_nickname payload, peer_Version = 0\<rparr>, t'))))"

text \<open>What a verified payload proves.\<close>

definition provenBy :: "crypto \<Rightarrow> bytes \<Rightarrow> bytes \<Rightarrow> bytes \<Rightarrow> bytes \<Rightarrow> string \<Rightarrow> string \<Rightarrow> string \<Rightarrow> bytes \<Rightarrow> string \<Rightarrow> bool" where
  "provenBy C ciphertext key macKey transcript sigLabel macLabel ident pub nick \<longleftrightarrow>
     usableIdentityKey pub \<and> ident = deriveID C pub \<and> length nick \<le> MaxNicknameBytes
     \<and> (\<exists>sig. c_verify C pub (contextBytes sigLabel transcript pub ident) sig
          \<and> ciphertext = c_seal C key zeroNonce
               (authEncode \<lparr>ap_identityPub = pub, ap_id = ident, ap_signature = sig,
                  ap_mac = c_hmac C macKey (contextBytes macLabel transcript pub ident), ap_nickname = nick\<rparr>) transcript)"

lemma verifyAuth_sound:
  assumes "aead_law C" "verifyAuth C expect ct key macKey th sigLabel macLabel = Inr p"
  shows "provenBy C ct key macKey th sigLabel macLabel (ap_id p) (ap_identityPub p) (ap_nickname p)
     \<and> (expect = [] \<or> expect = ap_id p)"
proof -
  from assms(2) obtain plain where
    v: "c_open C key zeroNonce ct th = Some plain" "decodeAuthPayload plain = Inr p"
      "length (ap_nickname p) \<le> MaxNicknameBytes" "usableIdentityKey (ap_identityPub p)"
      "deriveID C (ap_identityPub p) = ap_id p" "c_verify C (ap_identityPub p) (contextBytes sigLabel th (ap_identityPub p) (ap_id p)) (ap_signature p)"
      "hmacSHA256 C macKey (contextBytes macLabel th (ap_identityPub p) (ap_id p)) = ap_mac p" "expect = [] \<or> expect = ap_id p"
    by (auto simp: verifyAuth_def bindE_eq_Inr aead_def Let_def split: if_splits)
  have "ct = c_seal C key zeroNonce (authEncode p) th"
    using v(1) payloads.dec_iff [of plain p] v(2) by (simp add: aead_open_iff [OF assms(1)])
  moreover have "p = \<lparr>ap_identityPub = ap_identityPub p, ap_id = ap_id p, ap_signature = ap_signature p,
      ap_mac = c_hmac C macKey (contextBytes macLabel th (ap_identityPub p) (ap_id p)), ap_nickname = ap_nickname p\<rparr>"
    using v(7) by (simp add: hmacSHA256_def)
  ultimately show ?thesis using v unfolding provenBy_def by metis
qed

lemma openAuth_facts:
  assumes "aead_law C"
    and "openAuth C cfg ct key macKey th sigLabel macLabel t = (Inr peer, t')"
  shows "provenBy C ct key macKey th sigLabel macLabel (peer_ID peer) (peer_PublicKey peer) (peer_Nickname peer)
     \<and> (cfg_ExpectPeerID cfg = [] \<or> cfg_ExpectPeerID cfg = peer_ID peer)
     \<and> (\<exists>authorize. cfg_Trust cfg = Some authorize \<and> authorize (peer_ID peer) (peer_PublicKey peer) t = (None, t'))"
proof -
  from assms(2) obtain p authorize where
    v: "verifyAuth C (cfg_ExpectPeerID cfg) ct key macKey th sigLabel macLabel = Inr p"
      "cfg_Trust cfg = Some authorize" "authorize (ap_id p) (ap_identityPub p) t = (None, t')"
      "peer = \<lparr>peer_ID = ap_id p, peer_PublicKey = ap_identityPub p, peer_Nickname = ap_nickname p, peer_Version = 0\<rparr>"
    by (auto simp: openAuth_def split: sum.splits option.splits prod.splits)
  show ?thesis using verifyAuth_sound [OF assms(1) v(1)] v(2-4) by simp
qed

text \<open>C12: what an accepted identity proof amounts to. When \<^verbatim>\<open>openAuth\<close> returns a peer, the ciphertext is
  the encryption, under the handshake key and bound to the transcript, of a payload whose public key is
  not degenerate, whose ID is the one that key derives, whose signature verifies under it over the labelled
  transcript, and whose MAC is the confirmation MAC; the ID is the expected one where one was demanded; and
  the trust policy was asked about exactly this ID and key and accepted it.\<close>

theorem openAuth_sound:
  assumes "aead_law C"
    and "openAuth C cfg ct key macKey th sigLabel macLabel t = (Inr peer, t')"
  shows "provenBy C ct key macKey th sigLabel macLabel (peer_ID peer) (peer_PublicKey peer) (peer_Nickname peer)
     \<and> (cfg_ExpectPeerID cfg = [] \<or> cfg_ExpectPeerID cfg = peer_ID peer)
     \<and> (\<exists>authorize. cfg_Trust cfg = Some authorize \<and> authorize (peer_ID peer) (peer_PublicKey peer) t = (None, t'))"
  by (rule openAuth_facts [OF assms])

section \<open>Honest proofs are accepted\<close>

definition honestCreds :: "crypto \<Rightarrow> credentials \<Rightarrow> bool" where
  "honestCreds C cr \<longleftrightarrow>
     (\<exists>seed. cr_PublicKey cr = c_edpub C seed \<and> cr_Sign cr = Some (c_sign C seed))
     \<and> usableIdentityKey (cr_PublicKey cr) \<and> cr_ID cr = deriveID C (cr_PublicKey cr)
     \<and> length (cr_Nickname cr) \<le> MaxNicknameBytes"

definition credPeer :: "credentials \<Rightarrow> peerInfo" where
  "credPeer cr = \<lparr>peer_ID = cr_ID cr, peer_PublicKey = cr_PublicKey cr, peer_Nickname = cr_Nickname cr, peer_Version = 0\<rparr>"

lemma honest_valid: "sig_law C \<Longrightarrow> honestCreds C cr \<Longrightarrow> credentialsValid C cr = Inr ()"
  by (auto simp: honestCreds_def credentialsValid_def sig_law_def PublicKeySize_def)

lemma sealed_verifies:
  assumes law: "crypto_law C" and cr: "honestCreds C (cfg_Credentials cfg)"
    and "length key = 32" "expect = [] \<or> expect = cr_ID (cfg_Credentials cfg)"
  shows "\<exists>ct p. sealAuth C cfg key macKey th sigLabel macLabel = Inr ct
     \<and> verifyAuth C expect ct key macKey th sigLabel macLabel = Inr p
     \<and> ap_id p = cr_ID (cfg_Credentials cfg) \<and> ap_identityPub p = cr_PublicKey (cfg_Credentials cfg)
     \<and> ap_nickname p = cr_Nickname (cfg_Credentials cfg) \<and> length ct \<le> 427"
proof -
  note laws = crypto_law_parts [OF law]
  define c where "c = cfg_Credentials cfg"
  from cr obtain seed where
    k: "cr_PublicKey c = c_edpub C seed" "cr_Sign c = Some (c_sign C seed)" "usableIdentityKey (cr_PublicKey c)"
      "cr_ID c = deriveID C (cr_PublicKey c)" "length (cr_Nickname c) \<le> 256"
    by (auto simp: honestCreds_def c_def MaxNicknameBytes_def)
  define p where "p = \<lparr>ap_identityPub = cr_PublicKey c, ap_id = cr_ID c,
      ap_signature = c_sign C seed (contextBytes sigLabel th (cr_PublicKey c) (cr_ID c)),
      ap_mac = c_hmac C macKey (contextBytes macLabel th (cr_PublicKey c) (cr_ID c)), ap_nickname = cr_Nickname c\<rparr>"
  have sig: "length (ap_signature p) = 64" and pub: "length (cr_PublicKey c) = 32"
    using laws(5) k(1) by (simp_all add: p_def sig_law_def)
  have ident: "length (cr_ID c) = 19" using k(4) length_deriveID [OF laws(1)] by simp
  have mac: "length (ap_mac p) = 32" using laws(1) by (simp add: p_def hash_lengths_simps)
  have shape: "authShape p" using sig mac pub ident k(5) by (simp add: authShape_def p_def)
  define ct where "ct = c_seal C key zeroNonce (authEncode p) th"
  have "sealAuth C cfg key macKey th sigLabel macLabel = Inr ct"
    using sig k(2) assms(3)
    by (simp add: sealAuth_def Let_def c_def [symmetric] p_def ct_def SignatureSize_def aead_def keySize_def hmacSHA256_def)
  moreover have "verifyAuth C expect ct key macKey th sigLabel macLabel = Inr p"
  proof -
    have "c_verify C (cr_PublicKey c) (contextBytes sigLabel th (cr_PublicKey c) (cr_ID c)) (ap_signature p)"
      using laws(5) k(1) by (simp add: sig_law_def p_def)
    then show ?thesis
      using assms(3,4) k(3-5) ident payloads.dec_enc [OF shape]
      by (simp add: verifyAuth_def aead_def keySize_def ct_def aead_open_seal [OF laws(2)] Let_def)
        (auto simp: p_def hmacSHA256_def MaxIDBytes_def MaxNicknameBytes_def c_def)
  qed
  moreover have "length ct \<le> 427"
    using laws(2) sig mac pub ident k(5) by (simp add: ct_def aead_length authEncode_eq) (simp add: p_def)
  ultimately show ?thesis by (intro exI [of _ ct] exI [of _ p]) (simp add: p_def c_def)
qed

text \<open>Credentials at which the witnesses evaluate.\<close>

definition sampleCreds :: credentials where
  "sampleCreds = \<lparr>cr_ID = deriveID plainCrypto (replicate 32 9), cr_PublicKey = replicate 32 9,
     cr_Sign = Some (c_sign plainCrypto (replicate 32 9)), cr_Nickname = ''ann''\<rparr>"

definition sampleConfig :: "nat config" where
  "sampleConfig = \<lparr>cfg_Credentials = sampleCreds, cfg_ChannelBinding = [7],
     cfg_Trust = Some (\<lambda>i k n. (None, Suc n)), cfg_ExpectPeerID = [], cfg_Versions = []\<rparr>"

lemma nines_usable: "usableIdentityKey (replicate 32 9)"
proof -
  have "\<forall>k \<in> set smallOrderEd25519. hd k \<noteq> 9" by code_simp
  then have "replicate 32 9 \<notin> set smallOrderEd25519" by force
  then show ?thesis by (simp add: usableIdentityKey_iff)
qed

lemma sample_honest: "honestCreds plainCrypto sampleCreds"
proof -
  have "fill 32 (replicate 32 9) = replicate 32 (9 :: byte)" by (simp add: fill_def)
  then have "replicate 32 9 = c_edpub plainCrypto (replicate 32 9)" by (simp add: plainCrypto_def)
  then show ?thesis using nines_usable by (auto simp: honestCreds_def sampleCreds_def MaxNicknameBytes_def)
qed

theorem openAuth_sound_witness:
  "\<exists>ct peer. openAuth plainCrypto sampleConfig ct (replicate 32 4) [5] [6] labelSignatureResponder labelConfirmResponder 0 = (Inr peer, Suc 0)
     \<and> peer_ID peer = cr_ID sampleCreds
     \<and> provenBy plainCrypto ct (replicate 32 4) [5] [6] labelSignatureResponder labelConfirmResponder
         (peer_ID peer) (peer_PublicKey peer) (peer_Nickname peer)"
proof -
  have cr: "honestCreds plainCrypto (cfg_Credentials sampleConfig)" using sample_honest by (simp add: sampleConfig_def)
  from sealed_verifies [OF plainCrypto_law cr, of "replicate 32 4" "[]" "[5]" "[6]" labelSignatureResponder labelConfirmResponder]
  obtain ct p where p: "verifyAuth plainCrypto [] ct (replicate 32 4) [5] [6] labelSignatureResponder labelConfirmResponder = Inr p"
    "ap_id p = cr_ID sampleCreds" by (auto simp: sampleConfig_def)
  then obtain peer where o: "openAuth plainCrypto sampleConfig ct (replicate 32 4) [5] [6] labelSignatureResponder
      labelConfirmResponder 0 = (Inr peer, Suc 0)" "peer_ID peer = cr_ID sampleCreds"
    by (simp add: openAuth_def sampleConfig_def)
  from openAuth_sound [OF crypto_law_parts(2) [OF plainCrypto_law] o(1)] o show ?thesis by blast
qed

text \<open>No oracle, and no trust decision for an unproven peer. As long as the proof itself does not hold,
  the trust policy is not consulted and its store is untouched; and every failure of the proof is the one
  error \<^verbatim>\<open>ErrAuthentication\<close>, except that a fully proven peer that is not the expected one is reported by
  name.\<close>

theorem openAuth_failure_opaque:
  assumes "length key = 32"
    and "verifyAuth C (cfg_ExpectPeerID cfg) ct key macKey th sigLabel macLabel = Inl e"
  shows "openAuth C cfg ct key macKey th sigLabel macLabel t = (Inl e, t)
     \<and> (e = ErrAuthentication
        \<or> (\<exists>p. e = ErrIdentityMismatch (cfg_ExpectPeerID cfg) (ap_id p) \<and> cfg_ExpectPeerID cfg \<noteq> ap_id p
             \<and> verifyAuth C [] ct key macKey th sigLabel macLabel = Inr p))"
proof -
  have "openAuth C cfg ct key macKey th sigLabel macLabel t = (Inl e, t)" using assms(2) by (simp add: openAuth_def)
  moreover have "e = ErrAuthentication
      \<or> (\<exists>p. e = ErrIdentityMismatch (cfg_ExpectPeerID cfg) (ap_id p) \<and> cfg_ExpectPeerID cfg \<noteq> ap_id p
           \<and> verifyAuth C [] ct key macKey th sigLabel macLabel = Inr p)"
    using assms
    by (auto simp: verifyAuth_def aead_def keySize_def Let_def bindE_def fromOption_def mapErr_def
        split: sum.splits option.splits if_splits)
  ultimately show ?thesis by blast
qed

theorem openAuth_failure_opaque_witness:
  "openAuth plainCrypto sampleConfig [1] (replicate 32 4) [5] [6] labelSignatureResponder labelConfirmResponder 3
     = (Inl ErrAuthentication, 3)"
proof -
  note law = crypto_law_parts(2) [OF plainCrypto_law]
  have none: "c_open plainCrypto k n [1] a = None" for k n a
  proof (cases "c_open plainCrypto k n [1] a")
    case (Some p)
    then have "[1] = c_seal plainCrypto k n p a" by (simp add: aead_open_iff [OF law])
    then have "length [1 :: byte] = length p + 16" by (metis aead_length [OF law])
    then show ?thesis by simp
  qed
  have "verifyAuth plainCrypto (cfg_ExpectPeerID sampleConfig) [1] (replicate 32 4) [5] [6]
      labelSignatureResponder labelConfirmResponder = Inl ErrAuthentication"
    by (simp add: verifyAuth_def aead_def keySize_def none)
  from openAuth_failure_opaque [OF _ this, of 3] show ?thesis by simp
qed

end
