(* ===== verification/Handshake.thy ===== *)
theory Handshake
  imports Conversation AuthPayload
begin

text \<open>
  \<^verbatim>\<open>internal/e2ee/handshake.go\<close>: the two sides of the CMDC2 handshake, from the first byte written to
  the session returned. Each side runs over the stream it reads, the stream it writes, its two random
  sources (the configured reader and the system source \<^verbatim>\<open>crypto/mlkem\<close> draws from), the state of its
  trust policy and the clock. The stream read is arbitrary: whatever a peer or an attacker sends.
\<close>

section \<open>The world of one side\<close>

record 't io =
  io_in :: reader_st
  io_out :: writer_st
  io_rand :: bytes
  io_sys :: bytes
  io_trust :: 't
  io_now :: int

definition drawRand :: "nat \<Rightarrow> ('t io, e2eeErr, bytes) prog" where
  "drawRand k w = (case draw k (io_rand w) of (x, t) \<Rightarrow> (x, w\<lparr>io_rand := t\<rparr>))"

definition drawSys :: "nat \<Rightarrow> ('t io, e2eeErr, bytes) prog" where
  "drawSys k w = (case draw k (io_sys w) of (x, t) \<Rightarrow> (x, w\<lparr>io_sys := t\<rparr>))"

definition sendFrame :: "bytes \<Rightarrow> ('t io, e2eeErr, unit) prog" where
  "sendFrame p w = (case writeFrame p (io_out w) of (x, o') \<Rightarrow> (x, w\<lparr>io_out := o'\<rparr>))"

definition recvFrame :: "('t io, e2eeErr, bytes) prog" where
  "recvFrame w = (case readFrame (io_in w) of (x, i') \<Rightarrow> (x, w\<lparr>io_in := i'\<rparr>))"

definition onTrust :: "('t, e2eeErr, 'a) prog \<Rightarrow> ('t io, e2eeErr, 'a) prog" where
  "onTrust m w = (case m (io_trust w) of (x, t) \<Rightarrow> (x, w\<lparr>io_trust := t\<rparr>))"

definition onRand :: "(bytes, e2eeErr, 'a) prog \<Rightarrow> ('t io, e2eeErr, 'a) prog" where
  "onRand m w = (case m (io_rand w) of (x, t) \<Rightarrow> (x, w\<lparr>io_rand := t\<rparr>))"

text \<open>\<^verbatim>\<open>session.WriteMessage(rw, p)\<close> and \<^verbatim>\<open>session.ReadMessage(rw)\<close> on the handshake's own connection.\<close>

definition sendPrimer :: "crypto \<Rightarrow> session \<Rightarrow> ('t io, e2eeErr, session) prog" where
  "sendPrimer C s w =
     (case writeMessage C [] (s, io_out w) of
        (Inl e, (s', o')) \<Rightarrow> (Inl e, w\<lparr>io_out := o'\<rparr>)
      | (Inr _, (s', o')) \<Rightarrow> (Inr s', w\<lparr>io_out := o'\<rparr>))"

definition recvPrimer :: "crypto \<Rightarrow> session \<Rightarrow> ('t io, e2eeErr, session) prog" where
  "recvPrimer C s w =
     (case readMessage C (io_now w) (s, io_rand w, io_in w) of
        (Inl e, (s', t, i')) \<Rightarrow> (Inl e, w\<lparr>io_rand := t, io_in := i'\<rparr>)
      | (Inr p, (s', t, i')) \<Rightarrow>
          (if length p \<noteq> 0 then Inl ErrMalformed else Inr s', w\<lparr>io_rand := t, io_in := i'\<rparr>))"

section \<open>Key schedule\<close>

definition mlkemEncapsulationKeySize :: nat where "mlkemEncapsulationKeySize = 1184"
definition mlkemCiphertextSize :: nat where "mlkemCiphertextSize = 1088"

definition hybridSecret :: "bytes \<Rightarrow> bytes \<Rightarrow> bytes" where
  "hybridSecret quantum classical = quantum @ classical"

record handshakeKeys =
  hk_prk :: bytes
  hk_respKey :: bytes
  hk_initKey :: bytes
  hk_respMAC :: bytes
  hk_initMAC :: bytes

definition deriveHandshakeKeys :: "crypto \<Rightarrow> bytes \<Rightarrow> bytes \<Rightarrow> e2eeErr + handshakeKeys" where
  "deriveHandshakeKeys C shared th2 =
     (let prk = hkdfExtract C th2 shared in
      bindE (hkdfExpandLabel C prk labelHandshakeKeyResponder keySize) (\<lambda>rk.
      bindE (hkdfExpandLabel C prk labelHandshakeKeyInitiator keySize) (\<lambda>ik.
      bindE (hkdfExpandLabel C prk labelHandshakeMACResponder keySize) (\<lambda>rm.
      bindE (hkdfExpandLabel C prk labelHandshakeMACInitiator keySize) (\<lambda>im.
        Inr \<lparr>hk_prk = prk, hk_respKey = rk, hk_initKey = ik, hk_respMAC = rm, hk_initMAC = im\<rparr>)))))"

section \<open>Versions\<close>

fun containsVersion :: "u16 list \<Rightarrow> u16 \<Rightarrow> bool" where
  "containsVersion [] v = False"
| "containsVersion (c # cs) v = (if c = v then True else containsVersion cs v)"

fun selectVersion :: "u16 list \<Rightarrow> u16 list \<Rightarrow> u16 option" where
  "selectVersion [] theirs = None"
| "selectVersion (v # vs) theirs = (if containsVersion theirs v then Some v else selectVersion vs theirs)"

section \<open>The flights\<close>

definition m1Bytes :: "u16 list \<Rightarrow> bytes \<Rightarrow> bytes \<Rightarrow> bytes \<Rightarrow> bytes" where
  "m1Bytes offered ephPub kemPub nonce =
     foldl appendU16 [msgInit, of_nat (length offered)] offered @ ephPub @ kemPub @ nonce"

fun readVersions :: "nat \<Rightarrow> cursor \<Rightarrow> u16 list \<times> cursor" where
  "readVersions 0 r = ([], r)"
| "readVersions (Suc k) r =
     (case readU16 r of (v, r1) \<Rightarrow> case readVersions k r1 of (vs, r2) \<Rightarrow> (v # vs, r2))"

definition parseM1 :: "bytes \<Rightarrow> e2eeErr + (u16 list \<times> bytes \<times> bytes)" where
  "parseM1 m1 =
     (case readU8 (newReader m1) of (tag, r0) \<Rightarrow>
        if tag \<noteq> msgInit then Inl ErrMalformed
        else case readU8 r0 of (n, r1) \<Rightarrow>
          let count = unat n in
          case readVersions count r1 of (offered, r2) \<Rightarrow>
          case takeN 32 r2 of (eph, r3) \<Rightarrow>
          case takeN (int mlkemEncapsulationKeySize) r3 of (ek, r4) \<Rightarrow>
          case takeN 32 r4 of (_, r5) \<Rightarrow>
            bindE (curDone r5) (\<lambda>_.
              if count = 0 then Inl ErrNoCommonVersion
              else Inr (offered, sliceOf eph, sliceOf ek)))"

definition m2HeaderLen :: nat where "m2HeaderLen = 1 + 2 + 32 + mlkemCiphertextSize + 32"

definition m2HeaderBytes :: "u16 \<Rightarrow> bytes \<Rightarrow> bytes \<Rightarrow> bytes \<Rightarrow> bytes" where
  "m2HeaderBytes chosen ephPub kemCt nonce = appendU16 [msgResp] chosen @ ephPub @ kemCt @ nonce"

definition parseM2 :: "bytes \<Rightarrow> e2eeErr + (u16 \<times> bytes \<times> bytes \<times> bytes)" where
  "parseM2 m2 =
     (if length m2 < m2HeaderLen then Inl ErrMalformed
      else case readU8 (newReader m2) of (tag, r0) \<Rightarrow>
        if tag \<noteq> msgResp then Inl ErrMalformed
        else case readU16 r0 of (chosen, r1) \<Rightarrow>
          case takeN 32 r1 of (eph, r2) \<Rightarrow>
          case takeN (int mlkemCiphertextSize) r2 of (kemCt, r3) \<Rightarrow>
          case takeN 32 r3 of (_, r4) \<Rightarrow>
          case readLp r4 of (c2, r5) \<Rightarrow>
            bindE (curDone r5) (\<lambda>_. Inr (chosen, sliceOf eph, sliceOf kemCt, sliceOf c2)))"

definition m3Bytes :: "bytes \<Rightarrow> bytes" where
  "m3Bytes c3 = msgFinish # appendU32 [] (of_nat (length c3)) @ c3"

definition parseM3 :: "bytes \<Rightarrow> e2eeErr + bytes" where
  "parseM3 m3 =
     (case readU8 (newReader m3) of (tag, r0) \<Rightarrow>
        if tag \<noteq> msgFinish then Inl ErrMalformed
        else case readLp r0 of (c3, r1) \<Rightarrow> bindE (curDone r1) (\<lambda>_. Inr (sliceOf c3)))"

text \<open>A clean end of the stream before the second flight is reported as a peer that hung up.\<close>

definition firstAnswer :: "e2eeErr \<Rightarrow> e2eeErr" where
  "firstAnswer e = (if e = ErrIO EOF \<or> e = ErrIO UnexpectedEOF then ErrPeerClosedHandshake else e)"

definition checkChosen :: "u16 list \<Rightarrow> u16 \<Rightarrow> e2eeErr + unit" where
  "checkChosen offered chosen =
     (if \<not> containsVersion offered chosen then Inl ErrDowngrade
      else if \<not> containsVersion SupportedVersions chosen then
        (if chosen = V1 then Inl ErrLegacyPeer else Inl ErrNoCommonVersion)
      else Inr ())"

definition chooseVersion :: "u16 list \<Rightarrow> u16 list \<Rightarrow> e2eeErr + u16" where
  "chooseVersion ours offered =
     (case selectVersion ours offered of
        Some v \<Rightarrow> Inr v
      | None \<Rightarrow> if containsVersion offered V1 then Inl ErrLegacyPeer else Inl ErrNoCommonVersion)"

definition th1Of :: "crypto \<Rightarrow> bytes \<Rightarrow> bytes \<Rightarrow> bytes" where
  "th1Of C binding m1 = hashTranscript C (hashTranscript C (toBytes labelTranscript) binding) m1"

text \<open>\<^verbatim>\<open>ecdh.X25519().NewPublicKey\<close>: an error unless the key has 32 bytes; then the exchange.\<close>

definition exchange :: "crypto \<Rightarrow> bytes \<Rightarrow> bytes \<Rightarrow> e2eeErr + bytes" where
  "exchange C priv pub =
     (if length pub \<noteq> 32 then Inl ErrMalformed else fromOption ErrMalformed (c_ecdh C priv pub))"

definition decapsulate :: "crypto \<Rightarrow> bytes \<Rightarrow> bytes \<Rightarrow> e2eeErr + bytes" where
  "decapsulate C seed ct = (if length ct \<noteq> mlkemCiphertextSize then Inl ErrMalformed else Inr (c_decaps C seed ct))"

definition recvAnswer :: "('t io, e2eeErr, bytes) prog" where
  "recvAnswer w = (case recvFrame w of (x, w') \<Rightarrow> (mapErr firstAnswer x, w'))"

section \<open>The initiator\<close>

definition initiate :: "crypto \<Rightarrow> 't config \<Rightarrow> ('t io, e2eeErr, session) prog" where
  "initiate C cfg =
     bindS (liftS (validateConfig C cfg)) (\<lambda>_.
     bindS (drawRand 32) (\<lambda>ephemeral.
     bindS (drawSys 64) (\<lambda>decapsulation.
     bindS (drawRand 32) (\<lambda>nonce.
     let offered = versionsOf cfg;
         m1 = m1Bytes offered (c_xpub C ephemeral) (c_kemPub C decapsulation) nonce
     in bindS (sendFrame m1) (\<lambda>_.
     let th1 = th1Of C (cfg_ChannelBinding cfg) m1
     in bindS recvAnswer (\<lambda>m2.
     bindS (liftS (parseM2 m2)) (\<lambda>(chosen, peerEphemeral, kemCiphertext, c2).
     bindS (liftS (checkChosen offered chosen)) (\<lambda>_.
     bindS (liftS (exchange C ephemeral peerEphemeral)) (\<lambda>classical.
     bindS (liftS (decapsulate C decapsulation kemCiphertext)) (\<lambda>quantum.
     let shared = hybridSecret quantum classical;
         th2 = hashTranscript C th1 (take m2HeaderLen m2)
     in bindS (liftS (deriveHandshakeKeys C shared th2)) (\<lambda>keys.
     bindS (onTrust (openAuth C cfg c2 (hk_respKey keys) (hk_respMAC keys) th2
                      labelSignatureResponder labelConfirmResponder)) (\<lambda>peer0.
     let peer = peer0\<lparr>peer_Version := chosen\<rparr>;
         th3 = hashTranscript C th2 c2
     in bindS (liftS (sealAuth C cfg (hk_initKey keys) (hk_initMAC keys) th3
                      labelSignatureInitiator labelConfirmInitiator)) (\<lambda>c3.
     bindS (sendFrame (m3Bytes c3)) (\<lambda>_.
     let th4 = hashTranscript C th3 c3
     in bindS (\<lambda>w. onRand (newSession C (io_now w) (hk_prk keys) th4 peer roleInitiator (Some peerEphemeral) None) w)
       (sendPrimer C)))))))))))))))"

section \<open>The responder\<close>

definition respond :: "crypto \<Rightarrow> 't config \<Rightarrow> ('t io, e2eeErr, session) prog" where
  "respond C cfg =
     bindS (liftS (validateConfig C cfg)) (\<lambda>_.
     bindS recvFrame (\<lambda>m1.
     bindS (liftS (parseM1 m1)) (\<lambda>(offered, peerEphemeral, peerEncapsulationKey).
     bindS (liftS (chooseVersion (versionsOf cfg) offered)) (\<lambda>chosen.
     bindS (liftS (guardE (length peerEphemeral = 32) ErrMalformed)) (\<lambda>_.
     bindS (drawRand 32) (\<lambda>ephemeral.
     bindS (liftS (exchange C ephemeral peerEphemeral)) (\<lambda>classical.
     bindS (liftS (guardE (c_kemCheck C peerEncapsulationKey) ErrMalformed)) (\<lambda>_.
     bindS (drawSys 32) (\<lambda>coins.
     let (quantum, kemCiphertext) = c_encaps C peerEncapsulationKey coins;
         shared = hybridSecret quantum classical
     in bindS (drawRand 32) (\<lambda>nonce.
     let th1 = th1Of C (cfg_ChannelBinding cfg) m1;
         m2Header = m2HeaderBytes chosen (c_xpub C ephemeral) kemCiphertext nonce;
         th2 = hashTranscript C th1 m2Header
     in bindS (liftS (deriveHandshakeKeys C shared th2)) (\<lambda>keys.
     bindS (liftS (sealAuth C cfg (hk_respKey keys) (hk_respMAC keys) th2
                    labelSignatureResponder labelConfirmResponder)) (\<lambda>c2.
     bindS (sendFrame (m2Header @ appendU32 [] (of_nat (length c2)) @ c2)) (\<lambda>_.
     let th3 = hashTranscript C th2 c2
     in bindS recvFrame (\<lambda>m3.
     bindS (liftS (parseM3 m3)) (\<lambda>c3.
     bindS (onTrust (openAuth C cfg c3 (hk_initKey keys) (hk_initMAC keys) th3
                      labelSignatureInitiator labelConfirmInitiator)) (\<lambda>peer0.
     let peer = peer0\<lparr>peer_Version := chosen\<rparr>;
         th4 = hashTranscript C th3 c3
     in bindS (\<lambda>w. onRand (newSession C (io_now w) (hk_prk keys) th4 peer roleResponder None (Some ephemeral)) w)
       (recvPrimer C)))))))))))))))))"

section \<open>The key schedule is total\<close>

definition keysOf :: "crypto \<Rightarrow> bytes \<Rightarrow> bytes \<Rightarrow> handshakeKeys" where
  "keysOf C shared th2 =
     (let prk = c_extract C th2 shared; k = (\<lambda>label. c_expand C prk (toBytes label) 32)
      in \<lparr>hk_prk = prk, hk_respKey = k labelHandshakeKeyResponder, hk_initKey = k labelHandshakeKeyInitiator,
          hk_respMAC = k labelHandshakeMACResponder, hk_initMAC = k labelHandshakeMACInitiator\<rparr>)"

lemma deriveHandshakeKeys_eq: "deriveHandshakeKeys C shared th2 = Inr (keysOf C shared th2)"
  by (simp add: deriveHandshakeKeys_def keysOf_def hkdfExpandLabel_def hkdfExpand_def hkdfExtract_def keySize_def Let_def)

lemma keysOf_lengths:
  "hash_lengths C \<Longrightarrow> length (hk_respKey (keysOf C sh th)) = 32 \<and> length (hk_initKey (keysOf C sh th)) = 32"
  by (simp add: keysOf_def Let_def hash_lengths_simps)

section \<open>Versions\<close>

lemma containsVersion_iff: "containsVersion vs v \<longleftrightarrow> v \<in> set vs"
  by (induction vs) auto

text \<open>the responder picks by its own order of preference: a version is selected exactly when it is the
  first of its own list that the peer also offered, and none is exactly when the lists are disjoint; and
  a version the initiator goes on with is one it offered itself and one this build implements.\<close>

theorem version_selection:
  "(selectVersion ours theirs = Some v \<longleftrightarrow>
      (\<exists>us vs. ours = us @ v # vs \<and> v \<in> set theirs \<and> set us \<inter> set theirs = {}))
   \<and> (selectVersion ours theirs = None \<longleftrightarrow> set ours \<inter> set theirs = {})
   \<and> (checkChosen ours v = Inr () \<longleftrightarrow> v \<in> set ours \<and> v = V2)"
proof (intro conjI)
  show "selectVersion ours theirs = Some v \<longleftrightarrow>
      (\<exists>us vs. ours = us @ v # vs \<and> v \<in> set theirs \<and> set us \<inter> set theirs = {})"
  proof (induction ours)
    case Nil
    then show ?case by simp
  next
    case (Cons a ours)
    show ?case
    proof (cases "a \<in> set theirs")
      case True
      have "us = []" if "a # ours = us @ v # vs" "set us \<inter> set theirs = {}" for us vs
        using that True by (cases us) auto
      then show ?thesis using True by (auto simp: containsVersion_iff) fastforce+
    next
      case False
      have "(\<exists>us vs. a # ours = us @ v # vs \<and> v \<in> set theirs \<and> set us \<inter> set theirs = {})
          \<longleftrightarrow> (\<exists>us vs. ours = us @ v # vs \<and> v \<in> set theirs \<and> set us \<inter> set theirs = {})" (is "?l \<longleftrightarrow> ?r")
      proof
        assume ?l
        then obtain us vs where u: "a # ours = us @ v # vs" "v \<in> set theirs" "set us \<inter> set theirs = {}" by blast
        then show ?r using False by (cases us) auto
      next
        assume ?r
        then obtain us vs where u: "ours = us @ v # vs" "v \<in> set theirs" "set us \<inter> set theirs = {}" by blast
        then have "a # ours = (a # us) @ v # vs" "set (a # us) \<inter> set theirs = {}" using False by auto
        then show ?l using u(2) by blast
      qed
      then show ?thesis using Cons False by (simp add: containsVersion_iff)
    qed
  qed
  show "selectVersion ours theirs = None \<longleftrightarrow> set ours \<inter> set theirs = {}"
    by (induction ours) (auto simp: containsVersion_iff)
  show "checkChosen ours v = Inr () \<longleftrightarrow> v \<in> set ours \<and> v = V2"
    by (auto simp: checkChosen_def containsVersion_iff SupportedVersions_def)
qed

lemma checkChosen_Inr: "checkChosen offered v = Inr u \<longleftrightarrow> v \<in> set offered \<and> v = V2"
  by (auto simp: checkChosen_def containsVersion_iff SupportedVersions_def)

lemma selectVersion_Some: "selectVersion ours theirs = Some v \<Longrightarrow> v \<in> set ours \<and> v \<in> set theirs"
  by (induction ours) (auto simp: containsVersion_iff split: if_splits)

section \<open>Parsing the flights\<close>

lemma foldl_appendU16: "foldl appendU16 a vs = a @ concat (map putU16 vs)"
  by (induction vs arbitrary: a) (simp_all add: appendU16_def)

lemma readU8_cur: "readU8 \<lparr>cur_b = x # ys, cur_err = None\<rparr> = (x, \<lparr>cur_b = ys, cur_err = None\<rparr>)"
  by (simp add: readU8_def takeN_def)

lemma readU16_cur: "readU16 \<lparr>cur_b = putU16 v @ ys, cur_err = None\<rparr> = (v, \<lparr>cur_b = ys, cur_err = None\<rparr>)"
  using takeN_cur [of "putU16 v" 2 ys] by (simp add: readU16_def)

lemma readVersions_cur:
  "readVersions (length vs) \<lparr>cur_b = concat (map putU16 vs) @ ys, cur_err = None\<rparr> = (vs, \<lparr>cur_b = ys, cur_err = None\<rparr>)"
  by (induction vs) (simp_all add: readU16_cur)

lemma parseM1_m1Bytes:
  assumes "0 < length vs" "length vs < 256" "length eph = 32" "length ek = 1184" "length nonce = 32"
  shows "parseM1 (m1Bytes vs eph ek nonce) = Inr (vs, eph, ek)"
proof -
  have n: "unat (of_nat (length vs) :: byte) = length vs" using assms(2) by (simp add: unat_of_nat)
  show ?thesis
    using assms(1,3-5) takeN_cur [of nonce 32 "[]"]
    by (simp add: parseM1_def m1Bytes_def foldl_appendU16 newReader_def readU8_cur n readVersions_cur takeN_cur
        mlkemEncapsulationKeySize_def Let_def curDone_def sliceOf_def)
qed

lemma parseM2_m2Bytes:
  assumes "length eph = 32" "length ct = 1088" "length nonce = 32" "length c2 < 4294967296"
  shows "parseM2 (m2HeaderBytes v eph ct nonce @ appendU32 [] (of_nat (length c2)) @ c2) = Inr (v, eph, ct, c2)"
  using assms takeN_cur [of nonce 32] readLp_append [of c2 "[]"]
  by (simp add: parseM2_def m2HeaderBytes_def appendU16_def appendU32_def newReader_def readU8_cur readU16_cur takeN_cur
      mlkemCiphertextSize_def m2HeaderLen_def curDone_def sliceOf_def be4_putU32)

lemma take_m2Header:
  assumes "length eph = 32" "length ct = 1088" "length nonce = 32"
  shows "take m2HeaderLen (m2HeaderBytes v eph ct nonce @ rest) = m2HeaderBytes v eph ct nonce"
  using assms by (simp add: m2HeaderBytes_def m2HeaderLen_def mlkemCiphertextSize_def appendU16_def)

lemma parseM3_m3Bytes: "length c3 < 4294967296 \<Longrightarrow> parseM3 (m3Bytes c3) = Inr c3"
  using readLp_append [of c3 "[]"]
  by (simp add: parseM3_def m3Bytes_def newReader_def readU8_cur appendU32_def be4_putU32 curDone_def sliceOf_def)

section \<open>Successful runs\<close>

lemma io_steps:
  "drawRand k w = (Inr x, w1) \<longleftrightarrow> k \<le> length (io_rand w) \<and> x = take k (io_rand w) \<and> w1 = w\<lparr>io_rand := drop k (io_rand w)\<rparr>"
  "drawSys k w = (Inr x, w1) \<longleftrightarrow> k \<le> length (io_sys w) \<and> x = take k (io_sys w) \<and> w1 = w\<lparr>io_sys := drop k (io_sys w)\<rparr>"
  "sendFrame p w = (Inr u, w1) \<longleftrightarrow> (\<exists>out. writeFrame p (io_out w) = (Inr (), out) \<and> w1 = w\<lparr>io_out := out\<rparr>)"
  "recvFrame w = (Inr b, w1) \<longleftrightarrow> (\<exists>inp. readFrame (io_in w) = (Inr b, inp) \<and> w1 = w\<lparr>io_in := inp\<rparr>)"
  "recvAnswer w = (Inr b, w1) \<longleftrightarrow> (\<exists>inp. readFrame (io_in w) = (Inr b, inp) \<and> w1 = w\<lparr>io_in := inp\<rparr>)"
  "onTrust m w = (Inr y, w1) \<longleftrightarrow> (\<exists>t. m (io_trust w) = (Inr y, t) \<and> w1 = w\<lparr>io_trust := t\<rparr>)"
  "onRand r w = (Inr z, w1) \<longleftrightarrow> (\<exists>t. r (io_rand w) = (Inr z, t) \<and> w1 = w\<lparr>io_rand := t\<rparr>)"
  "liftS e w = (Inr v, w1) \<longleftrightarrow> e = Inr v \<and> w1 = w"
  by (auto simp: drawRand_def drawSys_def sendFrame_def recvFrame_def onTrust_def onRand_def draw_def liftS_def
      recvAnswer_def split: prod.splits if_splits)

text \<open>The values both sides compute, as functions of what was sent.\<close>

record flight =
  fl_binding :: bytes
  fl_m1 :: bytes
  fl_header2 :: bytes
  fl_c2 :: bytes
  fl_c3 :: bytes
  fl_shared :: bytes

definition fl_th2 :: "crypto \<Rightarrow> flight \<Rightarrow> bytes" where
  "fl_th2 C f = hashTranscript C (th1Of C (fl_binding f) (fl_m1 f)) (fl_header2 f)"

definition fl_th3 :: "crypto \<Rightarrow> flight \<Rightarrow> bytes" where
  "fl_th3 C f = hashTranscript C (fl_th2 C f) (fl_c2 f)"

definition fl_keys :: "crypto \<Rightarrow> flight \<Rightarrow> handshakeKeys" where
  "fl_keys C f = keysOf C (fl_shared f) (fl_th2 C f)"

definition fl_th4 :: "crypto \<Rightarrow> flight \<Rightarrow> bytes" where
  "fl_th4 C f = hashTranscript C (fl_th3 C f) (fl_c3 f)"

lemmas fl_defs = fl_th2_def fl_th3_def fl_th4_def fl_keys_def

lemma sendPrimer_Inr:
  "sendPrimer C s0 w = (Inr s, w1) \<longleftrightarrow> (\<exists>out. writeMessage C [] (s0, io_out w) = (Inr (), (s, out)) \<and> w1 = w\<lparr>io_out := out\<rparr>)"
  by (auto simp: sendPrimer_def split: prod.splits sum.splits)

lemma recvPrimer_Inr:
  "recvPrimer C s0 w = (Inr s, w1) \<longleftrightarrow>
     (\<exists>t inp. readMessage C (io_now w) (s0, io_rand w, io_in w) = (Inr [], (s, t, inp)) \<and> w1 = w\<lparr>io_rand := t, io_in := inp\<rparr>)"
  by (auto simp: recvPrimer_def split: prod.splits sum.splits if_splits)

text \<open>All a successful run of the initiator went through.\<close>

lemma initiateE:
  assumes "initiate C cfg w = (Inr s, w')"
  obtains f m2 in2 out1 chosen peerEph kemCt classical quantum peer t out3 s0 t4 out4 where
    "validateConfig C cfg = Inr ()" "64 \<le> length (io_rand w)" "64 \<le> length (io_sys w)"
    "fl_binding f = cfg_ChannelBinding cfg"
    "fl_m1 f = m1Bytes (versionsOf cfg) (c_xpub C (take 32 (io_rand w))) (c_kemPub C (take 64 (io_sys w))) (take 32 (drop 32 (io_rand w)))"
    "writeFrame (fl_m1 f) (io_out w) = (Inr (), out1)" "readFrame (io_in w) = (Inr m2, in2)"
    "parseM2 m2 = Inr (chosen, peerEph, kemCt, fl_c2 f)" "checkChosen (versionsOf cfg) chosen = Inr ()"
    "exchange C (take 32 (io_rand w)) peerEph = Inr classical" "decapsulate C (take 64 (io_sys w)) kemCt = Inr quantum"
    "fl_shared f = hybridSecret quantum classical" "fl_header2 f = take m2HeaderLen m2"
    "openAuth C cfg (fl_c2 f) (hk_respKey (fl_keys C f)) (hk_respMAC (fl_keys C f)) (fl_th2 C f)
       labelSignatureResponder labelConfirmResponder (io_trust w) = (Inr peer, t)"
    "sealAuth C cfg (hk_initKey (fl_keys C f)) (hk_initMAC (fl_keys C f)) (fl_th3 C f)
       labelSignatureInitiator labelConfirmInitiator = Inr (fl_c3 f)"
    "writeFrame (m3Bytes (fl_c3 f)) out1 = (Inr (), out3)"
    "newSession C (io_now w) (hk_prk (fl_keys C f)) (fl_th4 C f) (peer\<lparr>peer_Version := chosen\<rparr>) roleInitiator
       (Some peerEph) None (drop 64 (io_rand w)) = (Inr s0, t4)"
    "writeMessage C [] (s0, out3) = (Inr (), (s, out4))"
    "w' = w\<lparr>io_sys := drop 64 (io_sys w), io_in := in2, io_trust := t, io_rand := t4, io_out := out4\<rparr>"
proof -
  from assms show thesis
    apply (simp add: initiate_def Let_def bindS_eq_Inr io_steps deriveHandshakeKeys_eq drop_drop sendPrimer_Inr)
    apply (elim exE conjE)
    apply (rule that [where f = "\<lparr>fl_binding = cfg_ChannelBinding cfg, fl_m1 = m1, fl_header2 = h, fl_c2 = c2, fl_c3 = c3, fl_shared = sh\<rparr>" for m1 h c2 c3 sh])
    apply (simp_all add: fl_defs)
    done
qed

lemma initiateI:
  assumes "validateConfig C cfg = Inr ()" "64 \<le> length (io_rand w)" "64 \<le> length (io_sys w)"
    "fl_binding f = cfg_ChannelBinding cfg"
    "fl_m1 f = m1Bytes (versionsOf cfg) (c_xpub C (take 32 (io_rand w))) (c_kemPub C (take 64 (io_sys w))) (take 32 (drop 32 (io_rand w)))"
    "writeFrame (fl_m1 f) (io_out w) = (Inr (), out1)" "readFrame (io_in w) = (Inr m2, in2)"
    "parseM2 m2 = Inr (chosen, peerEph, kemCt, fl_c2 f)" "checkChosen (versionsOf cfg) chosen = Inr ()"
    "exchange C (take 32 (io_rand w)) peerEph = Inr classical" "decapsulate C (take 64 (io_sys w)) kemCt = Inr quantum"
    "fl_shared f = hybridSecret quantum classical" "fl_header2 f = take m2HeaderLen m2"
    "openAuth C cfg (fl_c2 f) (hk_respKey (fl_keys C f)) (hk_respMAC (fl_keys C f)) (fl_th2 C f)
       labelSignatureResponder labelConfirmResponder (io_trust w) = (Inr peer, t)"
    "sealAuth C cfg (hk_initKey (fl_keys C f)) (hk_initMAC (fl_keys C f)) (fl_th3 C f)
       labelSignatureInitiator labelConfirmInitiator = Inr (fl_c3 f)"
    "writeFrame (m3Bytes (fl_c3 f)) out1 = (Inr (), out3)"
    "newSession C (io_now w) (hk_prk (fl_keys C f)) (fl_th4 C f) (peer\<lparr>peer_Version := chosen\<rparr>) roleInitiator
       (Some peerEph) None (drop 64 (io_rand w)) = (Inr s0, t4)"
    "writeMessage C [] (s0, out3) = (Inr (), (s, out4))"
  shows "initiate C cfg w = (Inr s, w\<lparr>io_sys := drop 64 (io_sys w), io_in := in2, io_trust := t, io_rand := t4, io_out := out4\<rparr>)"
  using assms(2,3) assms(6-11) assms(14-18) unfolding fl_defs assms(4,5,12,13)
  by (simp add: initiate_def Let_def bindS_eq_Inr io_steps deriveHandshakeKeys_eq drop_drop sendPrimer_Inr assms(1))

lemma respondE:
  assumes "respond C cfg w = (Inr s, w')"
  obtains f in1 offered peerEph peerEk chosen classical quantum kemCt c2 out2 m3 in3 peer t s0 t4 in4 t5 where
    "validateConfig C cfg = Inr ()" "readFrame (io_in w) = (Inr (fl_m1 f), in1)"
    "parseM1 (fl_m1 f) = Inr (offered, peerEph, peerEk)" "chooseVersion (versionsOf cfg) offered = Inr chosen"
    "64 \<le> length (io_rand w)" "32 \<le> length (io_sys w)" "fl_binding f = cfg_ChannelBinding cfg"
    "exchange C (take 32 (io_rand w)) peerEph = Inr classical" "c_kemCheck C peerEk"
    "c_encaps C peerEk (take 32 (io_sys w)) = (quantum, kemCt)" "fl_shared f = hybridSecret quantum classical"
    "fl_header2 f = m2HeaderBytes chosen (c_xpub C (take 32 (io_rand w))) kemCt (take 32 (drop 32 (io_rand w)))"
    "sealAuth C cfg (hk_respKey (fl_keys C f)) (hk_respMAC (fl_keys C f)) (fl_th2 C f)
       labelSignatureResponder labelConfirmResponder = Inr (fl_c2 f)"
    "writeFrame (fl_header2 f @ appendU32 [] (of_nat (length (fl_c2 f))) @ fl_c2 f) (io_out w) = (Inr (), out2)"
    "readFrame in1 = (Inr m3, in3)" "parseM3 m3 = Inr (fl_c3 f)"
    "openAuth C cfg (fl_c3 f) (hk_initKey (fl_keys C f)) (hk_initMAC (fl_keys C f)) (fl_th3 C f)
       labelSignatureInitiator labelConfirmInitiator (io_trust w) = (Inr peer, t)"
    "newSession C (io_now w) (hk_prk (fl_keys C f)) (fl_th4 C f) (peer\<lparr>peer_Version := chosen\<rparr>) roleResponder
       None (Some (take 32 (io_rand w))) (drop 64 (io_rand w)) = (Inr s0, t4)"
    "readMessage C (io_now w) (s0, t4, in3) = (Inr [], (s, t5, in4))"
    "w' = w\<lparr>io_sys := drop 32 (io_sys w), io_out := out2, io_trust := t, io_rand := t5, io_in := in4\<rparr>"
proof -
  from assms show thesis
    apply (simp add: respond_def Let_def bindS_eq_Inr io_steps deriveHandshakeKeys_eq drop_drop recvPrimer_Inr split_beta)
    apply (elim exE conjE)
    apply (rule that [where f = "\<lparr>fl_binding = cfg_ChannelBinding cfg, fl_m1 = m1, fl_header2 = h, fl_c2 = c2, fl_c3 = c3, fl_shared = sh\<rparr>" for m1 h c2 c3 sh])
    apply (simp_all add: fl_defs)
    done
qed

lemma respondI:
  assumes "validateConfig C cfg = Inr ()" "readFrame (io_in w) = (Inr (fl_m1 f), in1)"
    "parseM1 (fl_m1 f) = Inr (offered, peerEph, peerEk)" "chooseVersion (versionsOf cfg) offered = Inr chosen"
    "64 \<le> length (io_rand w)" "32 \<le> length (io_sys w)" "fl_binding f = cfg_ChannelBinding cfg"
    "length peerEph = 32" "exchange C (take 32 (io_rand w)) peerEph = Inr classical" "c_kemCheck C peerEk"
    "c_encaps C peerEk (take 32 (io_sys w)) = (quantum, kemCt)" "fl_shared f = hybridSecret quantum classical"
    "fl_header2 f = m2HeaderBytes chosen (c_xpub C (take 32 (io_rand w))) kemCt (take 32 (drop 32 (io_rand w)))"
    "sealAuth C cfg (hk_respKey (fl_keys C f)) (hk_respMAC (fl_keys C f)) (fl_th2 C f)
       labelSignatureResponder labelConfirmResponder = Inr (fl_c2 f)"
    "writeFrame (fl_header2 f @ appendU32 [] (of_nat (length (fl_c2 f))) @ fl_c2 f) (io_out w) = (Inr (), out2)"
    "readFrame in1 = (Inr m3, in3)" "parseM3 m3 = Inr (fl_c3 f)"
    "openAuth C cfg (fl_c3 f) (hk_initKey (fl_keys C f)) (hk_initMAC (fl_keys C f)) (fl_th3 C f)
       labelSignatureInitiator labelConfirmInitiator (io_trust w) = (Inr peer, t)"
    "newSession C (io_now w) (hk_prk (fl_keys C f)) (fl_th4 C f) (peer\<lparr>peer_Version := chosen\<rparr>) roleResponder
       None (Some (take 32 (io_rand w))) (drop 64 (io_rand w)) = (Inr s0, t4)"
    "readMessage C (io_now w) (s0, t4, in3) = (Inr [], (s, t5, in4))"
  shows "respond C cfg w = (Inr s, w\<lparr>io_sys := drop 32 (io_sys w), io_out := out2, io_trust := t, io_rand := t5, io_in := in4\<rparr>)"
  using assms(2-6) assms(8-11) assms(14-20) unfolding fl_defs assms(7,12,13)
  by (simp add: respond_def Let_def bindS_eq_Inr io_steps deriveHandshakeKeys_eq drop_drop recvPrimer_Inr assms(1))

section \<open>What a completed handshake proves\<close>

lemma newSession_fields:
  "newSession C now prk th4 peer r pe own t = (Inr s, t') \<Longrightarrow>
     s_peer s = peer \<and> s_role s = r \<and> \<not> s_closed s \<and> s_associated s = c_expand C prk (toBytes labelAssociatedTag @ th4) 32"
  by (auto simp: newSession_def bindS_eq_Inr hkdfExpand_def keySize_def liftS_def retS_def failS_def Let_def
      split: role.splits option.splits)

lemma encrypt_keeps: "encrypt C p s = (x, s') \<Longrightarrow> s_peer s' = s_peer s \<and> s_role s' = s_role s \<and> s_closed s' = s_closed s"
  by (auto simp: encrypt_def Let_def split: if_splits prod.splits sum.splits)

lemma writeMessage_keeps: "writeMessage C p (s, w) = (x, (s', w')) \<Longrightarrow> s_peer s' = s_peer s \<and> s_role s' = s_role s \<and> s_closed s' = s_closed s"
  by (auto simp: writeMessage_def split: prod.splits sum.splits dest: encrypt_keeps)

lemma decrypt_keeps: "decrypt C now rec (s, t) = (x, (s', t')) \<Longrightarrow> s_peer s' = s_peer s \<and> s_role s' = s_role s \<and> s_closed s' = s_closed s"
  by (auto simp: decrypt_def adopt_def Let_def split: if_splits prod.splits sum.splits option.splits)

lemma readMessage_keeps: "readMessage C now (s, t, r) = (x, (s', t', r')) \<Longrightarrow> s_peer s' = s_peer s \<and> s_role s' = s_role s \<and> s_closed s' = s_closed s"
  by (auto simp: readMessage_def split: prod.splits sum.splits dest: decrypt_keeps)

lemma initiate_facts:
  assumes "aead_law C" "initiate C cfg w = (Inr s, w')"
  shows "\<exists>f. fl_binding f = cfg_ChannelBinding cfg \<and> fl_binding f \<noteq> []
     \<and> fl_m1 f = m1Bytes (versionsOf cfg) (c_xpub C (take 32 (io_rand w))) (c_kemPub C (take 64 (io_sys w)))
                    (take 32 (drop 32 (io_rand w)))
     \<and> provenBy C (fl_c2 f) (hk_respKey (fl_keys C f)) (hk_respMAC (fl_keys C f)) (fl_th2 C f) labelSignatureResponder labelConfirmResponder
          (peer_ID (s_peer s)) (peer_PublicKey (s_peer s)) (peer_Nickname (s_peer s))
     \<and> (cfg_ExpectPeerID cfg = [] \<or> peer_ID (s_peer s) = cfg_ExpectPeerID cfg)
     \<and> (\<exists>authorize. cfg_Trust cfg = Some authorize
          \<and> authorize (peer_ID (s_peer s)) (peer_PublicKey (s_peer s)) (io_trust w) = (None, io_trust w'))
     \<and> peer_Version (s_peer s) \<in> set (versionsOf cfg) \<and> peer_Version (s_peer s) = V2
     \<and> s_role s = roleInitiator \<and> \<not> s_closed s"
  using assms(2)
proof (rule initiateE)
  fix f m2 in2 out1 chosen peerEph kemCt classical quantum peer t out3 s0 t4 out4
  assume a: "validateConfig C cfg = Inr ()" "fl_binding f = cfg_ChannelBinding cfg"
    "fl_m1 f = m1Bytes (versionsOf cfg) (c_xpub C (take 32 (io_rand w))) (c_kemPub C (take 64 (io_sys w))) (take 32 (drop 32 (io_rand w)))"
    "checkChosen (versionsOf cfg) chosen = Inr ()"
    "openAuth C cfg (fl_c2 f) (hk_respKey (fl_keys C f)) (hk_respMAC (fl_keys C f)) (fl_th2 C f)
       labelSignatureResponder labelConfirmResponder (io_trust w) = (Inr peer, t)"
    "newSession C (io_now w) (hk_prk (fl_keys C f)) (fl_th4 C f) (peer\<lparr>peer_Version := chosen\<rparr>) roleInitiator
       (Some peerEph) None (drop 64 (io_rand w)) = (Inr s0, t4)"
    "writeMessage C [] (s0, out3) = (Inr (), (s, out4))"
    "w' = w\<lparr>io_sys := drop 64 (io_sys w), io_in := in2, io_trust := t, io_rand := t4, io_out := out4\<rparr>"
  have peer: "s_peer s = peer\<lparr>peer_Version := chosen\<rparr>" "s_role s = roleInitiator" "\<not> s_closed s"
    using newSession_fields [OF a(6)] writeMessage_keeps [OF a(7)] by auto
  have "fl_binding f \<noteq> []" using a(1,2) by (auto simp: validateConfig_def bindE_eq_Inr split: if_splits)
  moreover note openAuth_facts [OF assms(1) a(5)]
  ultimately show ?thesis
    using a(2,3,4,8) peer checkChosen_Inr by (intro exI [of _ f]) auto
qed


lemma chooseVersion_Inr: "chooseVersion ours offered = Inr v \<Longrightarrow> v \<in> set ours \<and> v \<in> set offered"
  using selectVersion_Some by (auto simp: chooseVersion_def split: option.splits if_splits)

lemma respond_facts:
  assumes "hash_lengths C" "aead_law C" "respond C cfg w = (Inr s, w')"
  shows "\<exists>f offered eph ek s0 t rec. fl_binding f = cfg_ChannelBinding cfg \<and> fl_binding f \<noteq> []
     \<and> parseM1 (fl_m1 f) = Inr (offered, eph, ek) \<and> peer_Version (s_peer s) \<in> set (versionsOf cfg) \<inter> set offered
     \<and> provenBy C (fl_c3 f) (hk_initKey (fl_keys C f)) (hk_initMAC (fl_keys C f)) (fl_th3 C f) labelSignatureInitiator
          labelConfirmInitiator (peer_ID (s_peer s)) (peer_PublicKey (s_peer s)) (peer_Nickname (s_peer s))
     \<and> (cfg_ExpectPeerID cfg = [] \<or> peer_ID (s_peer s) = cfg_ExpectPeerID cfg)
     \<and> (\<exists>authorize. cfg_Trust cfg = Some authorize
          \<and> authorize (peer_ID (s_peer s)) (peer_PublicKey (s_peer s)) (io_trust w) = (None, io_trust w'))
     \<and> s_associated s0 = c_expand C (hk_prk (fl_keys C f)) (toBytes labelAssociatedTag @ fl_th4 C f) 32
     \<and> decrypt C (io_now w) rec (s0, t) = (Inr [], (s, io_rand w')) \<and> s_role s = roleResponder \<and> \<not> s_closed s"
  using assms(3)
proof (rule respondE)
  fix f in1 offered peerEph peerEk chosen classical quantum kemCt out2 m3 in3 peer t s0 t4 in4 t5
  assume a: "validateConfig C cfg = Inr ()" "fl_binding f = cfg_ChannelBinding cfg"
    "parseM1 (fl_m1 f) = Inr (offered, peerEph, peerEk)" "chooseVersion (versionsOf cfg) offered = Inr chosen"
    "openAuth C cfg (fl_c3 f) (hk_initKey (fl_keys C f)) (hk_initMAC (fl_keys C f)) (fl_th3 C f)
       labelSignatureInitiator labelConfirmInitiator (io_trust w) = (Inr peer, t)"
    "newSession C (io_now w) (hk_prk (fl_keys C f)) (fl_th4 C f) (peer\<lparr>peer_Version := chosen\<rparr>) roleResponder
       None (Some (take 32 (io_rand w))) (drop 64 (io_rand w)) = (Inr s0, t4)"
    "readMessage C (io_now w) (s0, t4, in3) = (Inr [], (s, t5, in4))"
    "w' = w\<lparr>io_sys := drop 32 (io_sys w), io_out := out2, io_trust := t, io_rand := t5, io_in := in4\<rparr>"
  obtain rec where rec: "decrypt C (io_now w) rec (s0, t4) = (Inr [], (s, t5))"
    using a(7) by (auto simp: readMessage_def split: prod.splits sum.splits)
  have s0: "s_peer s0 = peer\<lparr>peer_Version := chosen\<rparr>" "s_role s0 = roleResponder" "\<not> s_closed s0"
    "s_associated s0 = c_expand C (hk_prk (fl_keys C f)) (toBytes labelAssociatedTag @ fl_th4 C f) 32"
    using newSession_fields [OF a(6)] by auto
  have peer: "s_peer s = peer\<lparr>peer_Version := chosen\<rparr>" "s_role s = roleResponder" "\<not> s_closed s"
    using s0 decrypt_keeps [OF rec] by auto
  have "fl_binding f \<noteq> []" using a(1,2) by (auto simp: validateConfig_def bindE_eq_Inr split: if_splits)
  moreover note openAuth_facts [OF assms(2) a(5)]
  ultimately show ?thesis
    using a(2,3,8) peer s0(4) rec chooseVersion_Inr [OF a(4)]
    by (intro exI [of _ f] exI [of _ offered] exI [of _ peerEph] exI [of _ peerEk] exI [of _ s0] exI [of _ t4] exI [of _ rec]) auto
qed


section \<open>The two sides agree on what was said\<close>

lemma th1_inject:
  assumes "th1Of C b m = th1Of C b' m'" "hash_lengths C"
    and "length b < 4294967296" "length b' < 4294967296" "length m < 4294967296" "length m' < 4294967296"
  shows "(b = b' \<and> m = m') \<or> (\<exists>u v. collision C u v)"
proof -
  have "length (hashTranscript C x y) = 32" for x y using assms(2) by (simp add: hashTranscript_def hash_lengths_simps)
  then have "hashTranscript C (toBytes labelTranscript) b = hashTranscript C (toBytes labelTranscript) b' \<and> m = m'
      \<or> (\<exists>u v. collision C u v)"
    using hashTranscript_inject [OF assms(1) [unfolded th1Of_def]] assms(5,6) by simp
  then show ?thesis using hashTranscript_inject [of C "toBytes labelTranscript" b "toBytes labelTranscript" b'] assms(3,4) by blast
qed


end
