(* ===== verification/HandshakeRun.thy ===== *)
theory HandshakeRun
  imports Handshake
begin

text \<open>
  Two honest sides complete the handshake with each other: the streams that carry their flights fit
  together, both calls return, and the two sessions they return are the start of a conversation.
\<close>

section \<open>The session keys of both sides\<close>

lemma newSession_responder_eq:
  "newSession C now prk th4 peer roleResponder pe (Some sk) tape =
     (Inr \<lparr>s_ratchet = newRatchetResponder (c_expand C prk (toBytes labelRootKey @ th4) 32) sk, s_closed = False,
           s_associated = c_expand C prk (toBytes labelAssociatedTag @ th4) 32, s_peer = peer, s_role = roleResponder,
           s_sentSinceStep = 0, s_lastStep = now, s_steps = 0\<rparr>, tape)"
  by (simp add: newSession_def hkdfExpand_def keySize_def run_simps Let_def)

lemma newSession_initiator_ok:
  assumes "honestKeys C" "32 \<le> length tape"
  shows "\<exists>ra s. newRatchetInitiator C (c_expand C prk (toBytes labelRootKey @ th4) 32) (c_xpub C e) tape = (Inr ra, drop 32 tape)
     \<and> newSession C now prk th4 peer roleInitiator (Some (c_xpub C e)) own tape = (Inr s, drop 32 tape)
     \<and> s_ratchet s = ra \<and> \<not> s_closed s \<and> s_associated s = c_expand C prk (toBytes labelAssociatedTag @ th4) 32 \<and> s_peer s = peer"
proof -
  obtain dh where "c_ecdh C (take 32 tape) (c_xpub C e) = Some dh" using assms(1) by (auto simp: honestKeys_def)
  then obtain ra where ra: "newRatchetInitiator C (c_expand C prk (toBytes labelRootKey @ th4) 32) (c_xpub C e) tape = (Inr ra, drop 32 tape)"
    unfolding newRatchetInitiator_Inr using assms(2) by simp
  then show ?thesis
    by (intro exI [of _ ra]) (simp add: newSession_initiator_Inr)
qed

text \<open>The priming record, written by one side and read by the other.\<close>

lemma primer_delivered:
  assumes law: "hash_lengths C" "aead_law C" "dh_law C" "honestKeys C" and st: "startPair C a b"
    and w: "outRoom w = None" and f: "freshTape C b tape"
  shows "\<exists>rec a' b' tape'. writeMessage C [] (a, w) = (Inr (), (a', w\<lparr>outBytes := outBytes w @ putFrame rec\<rparr>))
     \<and> readMessage C now (b, tape, \<lparr>inBytes = putFrame rec @ rest, inEnd = e\<rparr>) = (Inr [], (b', tape', \<lparr>inBytes = rest, inEnd = e\<rparr>))
     \<and> conv_reach C (startConv a b) \<lparr>cv_a = a', cv_b = b', cv_ab = [], cv_ba = [], cv_sentA = [[]], cv_sentB = [],
          cv_gotA = [], cv_gotB = [[]]\<rparr>
     \<and> s_peer a' = s_peer a \<and> s_peer b' = s_peer b"
proof -
  from st have i: "sendChain (s_ratchet a) \<noteq> None" "sendCount (s_ratchet a) = 0" "\<not> s_closed a"
    unfolding startPair_def newRatchetInitiator_Inr by auto
  then obtain ck where ck: "sendChain (s_ratchet a) = Some ck" "sendCount (s_ratchet a) \<noteq> NOT 0" by auto
  from writeMessage_eq [OF law(1-3) i(3) ck w, of "[]"] obtain rec a' where
    e: "encrypt C [] a = (Inr rec, a')" and wm: "writeMessage C [] (a, w) = (Inr (), (a', w\<lparr>outBytes := outBytes w @ putFrame rec\<rparr>))"
    by auto
  from encrypt_Inr [OF law(1), of "[]" a rec a'] e obtain h mk where rec: "rec = sealPadded C (s_associated a) h mk (pad [])"
    and "ratchetNext C (s_ratchet a) = (Inr (h, mk), s_ratchet a')" by auto
  then have "length (hdr_ratchetPub h) = 32"
    using law(3) by (auto simp: ratchetNext_def dh_law_def kdfChainKey_def split: if_splits)
  then have "length rec \<le> MaxFrameSize"
    using law(2) by (simp add: rec length_sealPadded length_pad MaxFrameSize_def)
  then have rf: "readFrame \<lparr>inBytes = putFrame rec @ rest, inEnd = e\<rparr> = (Inr rec, \<lparr>inBytes = rest, inEnd = e\<rparr>)" for e
    by (simp add: readFrame_putFrame)
  define v where "v = (startConv a b)\<lparr>cv_a := a', cv_ab := cv_ab (startConv a b) @ [rec],
      cv_sentA := cv_sentA (startConv a b) @ [[]]\<rparr>"
  have step: "conv_step C (startConv a b) v"
    unfolding v_def by (rule sendA) (simp add: startConv_def e)
  have "linked C v ([] @ [[]]) []"
    unfolding v_def by (rule linked_sendA [OF law(1) linked_start [OF st law(3)]]) (simp add: startConv_def e)
  then have "linked C v [[]] []" by simp
  moreover have vab: "cv_ab v = [rec]" "cv_b v = b" by (simp_all add: v_def startConv_def)
  ultimately obtain b' tape' where d: "decrypt C now rec (b, tape) = (Inr [], (b', tape'))"
    using linked_readB [OF law, of v "[]" "[]" "[]" rec "[]" tape now] f by auto
  have "conv_step C v (v\<lparr>cv_b := b', cv_ab := [], cv_gotB := cv_gotB v @ [[]]\<rparr>)"
    by (rule readB) (use vab f d in simp_all)
  then have "conv_reach C (startConv a b) (v\<lparr>cv_b := b', cv_ab := [], cv_gotB := cv_gotB v @ [[]]\<rparr>)"
    using conv_more [OF conv_more [OF conv_here step]] by blast
  moreover have "readMessage C now (b, tape, \<lparr>inBytes = putFrame rec @ rest, inEnd = e\<rparr>) =
      (Inr [], (b', tape', \<lparr>inBytes = rest, inEnd = e\<rparr>))"
    by (simp add: readMessage_def rf d)
  ultimately show ?thesis
    using wm encrypt_keeps [OF e] decrypt_keeps [OF d]
    by (intro exI [of _ rec] exI [of _ a'] exI [of _ b'] exI [of _ tape']) (simp add: v_def startConv_def)
qed

section \<open>Completeness\<close>

text \<open>What an honest, matching pair of configurations is.\<close>

definition readyToMeet :: "crypto \<Rightarrow> 't config \<Rightarrow> 't \<Rightarrow> credentials \<Rightarrow> bool" where
  "readyToMeet C cfg t peer \<longleftrightarrow>
     honestCreds C (cfg_Credentials cfg) \<and> cfg_ChannelBinding cfg \<noteq> [] \<and> cfg_Versions cfg = []
     \<and> (cfg_ExpectPeerID cfg = [] \<or> cfg_ExpectPeerID cfg = cr_ID peer)
     \<and> (\<exists>authorize t'. cfg_Trust cfg = Some authorize \<and> authorize (cr_ID peer) (cr_PublicKey peer) t = (None, t'))"

lemma ready_valid: "sig_law C \<Longrightarrow> readyToMeet C cfg t peer \<Longrightarrow> validateConfig C cfg = Inr ()"
  by (auto simp: readyToMeet_def validateConfig_def honest_valid versionsOf_def SupportedVersions_def)

lemma ready_versions: "readyToMeet C cfg t peer \<Longrightarrow> versionsOf cfg = [V2]"
  by (simp add: readyToMeet_def versionsOf_def SupportedVersions_def)

lemma ready_opens:
  assumes law: "crypto_law C" and me: "readyToMeet C cfg t (cfg_Credentials pcfg)" and "honestCreds C (cfg_Credentials pcfg)"
    and "length key = 32"
  shows "\<exists>ct t'. sealAuth C pcfg key macKey th sigLabel macLabel = Inr ct \<and> length ct \<le> 427
     \<and> openAuth C cfg ct key macKey th sigLabel macLabel t = (Inr (credPeer (cfg_Credentials pcfg)), t')"
proof -
  have e: "cfg_ExpectPeerID cfg = [] \<or> cfg_ExpectPeerID cfg = cr_ID (cfg_Credentials pcfg)"
    using me by (simp add: readyToMeet_def)
  from me obtain authorize t' where a: "cfg_Trust cfg = Some authorize"
    "authorize (cr_ID (cfg_Credentials pcfg)) (cr_PublicKey (cfg_Credentials pcfg)) t = (None, t')"
    by (auto simp: readyToMeet_def)
  from sealed_verifies [OF law assms(3,4) e, of macKey th sigLabel macLabel] obtain ct p where
    p: "sealAuth C pcfg key macKey th sigLabel macLabel = Inr ct"
      "verifyAuth C (cfg_ExpectPeerID cfg) ct key macKey th sigLabel macLabel = Inr p"
      "ap_id p = cr_ID (cfg_Credentials pcfg)" "ap_identityPub p = cr_PublicKey (cfg_Credentials pcfg)"
      "ap_nickname p = cr_Nickname (cfg_Credentials pcfg)" "length ct \<le> 427" by blast
  have "openAuth C cfg ct key macKey th sigLabel macLabel t = (Inr (credPeer (cfg_Credentials pcfg)), t')"
    using p(2-5) a by (simp add: openAuth_def credPeer_def)
  with p(1,6) show ?thesis by blast
qed

lemma handshake_runs:
  assumes law: "crypto_law C" "honestKeys C"
    and i: "readyToMeet C cfgI (io_trust wI) (cfg_Credentials cfgR)" and r: "readyToMeet C cfgR (io_trust wR) (cfg_Credentials cfgI)"
    and bind: "cfg_ChannelBinding cfgI = cfg_ChannelBinding cfgR"
    and wI: "96 \<le> length (io_rand wI)" "64 \<le> length (io_sys wI)" "outRoom (io_out wI) = None"
    and wR: "96 \<le> length (io_rand wR)" "32 \<le> length (io_sys wR)" "outRoom (io_out wR) = None"
    and fresh: "c_xpub C (take 32 (drop 64 (io_rand wR))) \<noteq> c_xpub C (take 32 (io_rand wR))"
  shows "\<exists>m1 m2 m3 m4 a b sI sR wI' wR'.
     initiate C cfgI (wI\<lparr>io_in := \<lparr>inBytes = putFrame m2, inEnd = EOF\<rparr>\<rparr>) = (Inr sI, wI')
     \<and> outBytes (io_out wI') = outBytes (io_out wI) @ putFrame m1 @ putFrame m3 @ putFrame m4
     \<and> respond C cfgR (wR\<lparr>io_in := \<lparr>inBytes = putFrame m1 @ putFrame m3 @ putFrame m4, inEnd = EOF\<rparr>\<rparr>) = (Inr sR, wR')
     \<and> outBytes (io_out wR') = outBytes (io_out wR) @ putFrame m2
     \<and> s_peer sI = (credPeer (cfg_Credentials cfgR))\<lparr>peer_Version := V2\<rparr>
     \<and> s_peer sR = (credPeer (cfg_Credentials cfgI))\<lparr>peer_Version := V2\<rparr>
     \<and> startPair C a b \<and> conv_reach C (startConv a b)
          \<lparr>cv_a = sI, cv_b = sR, cv_ab = [], cv_ba = [], cv_sentA = [[]], cv_sentB = [], cv_gotA = [], cv_gotB = [[]]\<rparr>"
proof -
  note laws = crypto_law_parts [OF law(1)]
  define eI where "eI = take 32 (io_rand wI)"
  define eR where "eR = take 32 (io_rand wR)"
  define kem where "kem = take 64 (io_sys wI)"
  define nR where "nR = take 32 (drop 32 (io_rand wR))"
  define m1 where "m1 = m1Bytes [V2] (c_xpub C eI) (c_kemPub C kem) (take 32 (drop 32 (io_rand wI)))"
  have pub: "length (c_xpub C x) = 32" for x using laws(3) by (simp add: dh_law_def)
  have kpub: "length (c_kemPub C kem) = 1184" "c_kemCheck C (c_kemPub C kem)" using laws(4) by (simp_all add: kem_law_def)
  have parse1: "parseM1 m1 = Inr ([V2], c_xpub C eI, c_kemPub C kem)"
    unfolding m1_def by (rule parseM1_m1Bytes) (use pub kpub wI(1) in simp_all)
  have len1: "length m1 \<le> MaxFrameSize"
    using pub kpub by (simp add: m1_def m1Bytes_def foldl_appendU16 appendU16_def MaxFrameSize_def)
  obtain quantum ct where enc: "c_encaps C (c_kemPub C kem) (take 32 (io_sys wR)) = (quantum, ct)" by (cases "c_encaps C (c_kemPub C kem) (take 32 (io_sys wR))")
  have ct: "length ct = 1088" "c_decaps C kem ct = quantum"
    using laws(4) enc unfolding kem_law_def by (metis snd_conv, metis fst_conv snd_conv)
  obtain cl where cl: "c_ecdh C eR (c_xpub C eI) = Some cl" "c_ecdh C eI (c_xpub C eR) = Some cl"
    using law(2) laws(3) unfolding honestKeys_def dh_law_def by (metis option.exhaust)
  define h2 where "h2 = m2HeaderBytes V2 (c_xpub C eR) ct nR"
  have nR: "length nR = 32" using wR(1) by (simp add: nR_def)
  define f0 where "f0 = \<lparr>fl_binding = cfg_ChannelBinding cfgR, fl_m1 = m1, fl_header2 = h2, fl_c2 = [], fl_c3 = [],
      fl_shared = hybridSecret quantum cl\<rparr>"
  define keys where "keys = fl_keys C f0"
  have keys: "length (hk_respKey keys) = 32" "length (hk_initKey keys) = 32"
    using keysOf_lengths [OF laws(1)] by (simp_all add: keys_def fl_keys_def)
  have hc: "honestCreds C (cfg_Credentials cfgI)" "honestCreds C (cfg_Credentials cfgR)"
    using i r by (simp_all add: readyToMeet_def)
  from ready_opens [OF law(1) i hc(2) keys(1), of "hk_respMAC keys" "fl_th2 C f0" labelSignatureResponder labelConfirmResponder]
  obtain c2 tI where c2: "sealAuth C cfgR (hk_respKey keys) (hk_respMAC keys) (fl_th2 C f0) labelSignatureResponder labelConfirmResponder = Inr c2"
    "length c2 \<le> 427" "openAuth C cfgI c2 (hk_respKey keys) (hk_respMAC keys) (fl_th2 C f0) labelSignatureResponder labelConfirmResponder (io_trust wI)
       = (Inr (credPeer (cfg_Credentials cfgR)), tI)" by blast
  define f1 where "f1 = f0\<lparr>fl_c2 := c2\<rparr>"
  from ready_opens [OF law(1) r hc(1) keys(2), of "hk_initMAC keys" "fl_th3 C f1" labelSignatureInitiator labelConfirmInitiator]
  obtain c3 tR where c3: "sealAuth C cfgI (hk_initKey keys) (hk_initMAC keys) (fl_th3 C f1) labelSignatureInitiator labelConfirmInitiator = Inr c3"
    "length c3 \<le> 427" "openAuth C cfgR c3 (hk_initKey keys) (hk_initMAC keys) (fl_th3 C f1) labelSignatureInitiator labelConfirmInitiator (io_trust wR)
       = (Inr (credPeer (cfg_Credentials cfgI)), tR)" by blast
  define f where "f = f1\<lparr>fl_c3 := c3\<rparr>"
  have f: "fl_binding f = cfg_ChannelBinding cfgR" "fl_m1 f = m1" "fl_header2 f = h2" "fl_c2 f = c2" "fl_c3 f = c3"
    "fl_shared f = hybridSecret quantum cl" "fl_keys C f = keys" "fl_th2 C f = fl_th2 C f0" "fl_th3 C f = fl_th3 C f1"
    by (simp_all add: f_def f1_def f0_def keys_def fl_defs)
  define m2 where "m2 = h2 @ appendU32 [] (of_nat (length c2)) @ c2"
  have len2: "length m2 \<le> MaxFrameSize" using pub ct(1) nR c2(2)
    by (simp add: m2_def h2_def m2HeaderBytes_def appendU16_def appendU32_def MaxFrameSize_def)
  have parse2: "parseM2 m2 = Inr (V2, c_xpub C eR, ct, c2)"
    unfolding m2_def h2_def by (rule parseM2_m2Bytes) (use pub ct(1) nR c2(2) in simp_all)
  have head2: "take m2HeaderLen m2 = h2" unfolding m2_def h2_def by (rule take_m2Header) (use pub ct(1) nR in simp_all)
  have len3: "length (m3Bytes c3) \<le> MaxFrameSize" using c3(2) by (simp add: m3Bytes_def appendU32_def MaxFrameSize_def)
  have parse3: "parseM3 (m3Bytes c3) = Inr c3" by (rule parseM3_m3Bytes) (use c3(2) in simp)
  let ?pR = "(credPeer (cfg_Credentials cfgR))\<lparr>peer_Version := V2\<rparr>" and ?pI = "(credPeer (cfg_Credentials cfgI))\<lparr>peer_Version := V2\<rparr>"
  let ?root = "c_expand C (hk_prk keys) (toBytes labelRootKey @ fl_th4 C f) 32"
  have tapeI: "32 \<le> length (drop 64 (io_rand wI))" using wI(1) by simp
  from newSession_initiator_ok [OF law(2) tapeI, of "hk_prk keys" "fl_th4 C f" eR "io_now wI" ?pR None]
  obtain ra s0I where s0I: "newRatchetInitiator C ?root (c_xpub C eR) (drop 64 (io_rand wI)) = (Inr ra, drop 96 (io_rand wI))"
    "newSession C (io_now wI) (hk_prk keys) (fl_th4 C f) ?pR roleInitiator (Some (c_xpub C eR)) None (drop 64 (io_rand wI)) = (Inr s0I, drop 96 (io_rand wI))"
    "s_ratchet s0I = ra" "\<not> s_closed s0I" "s_associated s0I = c_expand C (hk_prk keys) (toBytes labelAssociatedTag @ fl_th4 C f) 32" "s_peer s0I = ?pR"
    by auto
  obtain s0R where s0R: "newSession C (io_now wR) (hk_prk keys) (fl_th4 C f) ?pI roleResponder None (Some eR) (drop 64 (io_rand wR)) = (Inr s0R, drop 64 (io_rand wR))"
    "s_ratchet s0R = newRatchetResponder ?root eR" "\<not> s_closed s0R" "s_associated s0R = c_expand C (hk_prk keys) (toBytes labelAssociatedTag @ fl_th4 C f) 32" "s_peer s0R = ?pI"
    by (simp add: newSession_responder_eq)
  have st: "startPair C s0I s0R"
    unfolding startPair_def using s0I(1) [folded s0I(3)] s0I(4,5) s0R(2-4) by auto
  define out3 where "out3 = (io_out wI)\<lparr>outBytes := outBytes (io_out wI) @ putFrame m1 @ putFrame (m3Bytes c3)\<rparr>"
  have "freshTape C s0R (drop 64 (io_rand wR))"
    using wR(1) fresh s0R(2) by (simp add: freshTape_def newRatchetResponder_def eR_def)
  from primer_delivered [OF laws(1-3) law(2) st _ this, of out3 "io_now wR" "[]" EOF] wI(3)
  obtain m4 sI sR t5 where p: "writeMessage C [] (s0I, out3) = (Inr (), (sI, out3\<lparr>outBytes := outBytes out3 @ putFrame m4\<rparr>))"
    "readMessage C (io_now wR) (s0R, drop 64 (io_rand wR), \<lparr>inBytes = putFrame m4, inEnd = EOF\<rparr>) = (Inr [], (sR, t5, \<lparr>inBytes = [], inEnd = EOF\<rparr>))"
    "conv_reach C (startConv s0I s0R) \<lparr>cv_a = sI, cv_b = sR, cv_ab = [], cv_ba = [], cv_sentA = [[]], cv_sentB = [], cv_gotA = [], cv_gotB = [[]]\<rparr>"
    "s_peer sI = ?pR" "s_peer sR = ?pI"
    using s0I(6) s0R(5) by (auto simp: out3_def)
  define wI0 where "wI0 = wI\<lparr>io_in := \<lparr>inBytes = putFrame m2, inEnd = EOF\<rparr>\<rparr>"
  define wR0 where "wR0 = wR\<lparr>io_in := \<lparr>inBytes = putFrame m1 @ putFrame (m3Bytes c3) @ putFrame m4, inEnd = EOF\<rparr>\<rparr>"
  have w1: "writeFrame m1 (io_out wI0) = (Inr (), (io_out wI)\<lparr>outBytes := outBytes (io_out wI) @ putFrame m1\<rparr>)"
    using writeFrame_ok [OF len1] wI(3) by (simp add: wI0_def)
  have w3: "writeFrame (m3Bytes c3) ((io_out wI)\<lparr>outBytes := outBytes (io_out wI) @ putFrame m1\<rparr>) = (Inr (), out3)"
    using writeFrame_ok [OF len3] wI(3) by (simp add: out3_def)
  have runI: "\<exists>wI'. initiate C cfgI wI0 = (Inr sI, wI') \<and> io_out wI' = out3\<lparr>outBytes := outBytes out3 @ putFrame m4\<rparr>"
  proof (intro exI conjI)
    show "initiate C cfgI wI0 = (Inr sI, wI0\<lparr>io_sys := drop 64 (io_sys wI0), io_in := \<lparr>inBytes = [], inEnd = EOF\<rparr>, io_trust := tI,
        io_rand := drop 96 (io_rand wI), io_out := out3\<lparr>outBytes := outBytes out3 @ putFrame m4\<rparr>\<rparr>)"
      by (rule initiateI [where f = f and ?m2.0 = m2 and chosen = V2 and peerEph = "c_xpub C eR" and kemCt = ct and classical = cl
            and quantum = quantum and peer = "credPeer (cfg_Credentials cfgR)" and ?s0.0 = s0I and ?out3.0 = out3
            and ?out1.0 = "(io_out wI)\<lparr>outBytes := outBytes (io_out wI) @ putFrame m1\<rparr>"])
        (use wI bind pub cl(2) ct f ready_valid [OF laws(5) i] ready_versions [OF i] readFrame_putFrame [OF len2] w1 w3 parse2 head2
            c2(3) c3(1) s0I(2) p(1) in
          \<open>simp_all add: wI0_def m1_def eI_def [symmetric] kem_def [symmetric] checkChosen_Inr exchange_def decapsulate_def mlkemCiphertextSize_def\<close>)
  qed simp
  have doneR: "respond C cfgR wR0 = (Inr sR, wR0\<lparr>io_sys := drop 32 (io_sys wR0), io_out := (io_out wR)\<lparr>outBytes := outBytes (io_out wR) @ putFrame m2\<rparr>,
      io_trust := tR, io_rand := t5, io_in := \<lparr>inBytes = [], inEnd = EOF\<rparr>\<rparr>)"
  proof (rule respondI [OF ready_valid [OF laws(5) r]])
    show "readFrame (io_in wR0) = (Inr (fl_m1 f), \<lparr>inBytes = putFrame (m3Bytes c3) @ putFrame m4, inEnd = EOF\<rparr>)"
      using readFrame_putFrame [OF len1] by (simp add: wR0_def f(2))
    show "parseM1 (fl_m1 f) = Inr ([V2], c_xpub C eI, c_kemPub C kem)" by (simp only: f(2) parse1)
    show "chooseVersion (versionsOf cfgR) [V2] = Inr V2" using ready_versions [OF r] by (simp add: chooseVersion_def)
    show "64 \<le> length (io_rand wR0)" "32 \<le> length (io_sys wR0)" using wR by (simp_all add: wR0_def)
    show "fl_binding f = cfg_ChannelBinding cfgR" by (rule f(1))
    show "length (c_xpub C eI) = 32" by (rule pub)
    show "exchange C (take 32 (io_rand wR0)) (c_xpub C eI) = Inr cl" using cl(1) pub by (simp add: exchange_def wR0_def eR_def [symmetric])
    show "c_kemCheck C (c_kemPub C kem)" by (rule kpub(2))
    show "c_encaps C (c_kemPub C kem) (take 32 (io_sys wR0)) = (quantum, ct)" using enc by (simp add: wR0_def)
    show "fl_shared f = hybridSecret quantum cl" by (rule f(6))
    show "fl_header2 f = m2HeaderBytes V2 (c_xpub C (take 32 (io_rand wR0))) ct (take 32 (drop 32 (io_rand wR0)))"
      by (simp add: f(3) h2_def eR_def nR_def wR0_def)
    show "sealAuth C cfgR (hk_respKey (fl_keys C f)) (hk_respMAC (fl_keys C f)) (fl_th2 C f) labelSignatureResponder labelConfirmResponder = Inr (fl_c2 f)"
      by (simp only: f(4,7,8) c2(1))
    show "writeFrame (fl_header2 f @ appendU32 [] (of_nat (length (fl_c2 f))) @ fl_c2 f) (io_out wR0) =
        (Inr (), (io_out wR)\<lparr>outBytes := outBytes (io_out wR) @ putFrame m2\<rparr>)"
      using writeFrame_ok [OF len2 wR(3)] by (simp add: f(3,4) m2_def wR0_def)
    show "readFrame \<lparr>inBytes = putFrame (m3Bytes c3) @ putFrame m4, inEnd = EOF\<rparr> = (Inr (m3Bytes c3), \<lparr>inBytes = putFrame m4, inEnd = EOF\<rparr>)"
      using readFrame_putFrame [OF len3] by simp
    show "parseM3 (m3Bytes c3) = Inr (fl_c3 f)" by (simp only: f(5) parse3)
    show "openAuth C cfgR (fl_c3 f) (hk_initKey (fl_keys C f)) (hk_initMAC (fl_keys C f)) (fl_th3 C f) labelSignatureInitiator
        labelConfirmInitiator (io_trust wR0) = (Inr (credPeer (cfg_Credentials cfgI)), tR)"
      using c3(3) by (simp add: f(5,7,9) wR0_def)
    show "newSession C (io_now wR0) (hk_prk (fl_keys C f)) (fl_th4 C f) ?pI roleResponder None (Some (take 32 (io_rand wR0)))
        (drop 64 (io_rand wR0)) = (Inr s0R, drop 64 (io_rand wR))"
      using s0R(1) by (simp add: f(7) wR0_def eR_def)
    show "readMessage C (io_now wR0) (s0R, drop 64 (io_rand wR), \<lparr>inBytes = putFrame m4, inEnd = EOF\<rparr>) =
        (Inr [], (sR, t5, \<lparr>inBytes = [], inEnd = EOF\<rparr>))"
      using p(2) by (simp add: wR0_def)
  qed
  have runR: "\<exists>wR'. respond C cfgR wR0 = (Inr sR, wR') \<and> io_out wR' = (io_out wR)\<lparr>outBytes := outBytes (io_out wR) @ putFrame m2\<rparr>"
    unfolding doneR by simp
  obtain wI' wR' where fin: "initiate C cfgI wI0 = (Inr sI, wI')" "io_out wI' = out3\<lparr>outBytes := outBytes out3 @ putFrame m4\<rparr>"
    "respond C cfgR wR0 = (Inr sR, wR')" "io_out wR' = (io_out wR)\<lparr>outBytes := outBytes (io_out wR) @ putFrame m2\<rparr>"
    using runI runR by blast
  show ?thesis
  proof (intro exI conjI)
    show "initiate C cfgI (wI\<lparr>io_in := \<lparr>inBytes = putFrame m2, inEnd = EOF\<rparr>\<rparr>) = (Inr sI, wI')" using fin(1) by (simp only: wI0_def)
    show "outBytes (io_out wI') = outBytes (io_out wI) @ putFrame m1 @ putFrame (m3Bytes c3) @ putFrame m4"
      by (simp add: fin(2) out3_def)
    show "respond C cfgR (wR\<lparr>io_in := \<lparr>inBytes = putFrame m1 @ putFrame (m3Bytes c3) @ putFrame m4, inEnd = EOF\<rparr>\<rparr>) = (Inr sR, wR')"
      using fin(3) by (simp only: wR0_def)
    show "outBytes (io_out wR') = outBytes (io_out wR) @ putFrame m2" by (simp add: fin(4))
  qed (rule p(4) p(5) st p(3))+
qed

text \<open>C1: completeness, end to end. Two sides with honest credentials, the same TLS exporter value, policies that
  accept each other and enough randomness complete the handshake over streams that carry exactly what the
  other wrote: both calls return a session, each knows the other's ID, key, nickname and version 2, and from
  there every conversation, in any interleaving, is delivered in order and without loss.\<close>

theorem handshake_completes:
  assumes law: "crypto_law C" "honestKeys C"
    and i: "readyToMeet C cfgI (io_trust wI) (cfg_Credentials cfgR)" and r: "readyToMeet C cfgR (io_trust wR) (cfg_Credentials cfgI)"
    and bind: "cfg_ChannelBinding cfgI = cfg_ChannelBinding cfgR"
    and wI: "96 \<le> length (io_rand wI)" "64 \<le> length (io_sys wI)" "outRoom (io_out wI) = None"
    and wR: "96 \<le> length (io_rand wR)" "32 \<le> length (io_sys wR)" "outRoom (io_out wR) = None"
    and fresh: "c_xpub C (take 32 (drop 64 (io_rand wR))) \<noteq> c_xpub C (take 32 (io_rand wR))"
  shows "\<exists>m1 m2 m3 m4 sI sR wI' wR'.
     initiate C cfgI (wI\<lparr>io_in := \<lparr>inBytes = putFrame m2, inEnd = EOF\<rparr>\<rparr>) = (Inr sI, wI')
     \<and> outBytes (io_out wI') = outBytes (io_out wI) @ putFrame m1 @ putFrame m3 @ putFrame m4
     \<and> respond C cfgR (wR\<lparr>io_in := \<lparr>inBytes = putFrame m1 @ putFrame m3 @ putFrame m4, inEnd = EOF\<rparr>\<rparr>) = (Inr sR, wR')
     \<and> outBytes (io_out wR') = outBytes (io_out wR) @ putFrame m2
     \<and> s_peer sI = (credPeer (cfg_Credentials cfgR))\<lparr>peer_Version := V2\<rparr>
     \<and> s_peer sR = (credPeer (cfg_Credentials cfgI))\<lparr>peer_Version := V2\<rparr>
     \<and> (\<forall>v. conv_reach C \<lparr>cv_a = sI, cv_b = sR, cv_ab = [], cv_ba = [], cv_sentA = [[]], cv_sentB = [],
                  cv_gotA = [], cv_gotB = [[]]\<rparr> v \<longrightarrow> delivers C v)"
proof -
  from handshake_runs [OF assms] obtain m1 m2 m3 m4 a b sI sR wI' wR' where h:
    "initiate C cfgI (wI\<lparr>io_in := \<lparr>inBytes = putFrame m2, inEnd = EOF\<rparr>\<rparr>) = (Inr sI, wI')"
    "outBytes (io_out wI') = outBytes (io_out wI) @ putFrame m1 @ putFrame m3 @ putFrame m4"
    "respond C cfgR (wR\<lparr>io_in := \<lparr>inBytes = putFrame m1 @ putFrame m3 @ putFrame m4, inEnd = EOF\<rparr>\<rparr>) = (Inr sR, wR')"
    "outBytes (io_out wR') = outBytes (io_out wR) @ putFrame m2"
    "s_peer sI = (credPeer (cfg_Credentials cfgR))\<lparr>peer_Version := V2\<rparr>"
    "s_peer sR = (credPeer (cfg_Credentials cfgI))\<lparr>peer_Version := V2\<rparr>" "startPair C a b"
    "conv_reach C (startConv a b) \<lparr>cv_a = sI, cv_b = sR, cv_ab = [], cv_ba = [], cv_sentA = [[]], cv_sentB = [], cv_gotA = [], cv_gotB = [[]]\<rparr>"
    by (elim exE conjE) (rule that)
  have "\<forall>v. conv_reach C \<lparr>cv_a = sI, cv_b = sR, cv_ab = [], cv_ba = [], cv_sentA = [[]], cv_sentB = [], cv_gotA = [], cv_gotB = [[]]\<rparr> v
      \<longrightarrow> delivers C v"
    using reach_delivers [OF crypto_law_parts(1-3) [OF law(1)] law(2) h(7)] conv_reach_trans [OF _ h(8)] by blast
  with h(1-6) show ?thesis
    by (intro exI conjI) assumption+
qed

text \<open>One concrete meeting, at which the witnesses evaluate.\<close>

definition sampleIO :: "bytes \<Rightarrow> nat io" where
  "sampleIO tape = \<lparr>io_in = \<lparr>inBytes = [], inEnd = EOF\<rparr>, io_out = \<lparr>outBytes = [], outRoom = None\<rparr>, io_rand = tape,
     io_sys = replicate 64 5, io_trust = 0, io_now = 1\<rparr>"

lemma sample_ready: "readyToMeet plainCrypto sampleConfig (io_trust (sampleIO t)) (cfg_Credentials sampleConfig)"
  using sample_honest by (simp add: readyToMeet_def sampleConfig_def)

lemma sample_fresh: "c_xpub plainCrypto (take 32 (drop 64 (replicate 64 2 @ replicate 32 4))) \<noteq> c_xpub plainCrypto (take 32 (replicate 64 2 @ replicate 32 4))"
proof -
  have "hd (fill 32 (replicate 32 (4 :: byte))) \<noteq> hd (fill 32 (replicate 32 2))" by (simp add: fill_def)
  then have "fill 32 (replicate 32 (4 :: byte)) \<noteq> fill 32 (replicate 32 2)" by metis
  then show ?thesis by (simp add: plainCrypto_def)
qed

theorem handshake_completes_witness:
  "\<exists>m1 m2 m3 m4 sI sR wI' wR'.
     initiate plainCrypto sampleConfig ((sampleIO (replicate 96 1))\<lparr>io_in := \<lparr>inBytes = putFrame m2, inEnd = EOF\<rparr>\<rparr>) = (Inr sI, wI')
     \<and> respond plainCrypto sampleConfig ((sampleIO (replicate 64 2 @ replicate 32 4))
         \<lparr>io_in := \<lparr>inBytes = putFrame m1 @ putFrame m3 @ putFrame m4, inEnd = EOF\<rparr>\<rparr>) = (Inr sR, wR')"
proof -
  note h = handshake_completes [OF plainCrypto_law plain_honest sample_ready sample_ready, of "replicate 96 1" "replicate 64 2 @ replicate 32 4"]
  show ?thesis using h sample_fresh by (simp add: sampleIO_def) blast
qed

text \<open>The runs of that meeting.\<close>

lemma sample_meeting:
  "\<exists>m1 m2 m3 m4 sI sR wI' wR'.
     initiate plainCrypto sampleConfig ((sampleIO (replicate 96 1))\<lparr>io_in := \<lparr>inBytes = putFrame m2, inEnd = EOF\<rparr>\<rparr>) = (Inr sI, wI')
     \<and> respond plainCrypto sampleConfig ((sampleIO (replicate 64 2 @ replicate 32 4))
         \<lparr>io_in := \<lparr>inBytes = putFrame m1 @ putFrame m3 @ putFrame m4, inEnd = EOF\<rparr>\<rparr>) = (Inr sR, wR')"
proof -
  note h = handshake_runs [OF plainCrypto_law plain_honest sample_ready sample_ready, of "replicate 96 1" "replicate 64 2 @ replicate 32 4"]
  show ?thesis using h sample_fresh by (simp add: sampleIO_def) blast
qed




end
