(* ===== verification/KeyTypes.thy ===== *)
theory KeyTypes
  imports RatchetStore Session
begin

text \<open>
  The byte strings of a session have types in the Go code, \<^verbatim>\<open>*ecdh.PrivateKey\<close>, \<^verbatim>\<open>*ecdh.PublicKey\<close>, \<^verbatim>\<open>[32]byte\<close>, which the
  model writes as lists: here every list is shown to keep the length its type promises.
\<close>

section \<open>Well-typed sessions\<close>

definition typedRatchet :: "ratchet \<Rightarrow> bool" where
  "typedRatchet r \<longleftrightarrow> length (rootKey r) = 32 \<and> length (sendKey r) = 32
     \<and> (\<forall>k. receiveKey r = Some k \<longrightarrow> length k = 32) \<and> (\<forall>k. sendChain r = Some k \<longrightarrow> length k = 32)
     \<and> (\<forall>k. receiveChain r = Some k \<longrightarrow> length k = 32)
     \<and> (\<forall>i mk. skipped r i = Some mk \<longrightarrow> length (fst i) = 32 \<and> length mk = 32)"

definition typedSession :: "session \<Rightarrow> bool" where
  "typedSession s \<longleftrightarrow> typedRatchet (s_ratchet s) \<and> length (s_associated s) = 32"

lemma chain_typed: "hash_lengths C \<Longrightarrow> kdfChainKey C ck = (mk, nx) \<Longrightarrow> length mk = 32 \<and> length nx = 32"
  by (auto simp: kdfChainKey_def hmacSHA256_def hash_lengths_def)

lemma root_typed: "hash_lengths C \<Longrightarrow> kdfRootKey C root dh = Inr (a, b) \<Longrightarrow> length a = 32 \<and> length b = 32"
  by (auto simp: kdfRootKey_step rootStep_def Let_def hash_lengths_def)

lemma draw_typed: "draw n tape = (Inr x, tape') \<Longrightarrow> length x = n"
  by (auto simp: draw_def split: if_splits)

lemma trimStore_less: "trimStore ks m = (ks', m') \<Longrightarrow> m' i = Some v \<Longrightarrow> m i = Some v"
  by (induction ks m rule: trimStore.induct) (auto split: if_splits)

lemma remember_typed:
  assumes "typedRatchet r" "length (fst k) = 32" "length mk = 32"
  shows "typedRatchet (remember k mk r)"
proof -
  obtain ks' m' where t: "trimStore (if skipped r k = None then order r @ [k] else order r) ((skipped r)(k := Some mk)) = (ks', m')" by (metis surj_pair)
  have "skipped (remember k mk r) = m'" by (simp add: remember_def t Let_def)
  moreover have "skipped r i = Some v \<Longrightarrow> length (fst i) = 32 \<and> length v = 32" for i v
    using assms(1) unfolding typedRatchet_def by blast
  then have "m' i = Some v \<Longrightarrow> length (fst i) = 32 \<and> length v = 32" for i v
    using trimStore_less [OF t, of i v] assms(2,3) by (cases "i = k") auto
  ultimately have "\<forall>i v. skipped (remember k mk r) i = Some v \<longrightarrow> length (fst i) = 32 \<and> length v = 32" by simp
  then show ?thesis using assms(1) unfolding typedRatchet_def remember_fields by blast
qed

lemma skipOne_typed:
  assumes "hash_lengths C" "typedRatchet r" "length p = 32"
  shows "typedRatchet (skipOne C p r)"
proof -
  obtain mk nx where k: "kdfChainKey C (sliceChain (receiveChain r)) = (mk, nx)" by (metis surj_pair)
  have "typedRatchet (r\<lparr>receiveChain := Some nx\<rparr>)" using assms(2) chain_typed [OF assms(1) k] by (simp add: typedRatchet_def)
  from remember_typed [OF this, of "(p, receiveCount r)" mk] show ?thesis
    using assms(3) chain_typed [OF assms(1) k] by (auto simp: skipOne_def k Let_def typedRatchet_def)
qed

lemma skipTo_typed:
  assumes "hash_lengths C" "typedRatchet r"
  shows "typedRatchet (snd (skipTo C t r))"
proof -
  have l: "typedRatchet (skipLoop C p t r)" if "length p = 32" for p
    by (rule skipLoop_preserves [where P = typedRatchet]) (use that assms skipOne_typed in auto)
  have "receiveKey r = Some p \<Longrightarrow> typedRatchet (skipLoop C p t r)" for p
    using l assms(2) unfolding typedRatchet_def by blast
  then show ?thesis using assms(2) by (cases "receiveKey r") (simp_all add: skipTo_def)
qed

lemma receiveChainKey_typed:
  assumes "hash_lengths C" "typedRatchet r" "receiveChainKey C h r = (Inr (mk, sk), r')"
  shows "typedRatchet r' \<and> length mk = 32"
proof -
  obtain u r1 where s: "skipTo C (hdr_n h) r = (Inr u, r1)" and m: "mk = fst (kdfChainKey C (sliceChain (receiveChain r1)))"
    and r': "r' = r1\<lparr>receiveChain := Some (snd (kdfChainKey C (sliceChain (receiveChain r1)))), receiveCount := receiveCount r1 + 1\<rparr>"
    using assms(3) by (auto simp: receiveChainKey_def split: if_splits sum.splits prod.splits)
  have "typedRatchet r1" using skipTo_typed [OF assms(1,2), of "hdr_n h"] s by simp
  then show ?thesis using m r' chain_typed [OF assms(1) surjective_pairing] by (simp add: typedRatchet_def)
qed

lemma stepRatchet_typed:
  assumes "hash_lengths C" "typedRatchet r" "length p = 32" "stepRatchet C p (r, tape) = (Inr u, (r', tape'))"
  shows "typedRatchet r'"
proof -
  obtain dh a b sk dh' a' b' where k: "kdfRootKey C (rootKey r) dh = Inr (a, b)" "draw 32 tape = (Inr sk, tape')" "kdfRootKey C a dh' = Inr (a', b')"
    "r' = r\<lparr>previousSent := sendCount r, sendCount := 0, receiveCount := 0, receiveKey := Some p, rootKey := a', receiveChain := Some b,
        sendChain := Some b', sendKey := sk, steps := steps r + 1\<rparr>"
    using assms(4) by (auto simp: stepRatchet_def Let_def split: option.splits sum.splits prod.splits)
  show ?thesis using assms(2,3) draw_typed [OF k(2)] root_typed [OF assms(1) k(1)] root_typed [OF assms(1) k(3)]
    by (simp add: k(4) typedRatchet_def)
qed

lemma receive_typed:
  assumes "hash_lengths C" "typedRatchet r" "receive C h (r, tape) = (Inr (mk, sk), (r', tape'))"
  shows "typedRatchet r' \<and> length mk = 32"
proof -
  have h: "length (hdr_ratchetPub h) = 32" using assms(3) by (auto simp: receive_def split: if_splits)
  show ?thesis
  proof (cases "skipped r (hdr_ratchetPub h, hdr_n h)")
    case (Some x)
    then show ?thesis using assms(2,3) h by (auto simp: receive_def typedRatchet_def split: if_splits)
  next
    case None
    show ?thesis
    proof (cases "receiveKey r = Some (hdr_ratchetPub h)")
      case True
      then show ?thesis using assms None h receiveChainKey_typed [OF assms(1,2)] by (auto simp: receive_def split: prod.splits)
    next
      case False
      then obtain r1 r2 u u' where s: "skipTo C (hdr_pn h) r = (Inr u, r1)" "stepRatchet C (hdr_ratchetPub h) (r1, tape) = (Inr u', (r2, tape'))"
        "receiveChainKey C h r2 = (Inr (mk, sk), r')"
        using assms(3) None h by (auto simp: receive_def split: if_splits prod.splits sum.splits)
      have "typedRatchet r1" using skipTo_typed [OF assms(1,2), of "hdr_pn h"] s(1) by simp
      then have "typedRatchet r2" by (rule stepRatchet_typed [OF assms(1) _ h s(2)])
      then show ?thesis by (rule receiveChainKey_typed [OF assms(1) _ s(3)])
    qed
  qed
qed

lemma adopt_typed: "typedRatchet ra \<Longrightarrow> typedSession s \<Longrightarrow> typedSession (adopt now k ra s)"
  by (auto simp: adopt_def typedSession_def typedRatchet_def forget_def Let_def)

lemma newSession_typed:
  assumes "hash_lengths C" "\<forall>e. ownKey = Some e \<longrightarrow> length e = 32" "\<forall>e. peerKey = Some e \<longrightarrow> length e = 32"
    "newSession C now prk th4 p r peerKey ownKey tape = (Inr s, tape')"
  shows "typedSession s"
proof (cases r)
  case roleInitiator
  then obtain pk where pk: "peerKey = Some pk" using assms(4) by (cases peerKey) (auto simp: newSession_def bindS_eq_Inr failS_def)
  obtain ra where ra: "newRatchetInitiator C (c_expand C prk (toBytes labelRootKey @ th4) 32) pk tape = (Inr ra, tape')"
    "s_ratchet s = ra" "s_associated s = c_expand C prk (toBytes labelAssociatedTag @ th4) 32"
    using assms(4) unfolding roleInitiator pk newSession_initiator_Inr by auto
  obtain sk dh a b where k: "length sk = 32" "kdfRootKey C (c_expand C prk (toBytes labelRootKey @ th4) 32) dh = Inr (a, b)"
    "rootKey ra = a" "sendKey ra = sk" "receiveKey ra = Some pk" "sendChain ra = Some b" "receiveChain ra = None" "skipped ra = (\<lambda>_. None)"
    using ra(1) by (auto simp: newRatchetInitiator_def bindS_eq_Inr liftS_def retS_def dest: draw_typed split: prod.splits)
  show ?thesis using k assms(1,3) pk ra(2,3) root_typed [OF assms(1) k(2)] by (simp add: typedSession_def typedRatchet_def hash_lengths_def)
next
  case roleResponder
  then obtain e where e: "ownKey = Some e" using assms(4) by (cases ownKey) (auto simp: newSession_def bindS_eq_Inr failS_def)
  show ?thesis using assms(1,2,4) e roleResponder
    by (auto simp: newSession_def bindS_eq_Inr liftS_def retS_def hkdfExpand_def keySize_def newRatchetResponder_def typedSession_def typedRatchet_def
        hash_lengths_def split: if_splits)
qed

lemma encrypt_typed:
  assumes "hash_lengths C" "typedSession s"
  shows "typedSession (snd (encrypt C m s))"
proof -
  have r: "typedRatchet (snd (ratchetNext C (s_ratchet s)))"
    using assms by (auto simp: ratchetNext_def typedSession_def typedRatchet_def split: prod.splits dest: chain_typed)
  then show ?thesis using assms(2)
    by (auto simp: encrypt_def typedSession_def Let_def split: prod.splits sum.splits)
qed

lemma decrypt_typed:
  assumes "hash_lengths C" "typedSession s"
  shows "typedSession (fst (snd (decrypt C now rec (s, tape))))"
proof (cases "fst (decrypt C now rec (s, tape))")
  case (Inl e)
  then show ?thesis using assms(2) by (auto simp: decrypt_def Let_def split: if_splits prod.splits sum.splits option.splits)
next
  case (Inr p)
  then obtain s' tape' where d: "decrypt C now rec (s, tape) = (Inr p, (s', tape'))" by (metis prod.collapse)
  then obtain h mk fk ra where r: "receive C h (s_ratchet s, tape) = (Inr (mk, fk), (ra, tape'))" "s' = adopt now fk ra s"
    unfolding decrypt_Inr [OF assms(1)] by blast
  show ?thesis using d r(2) adopt_typed receive_typed [OF assms(1) _ r(1)] assms(2) by (simp add: typedSession_def)
qed

lemma messageKeys_typed:
  assumes "hash_lengths C"
  shows "\<exists>key nonce. messageKeys C mk = Inr (key, nonce) \<and> length key = 32 \<and> length nonce = 12"
  using assms by (simp add: messageKeys_def hkdfNew_ok keySize_def nonceSize_def hash_lengths_def)

section \<open>Properties\<close>

text \<open>C11: a session is well typed for as long as it lives. Sessions made by either role have a root key, a ratchet key
  and an associated tag of 32 bytes; encrypting and decrypting, whether they succeed or fail and whatever record arrives,
  keep every key of the session at 32 bytes, the stored keys of messages that have not come included; and the key and
  nonce derived for a message have the 32 and 12 bytes its cipher takes.\<close>

theorem session_keys_typed:
  assumes "hash_lengths C"
  shows "((\<forall>e. ownKey = Some e \<longrightarrow> length e = 32) \<and> (\<forall>e. peerKey = Some e \<longrightarrow> length e = 32)
       \<and> newSession C now prk th4 p r peerKey ownKey tape = (Inr s0, tape') \<longrightarrow> typedSession s0)
     \<and> (typedSession s \<longrightarrow> typedSession (snd (encrypt C m s)) \<and> typedSession (fst (snd (decrypt C now rec (s, tape)))))
     \<and> (\<exists>key nonce. messageKeys C mk = Inr (key, nonce) \<and> length key = 32 \<and> length nonce = 12)"
  using newSession_typed [OF assms] encrypt_typed [OF assms] decrypt_typed [OF assms] messageKeys_typed [OF assms] by blast

theorem session_keys_typed_witness:
  "\<exists>s0. newSession plainCrypto 7 [1] [2] (s_peer sampleSession) roleResponder None (Some (replicate 32 2)) [] = (Inr s0, [])
     \<and> typedSession s0 \<and> typedSession (fst (snd (decrypt plainCrypto 9 [3] (s0, []))))"
proof -
  obtain s0 where s: "newSession plainCrypto 7 [1] [2] (s_peer sampleSession) roleResponder None (Some (replicate 32 2)) [] = (Inr s0, [])"
    by (simp add: newSession_def bindS_eq_Inr liftS_def retS_def hkdfExpand_def keySize_def bindS_def)
  have h: "hash_lengths plainCrypto" by (rule crypto_law_parts(1) [OF plainCrypto_law])
  note t = session_keys_typed [OF h]
  have "typedSession s0" using t [where ownKey = "Some (replicate 32 2)" and peerKey = None and ?s0.0 = s0 and now = 7 and prk = "[1]" and ?th4.0 = "[2]"
      and p = "s_peer sampleSession" and r = roleResponder and tape = "[]" and tape' = "[]"] s by auto
  then show ?thesis using t [where s = s0 and now = 9 and rec = "[3]" and tape = "[]"] s by blast
qed

end
