(* ===== verification/GoUnicode.thy ===== *)
theory GoUnicode
  imports GoText
begin

text \<open>
  Go strings as UTF-8: the runes a \<^verbatim>\<open>range\<close> loop over a string yields, with U+FFFD for a byte that
  starts no well-formed sequence, the encoding \<^verbatim>\<open>WriteRune\<close> appends, and the character classes of
  package \<^verbatim>\<open>unicode\<close>. \<^verbatim>\<open>IsGraphic\<close> outside Latin-1 is a table of the library and stays a parameter.
\<close>

section \<open>Encoding and decoding\<close>

definition validRune :: "nat \<Rightarrow> bool" where
  "validRune r \<longleftrightarrow> r < 0xD800 \<or> (0xE000 \<le> r \<and> r \<le> 0x10FFFF)"

definition runeBytes :: "nat \<Rightarrow> bytes" where
  "runeBytes r =
     (if r < 0x80 then [of_nat r]
      else if r < 0x800 then [of_nat (0xC0 + r div 64), of_nat (0x80 + r mod 64)]
      else if r < 0x10000 then
        [of_nat (0xE0 + r div 4096), of_nat (0x80 + r div 64 mod 64), of_nat (0x80 + r mod 64)]
      else [of_nat (0xF0 + r div 262144), of_nat (0x80 + r div 4096 mod 64),
            of_nat (0x80 + r div 64 mod 64), of_nat (0x80 + r mod 64)])"

definition utf8 :: "nat list \<Rightarrow> bytes" where "utf8 rs = concat (map runeBytes rs)"

definition within :: "nat \<Rightarrow> nat \<Rightarrow> byte \<Rightarrow> bool" where
  "within lo hi b \<longleftrightarrow> lo \<le> unat b \<and> unat b \<le> hi"

text \<open>The rune a string starts with, and how many bytes after the first belong to it.\<close>

definition decodeRune :: "byte \<Rightarrow> bytes \<Rightarrow> nat \<times> nat" where
  "decodeRune b bs =
     (let x = unat b; c = (\<lambda>i. unat (bs ! i) - 0x80) in
      if x < 0x80 then (x, 0)
      else if 0xC2 \<le> x \<and> x \<le> 0xDF \<and> 1 \<le> length bs \<and> within 0x80 0xBF (bs ! 0)
        then ((x - 0xC0) * 64 + c 0, 1)
      else if 0xE0 \<le> x \<and> x \<le> 0xEF \<and> 2 \<le> length bs
          \<and> within (if x = 0xE0 then 0xA0 else 0x80) (if x = 0xED then 0x9F else 0xBF) (bs ! 0)
          \<and> within 0x80 0xBF (bs ! 1)
        then ((x - 0xE0) * 4096 + c 0 * 64 + c 1, 2)
      else if 0xF0 \<le> x \<and> x \<le> 0xF4 \<and> 3 \<le> length bs
          \<and> within (if x = 0xF0 then 0x90 else 0x80) (if x = 0xF4 then 0x8F else 0xBF) (bs ! 0)
          \<and> within 0x80 0xBF (bs ! 1) \<and> within 0x80 0xBF (bs ! 2)
        then ((x - 0xF0) * 262144 + c 0 * 4096 + c 1 * 64 + c 2, 3)
      else (0xFFFD, 0))"

function runes :: "bytes \<Rightarrow> nat list" where
  "runes [] = []"
| "runes (b # bs) = (case decodeRune b bs of (r, k) \<Rightarrow> r # runes (drop k bs))"
  by pat_completeness auto
termination
  by (relation "measure length") auto

lemma unat_small: "n < 256 \<Longrightarrow> unat (of_nat n :: byte) = n"
  by (simp add: unat_of_nat)

lemma digits64: "r div 64 * 64 + r mod 64 = (r :: nat)" "r mod 64 < 64"
  by simp_all

lemma decode_runeBytes:
  assumes "validRune r"
  shows "\<exists>b bs. runeBytes r = b # bs \<and> decodeRune b (bs @ rest) = (r, length bs)"
proof -
  define a where "a = r mod 64"
  define q where "q = r div 64"
  define b where "b = q mod 64"
  define p where "p = q div 64"
  define c where "c = p mod 64"
  define o' where "o' = p div 64"
  have r: "r = q * 64 + a" "q = p * 64 + b" "p = o' * 64 + c" and lt: "a < 64" "b < 64" "c < 64"
    by (simp_all add: a_def q_def b_def p_def c_def o'_def)
  have d: "r div 4096 = p" "r div 262144 = o'" "r div 4096 mod 64 = c" "r div 64 mod 64 = b"
    by (simp_all add: p_def q_def o'_def c_def b_def div_mult2_eq [symmetric])
  consider "r < 0x80" | "0x80 \<le> r" "r < 0x800" | "0x800 \<le> r" "r < 0x10000" | "0x10000 \<le> r" by linarith
  then show ?thesis
  proof cases
    case 1
    then show ?thesis by (simp add: runeBytes_def decodeRune_def unat_small)
  next
    case 2
    then have "2 \<le> q" "q \<le> 31" using r lt by linarith+
    then show ?thesis using 2 r(1) lt
      by (simp add: runeBytes_def a_def [symmetric] q_def [symmetric] decodeRune_def unat_small within_def Let_def del: of_nat_add of_nat_mult of_nat_numeral)
  next
    case 3
    then have p: "p \<le> 15" "p = 0 \<Longrightarrow> 32 \<le> b" "p = 13 \<Longrightarrow> b \<le> 31" using r lt assms unfolding validRune_def by linarith+
    have rb: "runeBytes r = [of_nat (0xE0 + p), of_nat (0x80 + b), of_nat (0x80 + a)]"
      using 3 by (simp add: runeBytes_def d a_def [symmetric])
    have "r = p * 4096 + b * 64 + a" using r(1,2) by simp
    then show ?thesis using p lt unfolding rb
      by (simp add: decodeRune_def unat_small within_def Let_def del: of_nat_add of_nat_mult of_nat_numeral)
  next
    case 4
    then have p: "o' \<le> 4" "o' = 0 \<Longrightarrow> 16 \<le> c" "o' = 4 \<Longrightarrow> c \<le> 15" using r lt assms unfolding validRune_def by linarith+
    have rb: "runeBytes r = [of_nat (0xF0 + o'), of_nat (0x80 + c), of_nat (0x80 + b), of_nat (0x80 + a)]"
      using 4 by (simp add: runeBytes_def d a_def [symmetric] c_def [symmetric])
    have "r = o' * 262144 + c * 4096 + b * 64 + a" using r by simp
    then show ?thesis using p lt unfolding rb
      by (simp add: decodeRune_def unat_small within_def Let_def del: of_nat_add of_nat_mult of_nat_numeral)
  qed
qed

lemma runes_utf8: "list_all validRune rs \<Longrightarrow> runes (utf8 rs) = rs"
proof (induction rs)
  case Nil
  then show ?case by (simp add: utf8_def)
next
  case (Cons r rs)
  then obtain b bs where "runeBytes r = b # bs" "decodeRune b (bs @ utf8 rs) = (r, length bs)"
    using decode_runeBytes [of r "utf8 rs"] by auto
  then show ?case using Cons by (simp add: utf8_def)
qed

lemma decodeRune_valid: "validRune (fst (decodeRune b bs))"
proof -
  have b: "unat b < 256" by (rule unat_bounds)
  show ?thesis
    by (auto simp: decodeRune_def validRune_def within_def Let_def split: if_splits)
qed

lemma runes_valid: "list_all validRune (runes s)"
proof (induction s rule: runes.induct)
  case 1
  then show ?case by simp
next
  case (2 b bs)
  obtain r k where d: "decodeRune b bs = (r, k)" by (cases "decodeRune b bs")
  then have "validRune r" using decodeRune_valid [of b bs] by simp
  then show ?case using 2 d by simp
qed

section \<open>White space\<close>

definition isSpaceRune :: "nat \<Rightarrow> bool" where
  "isSpaceRune r \<longleftrightarrow> r \<in> {9, 10, 11, 12, 13, 0x20, 0x85, 0xA0, 0x1680, 0x2028, 0x2029, 0x202F, 0x205F, 0x3000}
     \<or> (0x2000 \<le> r \<and> r \<le> 0x200A)"

text \<open>
  \<^verbatim>\<open>strings.TrimSpace\<close> drops whole encodings of white space from both ends and keeps every other byte,
  well-formed or not.
\<close>

definition spaceCodes :: "bytes list" where
  "spaceCodes = map runeBytes [9, 10, 11, 12, 13, 0x20, 0x85, 0xA0, 0x1680, 0x2000, 0x2001, 0x2002, 0x2003, 0x2004, 0x2005,
     0x2006, 0x2007, 0x2008, 0x2009, 0x200A, 0x2028, 0x2029, 0x202F, 0x205F, 0x3000]"

function dropCodes :: "bytes list \<Rightarrow> bytes \<Rightarrow> bytes" where
  "dropCodes ps b =
     (case find (\<lambda>p. p \<noteq> [] \<and> take (length p) b = p) ps of
        None \<Rightarrow> b
      | Some p \<Rightarrow> dropCodes ps (drop (length p) b))"
  by pat_completeness auto
termination
proof (relation "measure (\<lambda>(ps, b). length b)", goal_cases)
  case 1
  then show ?case by simp
next
  case (2 ps b p)
  then have "p \<noteq> []" "take (length p) b = p" by (auto simp: find_Some_iff)
  then have "0 < length p" "b \<noteq> []" by auto
  then show ?case by simp
qed

declare dropCodes.simps [simp del]

definition trimSpace :: "string \<Rightarrow> string" where
  "trimSpace s = ofBytes (rev (dropCodes (map rev spaceCodes) (rev (dropCodes spaceCodes (toBytes s)))))"

lemma spaceCodes_ends:
  "p \<in> set spaceCodes \<Longrightarrow> unat (hd p) \<le> 0x20 \<or> 0x80 \<le> unat (hd p)"
  "p \<in> set spaceCodes \<Longrightarrow> unat (last p) \<le> 0x20 \<or> 0x80 \<le> unat (last p)"
  by (auto simp: spaceCodes_def runeBytes_def)

lemma dropCodes_none:
  assumes "\<And>p. p \<in> set ps \<Longrightarrow> p \<noteq> [] \<Longrightarrow> b \<noteq> [] \<Longrightarrow> hd b \<noteq> hd p"
  shows "dropCodes ps b = b"
proof -
  have "find (\<lambda>p. p \<noteq> [] \<and> take (length p) b = p) ps = None"
    unfolding find_None_iff using assms by (metis append_take_drop_id append_is_Nil_conv hd_append2)
  then show ?thesis by (simp add: dropCodes.simps)
qed

lemma trimSpace_none:
  assumes "s = [] \<or> 0x20 < unat (byteOf (hd s)) \<and> unat (byteOf (hd s)) < 0x80 \<and> 0x20 < unat (byteOf (last s)) \<and> unat (byteOf (last s)) < 0x80"
  shows "trimSpace s = s"
proof -
  have 1: "dropCodes spaceCodes (toBytes s) = toBytes s"
    using assms by (intro dropCodes_none) (auto simp: toBytes_def hd_map dest!: spaceCodes_ends(1))
  have 2: "dropCodes (map rev spaceCodes) (rev (toBytes s)) = rev (toBytes s)"
    using assms by (intro dropCodes_none) (auto simp: toBytes_def hd_rev last_map dest!: spaceCodes_ends(2))
  show ?thesis by (simp add: trimSpace_def 1 2)
qed

end
