(* ===== verification/Profile.thy ===== *)
theory Profile
  imports GoUnicode
begin

text \<open>
  \<^verbatim>\<open>internal/profile/profile.go\<close>: the sanitising of nicknames, which is applied to everything a peer
  sends as well, and the preference file with its in-memory copy.
\<close>

section \<open>Character classes\<close>

definition isControl :: "nat \<Rightarrow> bool" where
  "isControl r \<longleftrightarrow> r \<le> 0x1F \<or> (0x7F \<le> r \<and> r \<le> 0x9F)"

definition isGraphic :: "(nat \<Rightarrow> bool) \<Rightarrow> nat \<Rightarrow> bool" where
  "isGraphic table r \<longleftrightarrow>
     (if r \<le> 0xFF then (0x20 \<le> r \<and> r \<le> 0x7E) \<or> (0xA0 \<le> r \<and> r \<noteq> 0xAD) else table r)"

definition trimRunes :: "nat list \<Rightarrow> nat list" where
  "trimRunes rs = rev (dropWhile isSpaceRune (rev (dropWhile isSpaceRune rs)))"

text \<open>\<^verbatim>\<open>strings.Fields\<close> and \<^verbatim>\<open>strings.Join\<close> with one space.\<close>

function fields :: "nat list \<Rightarrow> nat list list" where
  "fields rs =
     (case dropWhile isSpaceRune rs of
        [] \<Rightarrow> []
      | r # rest \<Rightarrow> takeWhile (\<lambda>x. \<not> isSpaceRune x) (r # rest) # fields (dropWhile (\<lambda>x. \<not> isSpaceRune x) (r # rest)))"
  by pat_completeness auto
termination
proof (relation "measure length", goal_cases)
  case 1
  then show ?case by simp
next
  case (2 rs r rest)
  then have "length (r # rest) \<le> length rs" by (metis length_dropWhile_le)
  moreover have "\<not> isSpaceRune r" using 2 by (metis hd_dropWhile list.distinct(1) list.sel(1))
  then have "length (dropWhile (\<lambda>x. \<not> isSpaceRune x) (r # rest)) < length (r # rest)"
    by (simp add: le_imp_less_Suc length_dropWhile_le)
  ultimately show ?case by simp
qed

declare fields.simps [simp del]

fun joinSpace :: "nat list list \<Rightarrow> nat list" where
  "joinSpace [] = []"
| "joinSpace [f] = f"
| "joinSpace (f # g # fs) = f @ 0x20 # joinSpace (g # fs)"

section \<open>Nicknames\<close>

definition MaxNicknameLength :: nat where "MaxNicknameLength = 24"

definition isRuneStart :: "byte \<Rightarrow> bool" where
  "isRuneStart b \<longleftrightarrow> b AND 0xC0 \<noteq> 0x80"

fun cutAt :: "bytes \<Rightarrow> nat \<Rightarrow> nat" where
  "cutAt s 0 = 0"
| "cutAt s (Suc c) = (if \<not> isRuneStart (s ! Suc c) then cutAt s c else Suc c)"

definition truncate :: "bytes \<Rightarrow> nat \<Rightarrow> bytes" where
  "truncate s n = (if length s \<le> n then s else take (cutAt s n) s)"

definition cleanRune :: "(nat \<Rightarrow> bool) \<Rightarrow> nat \<Rightarrow> nat list" where
  "cleanRune table r =
     (if r = 10 \<or> r = 13 \<or> r = 9 then [0x20]
      else if r = 0x7F \<or> isControl r then []
      else if \<not> isGraphic table r \<and> r \<noteq> 0x20 then []
      else [r])"

definition cleanNickname :: "(nat \<Rightarrow> bool) \<Rightarrow> string \<Rightarrow> string" where
  "cleanNickname table nickname =
     (let b = concat (map (cleanRune table) (runes (toBytes nickname)));
          out = utf8 (joinSpace (fields (trimRunes b)))
      in ofBytes (if length out > MaxNicknameLength
                  then utf8 (trimRunes (runes (truncate out MaxNicknameLength))) else out))"

section \<open>What a clean nickname looks like\<close>

text \<open>One line, nothing that controls a terminal, no run of blanks and none at the ends.\<close>

definition plainRunes :: "(nat \<Rightarrow> bool) \<Rightarrow> nat list \<Rightarrow> bool" where
  "plainRunes table rs \<longleftrightarrow> (\<forall>r \<in> set rs. validRune r \<and> \<not> isControl r \<and> isGraphic table r \<and> (isSpaceRune r \<longrightarrow> r = 0x20))"

fun singleSpaced :: "nat list \<Rightarrow> bool" where
  "singleSpaced [] \<longleftrightarrow> True"
| "singleSpaced [r] \<longleftrightarrow> True"
| "singleSpaced (r # s # rs) \<longleftrightarrow> \<not> (r = 0x20 \<and> s = 0x20) \<and> singleSpaced (s # rs)"

definition tidy :: "nat list \<Rightarrow> bool" where
  "tidy rs \<longleftrightarrow> singleSpaced rs \<and> (rs \<noteq> [] \<longrightarrow> \<not> isSpaceRune (hd rs) \<and> \<not> isSpaceRune (last rs))"

lemma singleSpaced_iff: "singleSpaced rs \<longleftrightarrow> (\<forall>xs ys. rs \<noteq> xs @ 0x20 # 0x20 # ys)"
proof (induction rs rule: singleSpaced.induct)
  case (3 r s rs)
  have "(\<exists>xs ys. r # s # rs = xs @ 0x20 # 0x20 # ys) \<longleftrightarrow> (r = 0x20 \<and> s = 0x20) \<or> (\<exists>xs ys. s # rs = xs @ 0x20 # 0x20 # ys)"
    by (simp add: Cons_eq_append_conv) blast
  with 3 show ?case by auto
qed (simp_all add: Cons_eq_append_conv)

lemma singleSpaced_infix: "singleSpaced (a @ rs @ b) \<Longrightarrow> singleSpaced rs"
  unfolding singleSpaced_iff by (metis append.assoc append_Cons)

lemma trimRunes_infix: "\<exists>a b. rs = a @ trimRunes rs @ b"
proof -
  have "rs = takeWhile isSpaceRune rs @ dropWhile isSpaceRune rs" by simp
  moreover have "dropWhile isSpaceRune rs = trimRunes rs @ rev (takeWhile isSpaceRune (rev (dropWhile isSpaceRune rs)))"
    unfolding trimRunes_def by (metis rev_append rev_rev_ident takeWhile_dropWhile_id)
  ultimately show ?thesis by metis
qed

lemma trimRunes_ends:
  assumes "trimRunes rs \<noteq> []"
  shows "\<not> isSpaceRune (hd (trimRunes rs))" "\<not> isSpaceRune (last (trimRunes rs))"
proof -
  show "\<not> isSpaceRune (hd (trimRunes rs))"
  proof -
    have "dropWhile isSpaceRune (trimRunes rs) = trimRunes rs" unfolding trimRunes_def by (rule dropWhile_trim)
    then show ?thesis using assms by (metis hd_dropWhile)
  qed
  show "\<not> isSpaceRune (last (trimRunes rs))"
    using assms by (metis hd_dropWhile last_rev rev_is_Nil_conv trimRunes_def)
qed

lemma trimRunes_id: "tidy rs \<Longrightarrow> trimRunes rs = rs"
proof (cases rs)
  case (Cons r rest)
  assume t: "tidy rs"
  then have "dropWhile isSpaceRune rs = rs" using Cons by (simp add: tidy_def)
  moreover have "dropWhile isSpaceRune (rev rs) = rev rs"
    using t Cons by (cases "rev rs") (auto simp: tidy_def hd_rev [symmetric])
  ultimately show ?thesis by (simp add: trimRunes_def)
qed (simp add: trimRunes_def)

lemma tidy_trim: "singleSpaced rs \<Longrightarrow> tidy (trimRunes rs)"
  using trimRunes_infix [of rs] trimRunes_ends [of rs] singleSpaced_infix unfolding tidy_def by metis

lemma plain_subset: "plainRunes t rs \<Longrightarrow> set rs' \<subseteq> set rs \<Longrightarrow> plainRunes t rs'"
  by (auto simp: plainRunes_def)

lemma trimRunes_subset: "set (trimRunes rs) \<subseteq> set rs"
  using trimRunes_infix [of rs] by (metis Un_upper1 Un_upper2 set_append subset_trans)

lemma fields_words:
  "f \<in> set (fields rs) \<Longrightarrow> f \<noteq> [] \<and> (\<forall>r \<in> set f. \<not> isSpaceRune r) \<and> set f \<subseteq> set rs"
proof (induction rs rule: fields.induct)
  case (1 rs)
  show ?case
  proof (cases "dropWhile isSpaceRune rs")
    case Nil
    then have "fields rs = []" by (simp only: fields.simps [of rs] list.case)
    then show ?thesis using "1.prems" by simp
  next
    case (Cons r rest)
    let ?w = "takeWhile (\<lambda>x. \<not> isSpaceRune x) (r # rest)" and ?d = "dropWhile (\<lambda>x. \<not> isSpaceRune x) (r # rest)"
    have sub: "set (r # rest) \<subseteq> set rs" using Cons by (metis set_dropWhileD subsetI)
    have "\<not> isSpaceRune r" using Cons by (metis hd_dropWhile list.distinct(1) list.sel(1))
    then have w: "?w \<noteq> []" by simp
    from "1.prems" have "f = ?w \<or> f \<in> set (fields ?d)" by (simp only: fields.simps [of rs] Cons list.case list.set insert_iff)
    then show ?thesis
    proof
      assume f: "f = ?w"
      then show ?thesis using w sub set_takeWhileD by fastforce
    next
      assume f: "f \<in> set (fields ?d)"
      have "set ?d \<subseteq> set (r # rest)" using set_dropWhileD by fastforce
      with "1.IH" [OF Cons f] sub show ?thesis by (meson subset_trans)
    qed
  qed
qed

lemma isSpace_blank: "isSpaceRune 0x20"
  by (simp add: isSpaceRune_def)

lemma joinSpace_tidy:
  "\<forall>f \<in> set fs. f \<noteq> [] \<and> (\<forall>r \<in> set f. \<not> isSpaceRune r) \<Longrightarrow>
     tidy (joinSpace fs) \<and> set (joinSpace fs) \<subseteq> insert 0x20 (\<Union> (set ` set fs))"
proof (induction fs rule: joinSpace.induct)
  case 1
  then show ?case by (simp add: tidy_def)
next
  case (2 f)
  have f: "f \<noteq> []" "\<forall>r \<in> set f. \<not> isSpaceRune r" using 2 by auto
  have "0x20 \<notin> set f" using f(2) isSpace_blank by blast
  then have "\<not> (\<exists>xs ys. f = xs @ 0x20 # 0x20 # ys)" by (metis in_set_conv_decomp)
  then have "singleSpaced f" by (simp add: singleSpaced_iff)
  then have "tidy f" using f by (simp add: tidy_def)
  then show ?case by auto
next
  case (3 f g fs)
  let ?j = "joinSpace (g # fs)"
  have ih: "tidy ?j" "set ?j \<subseteq> insert 0x20 (\<Union> (set ` set (g # fs)))" using 3 by auto
  have f: "f \<noteq> []" "\<forall>r \<in> set f. \<not> isSpaceRune r" using "3.prems" by auto
  have g: "g \<noteq> []" using "3.prems" by simp
  have ne: "?j \<noteq> []"
  proof (cases fs)
    case Nil
    then show ?thesis using g by simp
  next
    case (Cons a l)
    then show ?thesis by (simp only: joinSpace.simps) simp
  qed
  have "\<not> isSpaceRune (hd ?j)" using ih(1) ne unfolding tidy_def by blast
  then have hd: "hd ?j \<noteq> 0x20" using isSpace_blank by metis
  have "0x20 \<notin> set f" using f(2) isSpace_blank by blast
  have "f @ 0x20 # ?j \<noteq> xs @ 0x20 # 0x20 # ys" for xs ys
  proof
    assume e: "f @ 0x20 # ?j = xs @ 0x20 # 0x20 # ys"
    have "xs = f \<or> (\<exists>zs. xs = f @ 0x20 # zs)"
    proof -
      from e consider us where "f = xs @ us" "us @ 0x20 # ?j = 0x20 # 0x20 # ys" | us where "f @ us = xs" "0x20 # ?j = us @ 0x20 # 0x20 # ys"
        by (auto simp: append_eq_append_conv2)
      then show ?thesis
      proof cases
        case (1 us)
        then show ?thesis using \<open>0x20 \<notin> set f\<close> by (cases us) auto
      next
        case (2 us)
        then show ?thesis by (cases us) auto
      qed
    qed
    then show False
    proof
      assume "xs = f"
      with e have "?j = 0x20 # ys" by simp
      with hd show False by simp
    next
      assume "\<exists>zs. xs = f @ 0x20 # zs"
      with e have "\<exists>zs. ?j = zs @ 0x20 # 0x20 # ys" by auto
      with ih(1) show False by (auto simp: tidy_def singleSpaced_iff)
    qed
  qed
  then have "singleSpaced (f @ 0x20 # ?j)" unfolding singleSpaced_iff by blast
  moreover have "\<not> isSpaceRune (hd (f @ 0x20 # ?j))" using f by simp
  moreover have "\<not> isSpaceRune (last (f @ 0x20 # ?j))" using ih(1) ne by (simp add: tidy_def)
  moreover have "set (f @ 0x20 # ?j) \<subseteq> insert 0x20 (\<Union> (set ` set (f # g # fs)))" using ih(2) by auto
  ultimately show ?case unfolding tidy_def joinSpace.simps by blast
qed

lemma join_fields:
  assumes "singleSpaced rs" "\<forall>r \<in> set rs. isSpaceRune r \<longrightarrow> r = 0x20" "rs \<noteq> [] \<Longrightarrow> \<not> isSpaceRune (last rs)"
  shows "joinSpace (fields rs) = dropWhile isSpaceRune rs"
  using assms
proof (induction rs rule: fields.induct)
  case (1 rs)
  show ?case
  proof (cases "dropWhile isSpaceRune rs")
    case Nil
    then have "fields rs = []" by (simp only: fields.simps [of rs] list.case)
    then show ?thesis using Nil by (simp only: joinSpace.simps)
  next
    case (Cons r rest)
    let ?w = "takeWhile (\<lambda>x. \<not> isSpaceRune x) (r # rest)"
    define d where "d = dropWhile (\<lambda>x. \<not> isSpaceRune x) (r # rest)"
    have fs: "fields rs = ?w # fields d" by (simp only: fields.simps [of rs] Cons list.case d_def)
    have wd: "r # rest = ?w @ d" unfolding d_def by (simp only: takeWhile_dropWhile_id)
    obtain pre where rs: "rs = pre @ ?w @ d" using Cons wd by (metis takeWhile_dropWhile_id)
    show ?thesis
    proof (cases d)
      case Nil
      have "fields [] = []" by (simp add: fields.simps)
      then have "joinSpace (fields rs) = ?w" by (simp only: fs Nil joinSpace.simps)
      then show ?thesis using Cons wd Nil by simp
    next
      case (Cons x d')
      have "isSpaceRune x" using Cons unfolding d_def by (metis hd_dropWhile list.distinct(1) list.sel(1))
      then have x: "x = 0x20" using "1.prems"(2) rs Cons by simp
      have "rs \<noteq> []" using rs Cons by simp
      then have last: "\<not> isSpaceRune (last d)" using "1.prems"(3) rs Cons by simp
      then have ne: "d' \<noteq> []" using Cons \<open>isSpaceRune x\<close> by auto
      have ss: "singleSpaced d" using "1.prems"(1) rs singleSpaced_infix [of "pre @ ?w" d "[]"] by simp
      have "hd d' \<noteq> 0x20"
      proof
        assume "hd d' = 0x20"
        then have "d = [] @ 0x20 # 0x20 # tl d'" using Cons x ne by (cases d') auto
        with ss show False unfolding singleSpaced_iff by blast
      qed
      then have "\<not> isSpaceRune (hd d')" using "1.prems"(2) rs Cons ne by (cases d') auto
      then have dw: "dropWhile isSpaceRune d = d'" using Cons \<open>isSpaceRune x\<close> ne by (cases d') auto
      have "joinSpace (fields d) = d'"
        using "1.IH" [OF \<open>dropWhile isSpaceRune rs = r # rest\<close>, folded d_def] ss "1.prems"(2) rs last dw by simp
      moreover from this ne obtain g gs where "fields d = g # gs" by (cases "fields d") auto
      ultimately have "joinSpace (fields rs) = ?w @ 0x20 # d'" by (simp only: fs joinSpace.simps)
      then show ?thesis using \<open>dropWhile isSpaceRune rs = r # rest\<close> wd Cons x by simp
    qed
  qed
qed

section \<open>Cutting between runes\<close>

definition startsAgree :: "nat \<Rightarrow> bool" where
  "startsAgree n \<longleftrightarrow> isRuneStart (of_nat n) = (n < 0x80 \<or> 0xC0 \<le> n)"

lemma isRuneStart_iff: "isRuneStart b \<longleftrightarrow> unat b < 0x80 \<or> 0xC0 \<le> unat b"
proof -
  have a: "list_all startsAgree [0..<256]" by code_simp
  have "unat b \<in> set [0..<256]" using unat_bounds(1) [of b] by simp
  with a have "startsAgree (unat b)" unfolding list_all_iff by (rule bspec)
  then show ?thesis by (simp add: startsAgree_def)
qed

lemma runeBytes_starts:
  assumes "validRune r"
  obtains b bs where "runeBytes r = b # bs" "isRuneStart b" "\<forall>c \<in> set bs. \<not> isRuneStart c"
proof -
  have m: "x mod 64 < 64" for x :: nat by simp
  have cont: "\<not> isRuneStart (of_nat (0x80 + x mod 64))" for x
    using m [of x] by (simp add: isRuneStart_iff unat_small del: of_nat_add)
  have d: "r div 4096 < 16" if "r < 0x10000" using that by (simp add: less_mult_imp_div_less)
  have e: "r div 64 < 32" if "r < 0x800" using that by (simp add: less_mult_imp_div_less)
  have f: "r div 262144 < 5" using assms unfolding validRune_def by (intro less_mult_imp_div_less) linarith
  show thesis
  proof (cases "r < 0x80")
    case True
    then show thesis using that by (simp add: runeBytes_def isRuneStart_iff unat_small)
  next
    case False
    then consider "r < 0x800" | "0x800 \<le> r" "r < 0x10000" | "0x10000 \<le> r" by linarith
    then show thesis
    proof cases
      case 1
      then have "isRuneStart (of_nat (0xC0 + r div 64))" using e by (simp add: isRuneStart_iff unat_small del: of_nat_add)
      then show thesis using that False 1 cont [of r] by (simp add: runeBytes_def del: of_nat_add)
    next
      case 2
      then have "isRuneStart (of_nat (0xE0 + r div 4096))" using d by (simp add: isRuneStart_iff unat_small del: of_nat_add)
      then show thesis using that False 2 cont [of r] cont [of "r div 64"] by (simp add: runeBytes_def del: of_nat_add)
    next
      case 3
      then have "isRuneStart (of_nat (0xF0 + r div 262144))" using f by (simp add: isRuneStart_iff unat_small del: of_nat_add)
      then show thesis using that False 3 cont [of r] cont [of "r div 64"] cont [of "r div 4096"]
        by (simp add: runeBytes_def del: of_nat_add)
    qed
  qed
qed

lemma utf8_Cons: "utf8 (r # rs) = runeBytes r @ utf8 rs"
  by (simp add: utf8_def)

lemma take_at_start:
  "list_all validRune rs \<Longrightarrow> j < length (utf8 rs) \<Longrightarrow> isRuneStart (utf8 rs ! j) \<Longrightarrow>
     \<exists>k. take j (utf8 rs) = utf8 (take k rs)"
proof (induction rs arbitrary: j)
  case Nil
  then show ?case by (simp add: utf8_def)
next
  case (Cons r rs)
  obtain b bs where r: "runeBytes r = b # bs" "isRuneStart b" "\<forall>c \<in> set bs. \<not> isRuneStart c"
    using Cons.prems(1) runeBytes_starts by (metis list.pred_inject(2))
  consider "j = 0" | i where "j = Suc i" "i < length bs" | i where "j = length (b # bs) + i"
    by (metis add.commute add_Suc_right le_add_diff_inverse length_Cons less_Suc_eq_0_disj not_less)
  then show ?case
  proof cases
    case 1
    then have "take j (utf8 (r # rs)) = utf8 (take 0 (r # rs))" by (simp add: utf8_def)
    then show ?thesis by blast
  next
    case (2 i)
    then have "utf8 (r # rs) ! j \<in> set bs" by (simp add: utf8_Cons r(1) nth_append)
    then show ?thesis using r(3) Cons.prems(3) by blast
  next
    case (3 i)
    then have "utf8 (r # rs) ! j = utf8 rs ! i" "i < length (utf8 rs)" using Cons.prems(2)
      by (simp_all add: utf8_Cons r(1) nth_append)
    with Cons obtain k where "take i (utf8 rs) = utf8 (take k rs)" by auto
    then have "take j (utf8 (r # rs)) = utf8 (take (Suc k) (r # rs))" using 3 by (simp add: utf8_Cons r(1))
    then show ?thesis by blast
  qed
qed

lemma cutAt_start: "cutAt s n \<le> n \<and> (cutAt s n = 0 \<or> isRuneStart (s ! cutAt s n))"
  by (induction n) auto

lemma truncate_runes:
  assumes "list_all validRune rs"
  shows "\<exists>k. truncate (utf8 rs) n = utf8 (take k rs) \<and> length (truncate (utf8 rs) n) \<le> n"
proof (cases "length (utf8 rs) \<le> n")
  case True
  then have "truncate (utf8 rs) n = utf8 (take (length rs) rs)" by (simp add: truncate_def)
  with True show ?thesis by (intro exI [of _ "length rs"]) (simp add: truncate_def)
next
  case False
  let ?c = "cutAt (utf8 rs) n"
  have c: "?c \<le> n" "?c = 0 \<or> isRuneStart (utf8 rs ! ?c)" using cutAt_start by auto
  have "\<exists>k. take ?c (utf8 rs) = utf8 (take k rs)"
  proof (cases "?c = 0")
    case True
    then have "take ?c (utf8 rs) = utf8 (take 0 rs)" by (simp add: utf8_def)
    then show ?thesis by blast
  next
    case nz: False
    then show ?thesis using c False assms by (intro take_at_start) auto
  qed
  then show ?thesis using False c(1) by (auto simp: truncate_def)
qed

section \<open>The cleaned name\<close>

lemma utf8_append: "utf8 (a @ b) = utf8 a @ utf8 b"
  by (simp add: utf8_def)

lemma isGraphic_blank: "isGraphic table 0x20"
  by (simp add: isGraphic_def)

lemma cleanRune_plain:
  "x \<in> set (cleanRune table r) \<Longrightarrow> validRune r \<Longrightarrow> validRune x \<and> \<not> isControl x \<and> isGraphic table x"
  by (auto simp: cleanRune_def isGraphic_blank validRune_def isControl_def split: if_splits)

lemma cleanRune_id: "validRune r \<and> \<not> isControl r \<and> isGraphic table r \<Longrightarrow> cleanRune table r = [r]"
  by (auto simp: cleanRune_def isControl_def)

lemma blank_plain: "validRune 0x20" "\<not> isControl 0x20"
  by (simp_all add: validRune_def isControl_def)

lemma cleanNickname_runes:
  "\<exists>rs. toBytes (cleanNickname table raw) = utf8 rs \<and> plainRunes table rs \<and> tidy rs
     \<and> length (utf8 rs) \<le> MaxNicknameLength"
proof -
  let ?b = "concat (map (cleanRune table) (runes (toBytes raw)))"
  define f where "f = fields (trimRunes ?b)"
  define js where "js = joinSpace f"
  have b: "validRune x \<and> \<not> isControl x \<and> isGraphic table x" if "x \<in> set ?b" for x
    using that runes_valid [of "toBytes raw"] cleanRune_plain by (fastforce simp: list_all_iff)
  have f: "\<forall>w \<in> set f. w \<noteq> [] \<and> (\<forall>r \<in> set w. \<not> isSpaceRune r) \<and> set w \<subseteq> set ?b"
    using fields_words trimRunes_subset unfolding f_def by blast
  then have t: "tidy js" and sub: "set js \<subseteq> insert 0x20 (\<Union> (set ` set f))"
    using joinSpace_tidy [of f] unfolding js_def by blast+
  have plain: "plainRunes table js"
    unfolding plainRunes_def
  proof
    fix x
    assume "x \<in> set js"
    then have "x = 0x20 \<or> (\<exists>w \<in> set f. x \<in> set w)" using sub by blast
    then show "validRune x \<and> \<not> isControl x \<and> isGraphic table x \<and> (isSpaceRune x \<longrightarrow> x = 0x20)"
      using f b blank_plain isGraphic_blank by blast
  qed
  have valid: "list_all validRune js" using plain by (auto simp: plainRunes_def list_all_iff)
  show ?thesis
  proof (cases "length (utf8 js) > MaxNicknameLength")
    case False
    then have "cleanNickname table raw = ofBytes (utf8 js)"
      by (simp add: cleanNickname_def Let_def js_def f_def)
    with plain t False show ?thesis by (intro exI [of _ js]) simp
  next
    case True
    obtain k where k: "truncate (utf8 js) MaxNicknameLength = utf8 (take k js)" "length (utf8 (take k js)) \<le> MaxNicknameLength"
      using truncate_runes [OF valid] by metis
    have vk: "list_all validRune (take k js)" using valid by (metis append_take_drop_id list_all_append)
    define ts where "ts = trimRunes (take k js)"
    have "cleanNickname table raw = ofBytes (utf8 ts)" using True
      by (simp add: cleanNickname_def Let_def js_def [symmetric] f_def [symmetric] k(1) runes_utf8 [OF vk] ts_def)
    moreover have "singleSpaced (take k js)"
      using t singleSpaced_infix [of "[]" "take k js" "drop k js"] by (simp add: tidy_def)
    then have "tidy ts" unfolding ts_def by (rule tidy_trim)
    moreover have "set ts \<subseteq> set js" unfolding ts_def by (meson order_trans set_take_subset trimRunes_subset)
    then have "plainRunes table ts" using plain plain_subset by blast
    moreover obtain a c where "take k js = a @ ts @ c" unfolding ts_def using trimRunes_infix by blast
    then have "length (utf8 ts) \<le> MaxNicknameLength" using k(2) by (simp add: utf8_append)
    ultimately show ?thesis by (intro exI [of _ ts]) simp
  qed
qed

lemma cleanNickname_fixed:
  assumes "plainRunes table rs" "tidy rs" "length (utf8 rs) \<le> MaxNicknameLength"
  shows "cleanNickname table (ofBytes (utf8 rs)) = ofBytes (utf8 rs)"
proof -
  have "list_all validRune rs" using assms(1) by (auto simp: plainRunes_def list_all_iff)
  then have r: "runes (utf8 rs) = rs" by (simp add: runes_utf8)
  have "map (cleanRune table) rs = map (\<lambda>r. [r]) rs"
    using assms(1) by (auto simp: plainRunes_def intro!: cleanRune_id)
  then have c: "concat (map (cleanRune table) rs) = rs" by (simp only: concat_map_singleton map_ident)
  have "joinSpace (fields rs) = dropWhile isSpaceRune rs"
    using assms by (intro join_fields) (auto simp: tidy_def plainRunes_def)
  also have "\<dots> = rs" using assms(2) by (cases rs) (auto simp: tidy_def)
  finally have "joinSpace (fields (trimRunes rs)) = rs" by (simp add: trimRunes_id assms(2))
  then show ?thesis using assms(3) by (simp add: cleanNickname_def Let_def r c)
qed

text \<open>C31: Whatever string a peer or a user supplies, the cleaned nickname is at most 24 bytes of
  well-formed UTF-8, every rune of it is graphic and none is a control character, the only blank is
  a single space and never at an end, and cleaning it again changes nothing, so applying it on the
  sender's and on the receiver's side agree.\<close>

theorem clean_nickname_safe:
  "length (cleanNickname table raw) \<le> MaxNicknameLength
   \<and> (\<exists>rs. toBytes (cleanNickname table raw) = utf8 rs \<and> plainRunes table rs \<and> tidy rs)
   \<and> cleanNickname table (cleanNickname table raw) = cleanNickname table raw"
proof -
  obtain rs where rs: "toBytes (cleanNickname table raw) = utf8 rs" "plainRunes table rs" "tidy rs"
    "length (utf8 rs) \<le> MaxNicknameLength" using cleanNickname_runes by blast
  from rs(1) have n: "cleanNickname table raw = ofBytes (utf8 rs)" by (metis ofBytes_toBytes)
  show ?thesis using rs cleanNickname_fixed [OF rs(2-4)] unfolding n by auto
qed

section \<open>The preference file\<close>

record profile =
  p_nickname :: string
  p_groupChat :: "bool option"

text \<open>
  The computer the file lives on: whether the configuration directory can be had and written, what
  the file holds, the two environment variables, and the package variable \<^verbatim>\<open>loaded\<close>.
  The JSON encoder and decoder are \<^verbatim>\<open>encoding/json\<close>'s and parameters.
\<close>

record profileWorld =
  pw_dirOk :: bool
  pw_writeOk :: bool
  pw_file :: "bytes option"
  pw_USERNAME :: string
  pw_USER :: string
  pw_loaded :: "profile option"

record profileJson =
  pj_marshal :: "profile \<Rightarrow> bytes"
  pj_unmarshal :: "bytes \<Rightarrow> profile option"
  pj_graphic :: "nat \<Rightarrow> bool"

definition emptyProfile :: profile where
  "emptyProfile = \<lparr>p_nickname = '''', p_groupChat = None\<rparr>"

definition loadFile :: "profileJson \<Rightarrow> profileWorld \<Rightarrow> profile" where
  "loadFile J w =
     (if \<not> pw_dirOk w then emptyProfile
      else case pw_file w of
        None \<Rightarrow> emptyProfile
      | Some d \<Rightarrow> (case pj_unmarshal J d of
          None \<Rightarrow> emptyProfile
        | Some p \<Rightarrow> p\<lparr>p_nickname := cleanNickname (pj_graphic J) (p_nickname p)\<rparr>))"

definition load :: "profileJson \<Rightarrow> profileWorld \<Rightarrow> profile \<times> profileWorld" where
  "load J w = (case pw_loaded w of
     Some p \<Rightarrow> (p, w)
   | None \<Rightarrow> let p = loadFile J w in (p, w\<lparr>pw_loaded := Some p\<rparr>))"

definition save :: "profileJson \<Rightarrow> profile \<Rightarrow> profileWorld \<Rightarrow> bool \<times> profileWorld" where
  "save J p w =
     (if \<not> pw_dirOk w \<or> \<not> pw_writeOk w then (False, w)
      else (True, w\<lparr>pw_file := Some (pj_marshal J p), pw_loaded := Some p\<rparr>))"

definition accountName :: "profileWorld \<Rightarrow> string" where
  "accountName w = (if pw_USERNAME w \<noteq> '''' then pw_USERNAME w
                    else if pw_USER w \<noteq> '''' then pw_USER w else ''user'')"

definition nameOf :: "profileJson \<Rightarrow> profileWorld \<Rightarrow> string" where
  "nameOf J w = (let n = p_nickname (fst (load J w)) in if n \<noteq> '''' then n else accountName w)"

definition setNickname :: "profileJson \<Rightarrow> string \<Rightarrow> profileWorld \<Rightarrow> bool \<times> profileWorld" where
  "setNickname J nickname w =
     (case load J w of (p, w') \<Rightarrow> save J (p\<lparr>p_nickname := cleanNickname (pj_graphic J) nickname\<rparr>) w')"

definition groupChatEnabled :: "profileJson \<Rightarrow> profileWorld \<Rightarrow> bool" where
  "groupChatEnabled J w = (case p_groupChat (fst (load J w)) of None \<Rightarrow> True | Some b \<Rightarrow> b)"

definition setGroupChatEnabled :: "profileJson \<Rightarrow> bool \<Rightarrow> profileWorld \<Rightarrow> bool \<times> profileWorld" where
  "setGroupChatEnabled J enabled w = (case load J w of (p, w') \<Rightarrow> save J (p\<lparr>p_groupChat := Some enabled\<rparr>) w')"

text \<open>What the module relies on of \<^verbatim>\<open>encoding/json\<close>: a profile whose nickname is well-formed UTF-8
  reads back as it was written.\<close>

definition jsonKeeps :: "profileJson \<Rightarrow> bool" where
  "jsonKeeps J \<longleftrightarrow> (\<forall>p rs. toBytes (p_nickname p) = utf8 rs \<and> list_all validRune rs \<longrightarrow> pj_unmarshal J (pj_marshal J p) = Some p)"

definition restart :: "profileWorld \<Rightarrow> profileWorld" where
  "restart w = w\<lparr>pw_loaded := None\<rparr>"

definition cleanProfile :: "profileJson \<Rightarrow> profile \<Rightarrow> bool" where
  "cleanProfile J p \<longleftrightarrow> (\<exists>raw. p_nickname p = cleanNickname (pj_graphic J) raw)"

definition profileOk :: "profileJson \<Rightarrow> profileWorld \<Rightarrow> bool" where
  "profileOk J w \<longleftrightarrow> (\<forall>p. pw_loaded w = Some p \<longrightarrow> cleanProfile J p)"

lemma clean_twice: "cleanNickname t (cleanNickname t raw) = cleanNickname t raw"
proof -
  obtain rs where rs: "toBytes (cleanNickname t raw) = utf8 rs" "plainRunes t rs" "tidy rs"
    "length (utf8 rs) \<le> MaxNicknameLength" using cleanNickname_runes by blast
  then have "cleanNickname t raw = ofBytes (utf8 rs)" by (metis ofBytes_toBytes)
  then show ?thesis using cleanNickname_fixed [OF rs(2-4)] by simp
qed

lemma clean_empty: "cleanProfile J emptyProfile"
proof -
  have "cleanNickname (pj_graphic J) '''' = ''''"
    using cleanNickname_fixed [of "pj_graphic J" "[]"] by (simp add: plainRunes_def tidy_def utf8_def ofBytes_def)
  then show ?thesis unfolding cleanProfile_def emptyProfile_def by (metis profile.select_convs(1))
qed

lemma loadFile_clean: "cleanProfile J (loadFile J w)"
  using clean_empty by (auto simp: loadFile_def cleanProfile_def split: option.split)

lemma load_clean: "profileOk J w \<Longrightarrow> load J w = (p, w') \<Longrightarrow> cleanProfile J p \<and> profileOk J w'"
  using loadFile_clean [of J w] by (auto simp: load_def profileOk_def Let_def split: option.splits)

lemma save_restart:
  assumes "jsonKeeps J" "cleanProfile J p" "save J p w = (True, w')"
  shows "fst (load J (restart w')) = p \<and> fst (load J w') = p"
proof -
  obtain raw where raw: "p_nickname p = cleanNickname (pj_graphic J) raw" using assms(2) by (auto simp: cleanProfile_def)
  obtain rs where "toBytes (p_nickname p) = utf8 rs" "plainRunes (pj_graphic J) rs"
    unfolding raw using cleanNickname_runes by blast
  then have "pj_unmarshal J (pj_marshal J p) = Some p"
    using assms(1) by (auto simp: jsonKeeps_def plainRunes_def list_all_iff)
  moreover have "p\<lparr>p_nickname := cleanNickname (pj_graphic J) (p_nickname p)\<rparr> = p" by (simp add: raw clean_twice)
  ultimately show ?thesis using assms(3)
    by (auto simp: save_def load_def loadFile_def restart_def Let_def split: if_splits)
qed

text \<open>A preference that was reported as saved is the one in force now and the one in force after
  the program is started again, and saving the nickname leaves the group switch as it was: the name
  stored is the cleaned one, and the switch still reads as it did before.\<close>

theorem nickname_survives_restart:
  assumes "jsonKeeps J" "setNickname J nick w = (True, w')"
  shows "nameOf J (restart w') = nameOf J w'
    \<and> p_nickname (fst (load J (restart w'))) = cleanNickname (pj_graphic J) nick
    \<and> groupChatEnabled J (restart w') = groupChatEnabled J w"
proof -
  obtain p w1 where l: "load J w = (p, w1)" by (cases "load J w")
  let ?p = "p\<lparr>p_nickname := cleanNickname (pj_graphic J) nick\<rparr>"
  have s: "save J ?p w1 = (True, w')" using assms(2) l by (simp add: setNickname_def)
  have "cleanProfile J ?p" by (auto simp: cleanProfile_def)
  from save_restart [OF assms(1) this s] show ?thesis using l
    by (simp add: nameOf_def groupChatEnabled_def Let_def restart_def accountName_def)
qed

lemma group_switch_survives_restart:
  assumes "jsonKeeps J" "profileOk J w" "setGroupChatEnabled J b w = (True, w')"
  shows "groupChatEnabled J (restart w') = b \<and> nameOf J (restart w') = nameOf J w'"
proof -
  obtain p w1 where l: "load J w = (p, w1)" by (cases "load J w")
  let ?p = "p\<lparr>p_groupChat := Some b\<rparr>"
  have s: "save J ?p w1 = (True, w')" using assms(3) l by (simp add: setGroupChatEnabled_def)
  have "cleanProfile J ?p" using load_clean [OF assms(2) l] by (simp add: cleanProfile_def)
  from save_restart [OF assms(1) this s] show ?thesis
    by (simp add: nameOf_def groupChatEnabled_def Let_def restart_def accountName_def)
qed

definition sampleJson :: profileJson where
  "sampleJson = \<lparr>
     pj_marshal = (\<lambda>p. (case p_groupChat p of None \<Rightarrow> 0 | Some b \<Rightarrow> if b then 1 else 2) # toBytes (p_nickname p)),
     pj_unmarshal = (\<lambda>d. case d of [] \<Rightarrow> None
       | f # n \<Rightarrow> Some \<lparr>p_nickname = ofBytes n, p_groupChat = (if f = 0 then None else Some (f = 1))\<rparr>),
     pj_graphic = (\<lambda>r. True)\<rparr>"

definition sampleWorld :: profileWorld where
  "sampleWorld = \<lparr>pw_dirOk = True, pw_writeOk = True, pw_file = None, pw_USERNAME = ''ada'', pw_USER = '''', pw_loaded = None\<rparr>"

lemma sampleJson_keeps: "jsonKeeps sampleJson"
proof -
  have "pj_unmarshal sampleJson (pj_marshal sampleJson p) = Some p" for p
    by (cases p) (auto simp: sampleJson_def split: option.split)
  then show ?thesis by (simp add: jsonKeeps_def)
qed

theorem nickname_survives_restart_witness:
  "\<exists>w'. setNickname sampleJson ''Ada'' sampleWorld = (True, w')
     \<and> nameOf sampleJson (restart w') = nameOf sampleJson w'
     \<and> p_nickname (fst (load sampleJson (restart w'))) = cleanNickname (pj_graphic sampleJson) ''Ada''
     \<and> groupChatEnabled sampleJson (restart w') = groupChatEnabled sampleJson sampleWorld"
proof -
  obtain w' where w: "setNickname sampleJson ''Ada'' sampleWorld = (True, w')"
    by (auto simp: setNickname_def load_def save_def loadFile_def sampleWorld_def Let_def)
  then show ?thesis using nickname_survives_restart [OF sampleJson_keeps w] by blast
qed

end
