(* ===== verification/Base64.thy ===== *)
theory Base64
  imports GoText
begin

text \<open>
  \<^verbatim>\<open>encoding/base64\<close>'s \<^verbatim>\<open>StdEncoding\<close>, in which keys are kept on disk and sent to the phonebook: four
  digits for three bytes, padded with \<^verbatim>\<open>=\<close>. The decoder skips line breaks, wants the padding, and lets
  the unused low bits of the last digit be anything, as the library's does.
\<close>

definition base64Alphabet :: string where
  "base64Alphabet = ''ABCDEFGHIJKLMNOPQRSTUVWXYZabcdefghijklmnopqrstuvwxyz0123456789+/''"

definition b64Digit :: "nat \<Rightarrow> char" where
  "b64Digit n = base64Alphabet ! n"

definition b64Val :: "char \<Rightarrow> nat option" where
  "b64Val c =
     (let x = of_char c :: nat in
      if 65 \<le> x \<and> x \<le> 90 then Some (x - 65)
      else if 97 \<le> x \<and> x \<le> 122 then Some (x - 71)
      else if 48 \<le> x \<and> x \<le> 57 then Some (x + 4)
      else if x = 43 then Some 62
      else if x = 47 then Some 63
      else None)"

fun base64Encode :: "bytes \<Rightarrow> string" where
  "base64Encode [] = []"
| "base64Encode [a] = [b64Digit (unat a div 4), b64Digit (unat a mod 4 * 16), CHR ''='', CHR ''='']"
| "base64Encode [a, b] =
     [b64Digit (unat a div 4), b64Digit (unat a mod 4 * 16 + unat b div 16), b64Digit (unat b mod 16 * 4), CHR ''='']"
| "base64Encode (a # b # c # rest) =
     b64Digit (unat a div 4) # b64Digit (unat a mod 4 * 16 + unat b div 16)
       # b64Digit (unat b mod 16 * 4 + unat c div 64) # b64Digit (unat c mod 64) # base64Encode rest"

fun b64Quads :: "string \<Rightarrow> bytes option" where
  "b64Quads [] = Some []"
| "b64Quads (p # q # r # s # rest) =
     (case (b64Val p, b64Val q) of
        (Some x, Some y) \<Rightarrow>
          (case b64Val r of
             Some z \<Rightarrow>
               (case b64Val s of
                  Some w \<Rightarrow> map_option (\<lambda>t. of_nat (x * 4 + y div 16) # of_nat (y mod 16 * 16 + z div 4) # of_nat (z mod 4 * 64 + w) # t)
                              (b64Quads rest)
                | None \<Rightarrow> if s = CHR ''='' \<and> rest = [] then Some [of_nat (x * 4 + y div 16), of_nat (y mod 16 * 16 + z div 4)] else None)
           | None \<Rightarrow> if r = CHR ''='' \<and> s = CHR ''='' \<and> rest = [] then Some [of_nat (x * 4 + y div 16)] else None)
      | _ \<Rightarrow> None)"
| "b64Quads _ = None"

definition base64Decode :: "string \<Rightarrow> bytes option" where
  "base64Decode s = b64Quads (filter (\<lambda>c. c \<noteq> CHR 0x0A \<and> c \<noteq> CHR 0x0D) s)"

definition digitReads :: "nat \<Rightarrow> bool" where
  "digitReads n \<longleftrightarrow> b64Val (b64Digit n) = Some n \<and> b64Digit n \<noteq> CHR 0x0A \<and> b64Digit n \<noteq> CHR 0x0D"

lemma digit_reads:
  assumes "n < 64"
  shows "b64Val (b64Digit n) = Some n" "b64Digit n \<noteq> CHR 0x0A" "b64Digit n \<noteq> CHR 0x0D"
proof -
  have "list_all digitReads [0..<64]" by code_simp
  then have "digitReads n" using assms unfolding list_all_iff by simp
  then show "b64Val (b64Digit n) = Some n" "b64Digit n \<noteq> CHR 0x0A" "b64Digit n \<noteq> CHR 0x0D"
    by (simp_all add: digitReads_def)
qed

lemma b64Val_equals: "b64Val (CHR ''='') = None"
  by code_simp

lemma sixteenth: "(x::nat) < 256 \<Longrightarrow> x div 16 < 16" "x < 256 \<Longrightarrow> x div 64 < 4" "x < 256 \<Longrightarrow> x div 4 < 64"
  by (rule less_mult_imp_div_less, simp)+

lemma byte_parts:
  "unat (a :: byte) div 4 < 64" "unat (a :: byte) mod 4 * 16 + unat (b :: byte) div 16 < 64"
  "unat (b :: byte) mod 16 * 4 + unat (c :: byte) div 64 < 64" "unat (c :: byte) mod 64 < 64"
  "unat (a :: byte) mod 4 * 16 < 64" "unat (b :: byte) mod 16 * 4 < 64"
proof -
  have b: "unat x < 256" for x :: byte by (rule unat_bounds(1))
  note s = sixteenth(1) [OF b] sixteenth(2) [OF b] sixteenth(3) [OF b]
  have m: "x mod 4 < 4" "x mod 16 < 16" for x :: nat by simp_all
  show "unat a div 4 < 64" by (rule s(3))
  show "unat a mod 4 * 16 + unat b div 16 < 64" using m(1) [of "unat a"] s(1) [of b] by linarith
  show "unat b mod 16 * 4 + unat c div 64 < 64" using m(2) [of "unat b"] s(2) [of c] by linarith
  show "unat c mod 64 < 64" by simp
  show "unat a mod 4 * 16 < 64" using m(1) [of "unat a"] by linarith
  show "unat b mod 16 * 4 < 64" using m(2) [of "unat b"] by linarith
qed

lemma regroup:
  fixes p q :: nat
  shows "q < 16 \<Longrightarrow> (p * 16 + q) div 16 = p" "q < 16 \<Longrightarrow> (p * 16 + q) mod 16 = q"
    "q < 4 \<Longrightarrow> (p * 4 + q) div 4 = p" "q < 4 \<Longrightarrow> (p * 4 + q) mod 4 = q"
  by simp_all

lemma byte_whole:
  "(of_nat (unat (a :: byte) div 4 * 4 + (unat a mod 4 * 16 + unat (b :: byte) div 16) div 16) :: byte) = a"
  "(of_nat ((unat (a :: byte) mod 4 * 16 + unat (b :: byte) div 16) mod 16 * 16 + (unat b mod 16 * 4 + unat (c :: byte) div 64) div 4) :: byte) = b"
  "(of_nat ((unat (b :: byte) mod 16 * 4 + unat (c :: byte) div 64) mod 4 * 64 + unat c mod 64) :: byte) = c"
proof -
  have b: "unat x < 256" for x :: byte by (rule unat_bounds(1))
  note s = sixteenth(1) [OF b] sixteenth(2) [OF b]
  note r = regroup(1,2) [OF s(1)] regroup(3,4) [OF s(2)]
  show "(of_nat (unat a div 4 * 4 + (unat a mod 4 * 16 + unat b div 16) div 16) :: byte) = a"
    by (simp only: r div_mult_mod_eq) simp
  show "(of_nat ((unat a mod 4 * 16 + unat b div 16) mod 16 * 16 + (unat b mod 16 * 4 + unat c div 64) div 4) :: byte) = b"
    by (simp only: r div_mult_mod_eq) simp
  show "(of_nat ((unat b mod 16 * 4 + unat c div 64) mod 4 * 64 + unat c mod 64) :: byte) = c"
    by (simp only: r div_mult_mod_eq) simp
qed

lemma b64Quads_encode: "b64Quads (base64Encode bs) = Some bs"
proof (induction bs rule: base64Encode.induct)
  case 1
  then show ?case by simp
next
  case (2 a)
  show ?case using byte_whole(1) [of a 0]
    by (simp only: base64Encode.simps b64Quads.simps digit_reads byte_parts b64Val_equals option.case prod.case) simp
next
  case (3 a b)
  show ?case using byte_whole(1) [of a b] byte_whole(2) [of a b 0] digit_reads(1) [OF byte_parts(2) [of a b]]
    by (simp add: digit_reads(1) byte_parts b64Val_equals del: of_nat_add of_nat_mult)
next
  case (4 a b c rest)
  show ?case using byte_whole [of a b] byte_whole(3) [of b c] byte_whole(2) [of a b c]
      digit_reads(1) [OF byte_parts(2) [of a b]] digit_reads(1) [OF byte_parts(3) [of b c]]
    by (simp add: 4 digit_reads(1) byte_parts del: of_nat_add of_nat_mult)
qed

lemma base64Encode_line: "c \<in> set (base64Encode bs) \<Longrightarrow> c \<noteq> CHR 0x0A \<and> c \<noteq> CHR 0x0D"
  by (induction bs rule: base64Encode.induct) (auto simp: digit_reads(2,3) byte_parts)

lemma base64_roundtrip [simp, codec_simps]: "base64Decode (base64Encode bs) = Some bs"
proof -
  have "filter (\<lambda>c. c \<noteq> CHR 0x0A \<and> c \<noteq> CHR 0x0D) (base64Encode bs) = base64Encode bs"
    using base64Encode_line by (auto simp: filter_id_conv)
  then show ?thesis by (simp add: base64Decode_def b64Quads_encode)
qed

lemma base64Encode_inject [simp]: "base64Encode a = base64Encode b \<longleftrightarrow> a = b"
  by (metis base64_roundtrip option.inject)

lemma base64Encode_Nil [simp]: "base64Encode a = [] \<longleftrightarrow> a = []"
  using base64Encode_inject [of a "[]"] by (simp del: base64Encode_inject)

end
