(* ===== verification/Trust.thy ===== *)
theory Trust
  imports Base64 AuthPayload
begin

text \<open>
  \<^verbatim>\<open>internal/auth\<close>: the trust-on-first-use store, the \<^verbatim>\<open>TrustPolicy\<close> the handshake asks once a peer
  has proven its key, and its file on disk. The file system and the JSON encoding are parameters;
  times are nanoseconds, with Go's zero \<^verbatim>\<open>time.Time\<close> as \<^verbatim>\<open>zeroTime\<close>.
\<close>

section \<open>State\<close>

definition zeroTime :: int where "zeroTime = 0"

record trustRecord =
  tr_PublicKey :: string
  tr_FirstSeen :: int
  tr_LastSeen :: int

type_synonym peers = "string \<Rightarrow> trustRecord option"

record trustStore =
  ts_peers :: peers
  ts_path :: string

datatype trustErr =
    TrustInvalid
  | ErrKeyChanged int
  | TrustWrite

text \<open>The store in memory, the file it is persisted in, and whether that file can be written.\<close>

record trustWorld =
  tw_store :: trustStore
  tw_disk :: "string \<Rightarrow> bytes option"
  tw_writable :: "string \<Rightarrow> bool"
  tw_now :: int

text \<open>\<^verbatim>\<open>json.Unmarshal\<close> into the current shape: an error, a file without \<^verbatim>\<open>peers\<close>, or its map; and
  into the shape of version 1.\<close>

record trustJson =
  tj_marshal :: "peers \<Rightarrow> bytes"
  tj_current :: "bytes \<Rightarrow> peers option option"
  tj_legacy :: "bytes \<Rightarrow> (string \<Rightarrow> string option) option"

section \<open>Operations\<close>

definition loadFrom :: "trustJson \<Rightarrow> (string \<Rightarrow> bytes option) \<Rightarrow> string \<Rightarrow> trustStore" where
  "loadFrom J disk path =
     (let s = \<lparr>ts_peers = (\<lambda>_. None), ts_path = path\<rparr> in
      case disk path of
        None \<Rightarrow> s
      | Some d \<Rightarrow>
          (case tj_current J d of
             Some (Some m) \<Rightarrow> s\<lparr>ts_peers := m\<rparr>
           | _ \<Rightarrow>
               (case tj_legacy J d of
                  Some m \<Rightarrow> s\<lparr>ts_peers := (\<lambda>i. map_option (\<lambda>k. \<lparr>tr_PublicKey = k, tr_FirstSeen = zeroTime, tr_LastSeen = zeroTime\<rparr>) (m i))\<rparr>
                | None \<Rightarrow> s)))"

definition saveLocked :: "trustJson \<Rightarrow> trustWorld \<Rightarrow> trustErr option \<times> trustWorld" where
  "saveLocked J w =
     (let s = tw_store w in
      if ts_path s = '''' then (None, w)
      else if \<not> tw_writable w (ts_path s) then (Some TrustWrite, w)
      else (None, w\<lparr>tw_disk := (tw_disk w)(ts_path s \<mapsto> tj_marshal J (ts_peers s))\<rparr>))"

definition putPeer :: "string \<Rightarrow> trustRecord \<Rightarrow> trustWorld \<Rightarrow> trustWorld" where
  "putPeer i r w = w\<lparr>tw_store := (tw_store w)\<lparr>ts_peers := (ts_peers (tw_store w))(i \<mapsto> r)\<rparr>\<rparr>"

definition trust :: "trustJson \<Rightarrow> string \<Rightarrow> string \<Rightarrow> trustWorld \<Rightarrow> trustErr option \<times> trustWorld" where
  "trust J i publicKey w =
     (if i = '''' \<or> publicKey = '''' then (Some TrustInvalid, w)
      else case ts_peers (tw_store w) i of
        Some existing \<Rightarrow>
          if tr_PublicKey existing \<noteq> publicKey then (Some (ErrKeyChanged (tr_FirstSeen existing)), w)
          else saveLocked J (putPeer i (existing\<lparr>tr_LastSeen := tw_now w\<rparr>) w)
      | None \<Rightarrow> saveLocked J (putPeer i \<lparr>tr_PublicKey = publicKey, tr_FirstSeen = tw_now w, tr_LastSeen = tw_now w\<rparr> w))"

definition authorize :: "trustJson \<Rightarrow> string \<Rightarrow> bytes \<Rightarrow> trustWorld \<Rightarrow> trustErr option \<times> trustWorld" where
  "authorize J i publicKey = trust J i (base64Encode publicKey)"

definition isTrusted :: "string \<Rightarrow> string \<Rightarrow> trustWorld \<Rightarrow> bool" where
  "isTrusted i publicKey w = (case ts_peers (tw_store w) i of None \<Rightarrow> False | Some r \<Rightarrow> tr_PublicKey r = publicKey)"

definition known :: "string \<Rightarrow> trustWorld \<Rightarrow> trustRecord option" where
  "known i w = ts_peers (tw_store w) i"

definition forgetPeer :: "trustJson \<Rightarrow> string \<Rightarrow> trustWorld \<Rightarrow> trustErr option \<times> trustWorld" where
  "forgetPeer J i w = saveLocked J (w\<lparr>tw_store := (tw_store w)\<lparr>ts_peers := (ts_peers (tw_store w))(i := None)\<rparr>\<rparr>)"

definition fingerprint :: "crypto \<Rightarrow> string \<Rightarrow> string" where
  "fingerprint C publicKey = (case base64Decode publicKey of None \<Rightarrow> '''' | Some b \<Rightarrow> hexEncode (c_sha256 C b))"

text \<open>The store as the handshake's policy: an error of any kind refuses.\<close>

definition trustMessage :: "trustErr \<Rightarrow> string" where
  "trustMessage e = (case e of
     TrustInvalid \<Rightarrow> ''auth: invalid trusted identity''
   | ErrKeyChanged t \<Rightarrow> ''auth: this ID previously used a different identity key''
   | TrustWrite \<Rightarrow> ''write'')"

definition storePolicy :: "trustJson \<Rightarrow> trustWorld trustPolicy" where
  "storePolicy J i k w = (case authorize J i k w of (e, w') \<Rightarrow> (map_option trustMessage e, w'))"

section \<open>Continuity\<close>

text \<open>What can happen to a store while the program runs, other than the user's own \<^verbatim>\<open>Forget\<close>: peers are
  presented, the clock moves and the file becomes writable or not, and the program is started again.\<close>

inductive trust_step :: "trustJson \<Rightarrow> trustWorld \<Rightarrow> trustWorld \<Rightarrow> bool" for J where
  present: "authorize J i k w = (e, w') \<Longrightarrow> trust_step J w w'"
| outside: "trust_step J w (w\<lparr>tw_now := t, tw_writable := wr\<rparr>)"

inductive trust_run :: "trustJson \<Rightarrow> trustWorld \<Rightarrow> trustWorld \<Rightarrow> bool" for J where
  start: "trust_run J w w"
| step: "trust_run J w w1 \<Longrightarrow> trust_step J w1 w2 \<Longrightarrow> trust_run J w w2"

inductive_cases trust_stepE: "trust_step J w w'"

definition pinned :: "string \<Rightarrow> bytes \<Rightarrow> trustWorld \<Rightarrow> bool" where
  "pinned i k w \<longleftrightarrow> (\<exists>r. known i w = Some r \<and> tr_PublicKey r = base64Encode k)"

lemma saveLocked_store: "saveLocked J w = (e, w') \<Longrightarrow> tw_store w' = tw_store w"
  by (auto simp: saveLocked_def Let_def split: if_splits)

lemma saveLocked_none: "saveLocked J w = (e, w') \<Longrightarrow> e = None \<or> (e = Some TrustWrite \<and> w' = w)"
  by (auto simp: saveLocked_def Let_def split: if_splits)

lemma known_put: "known j (putPeer i r w) = (if j = i then Some r else known j w)"
  by (simp add: known_def putPeer_def)

lemma known_saved: "saveLocked J w = (e, w') \<Longrightarrow> known j w' = known j w"
  using saveLocked_store [of J w e w'] by (simp add: known_def)

lemma authorize_pins:
  assumes "authorize J i k w = (None, w')"
  shows "pinned i k w'"
proof (cases "ts_peers (tw_store w) i")
  case None
  then show ?thesis using assms
    by (auto simp: authorize_def trust_def pinned_def known_saved known_put split: if_splits)
next
  case (Some r)
  then show ?thesis using assms
    by (auto simp: authorize_def trust_def pinned_def known_saved known_put split: if_splits)
qed

lemma authorize_keeps_pin:
  assumes "authorize J j k' w = (e, w')" "pinned i k w"
  shows "pinned i k w'"
proof (cases "ts_peers (tw_store w) j")
  case None
  then have "j \<noteq> i" using assms(2) by (auto simp: pinned_def known_def)
  with None assms show ?thesis
    by (auto simp: authorize_def trust_def pinned_def known_saved known_put split: if_splits)
next
  case (Some r)
  then show ?thesis using assms
    by (auto simp: authorize_def trust_def pinned_def known_saved known_put split: if_splits)
      (auto simp: known_def)
qed

lemma run_keeps_pin: "trust_run J w w' \<Longrightarrow> pinned i k w \<Longrightarrow> pinned i k w'"
proof (induction rule: trust_run.induct)
  case (step w w1 w2)
  from step(2) have "pinned i k w1 \<longrightarrow> pinned i k w2"
    by (elim trust_stepE) (auto intro: authorize_keeps_pin, auto simp: pinned_def known_def)
  then show ?case using step by blast
qed

lemma pinned_refuses:
  assumes "pinned i k w" "i \<noteq> ''''" "k' \<noteq> k"
  shows "k' = [] \<and> authorize J i k' w = (Some TrustInvalid, w)
    \<or> (\<exists>t. authorize J i k' w = (Some (ErrKeyChanged t), w))"
  using assms by (auto simp: pinned_def known_def authorize_def trust_def)


definition sampleTrustJson :: trustJson where
  "sampleTrustJson = \<lparr>tj_marshal = (\<lambda>m. case m ''cc-A'' of None \<Rightarrow> [0]
       | Some r \<Rightarrow> of_int (tr_FirstSeen r) # of_int (tr_LastSeen r) # toBytes (tr_PublicKey r)),
     tj_current = (\<lambda>d. case d of
         f # l # k \<Rightarrow> Some (Some [''cc-A'' \<mapsto> \<lparr>tr_PublicKey = ofBytes k, tr_FirstSeen = uint f, tr_LastSeen = uint l\<rparr>])
       | [z] \<Rightarrow> if z = 0 then Some (Some (\<lambda>_. None)) else None
       | [] \<Rightarrow> None),
     tj_legacy = (\<lambda>d. None)\<rparr>"

definition sampleTrust :: trustWorld where
  "sampleTrust = \<lparr>tw_store = \<lparr>ts_peers = (\<lambda>_. None), ts_path = ''trusted_peers.json''\<rparr>,
     tw_disk = (\<lambda>_. None), tw_writable = (\<lambda>_. True), tw_now = 7\<rparr>"

definition sampleTrusted :: trustWorld where
  "sampleTrusted = sampleTrust\<lparr>tw_store := \<lparr>ts_peers = [''cc-A'' \<mapsto> \<lparr>tr_PublicKey = base64Encode [1], tr_FirstSeen = 7, tr_LastSeen = 7\<rparr>],
         ts_path = ''trusted_peers.json''\<rparr>,
       tw_disk := [''trusted_peers.json'' \<mapsto> [7, 7] @ toBytes (base64Encode [1])]\<rparr>"

lemma sample_authorize: "authorize sampleTrustJson ''cc-A'' [1] sampleTrust = (None, sampleTrusted)"
  by (simp add: sampleTrusted_def authorize_def trust_def sampleTrust_def putPeer_def saveLocked_def sampleTrustJson_def)


section \<open>The file\<close>

text \<open>What the store relies on of \<^verbatim>\<open>encoding/json\<close>.\<close>

definition trustJsonKeeps :: "trustJson \<Rightarrow> peers \<Rightarrow> bool" where
  "trustJsonKeeps J m \<longleftrightarrow> tj_current J (tj_marshal J m) = Some (Some m)"

definition reload :: "trustJson \<Rightarrow> trustWorld \<Rightarrow> trustWorld" where
  "reload J w = w\<lparr>tw_store := loadFrom J (tw_disk w) (ts_path (tw_store w))\<rparr>"

lemma saved_reload:
  assumes "saveLocked J w = (None, w')" "ts_path (tw_store w) \<noteq> ''''" "trustJsonKeeps J (ts_peers (tw_store w))"
  shows "reload J w' = w'"
proof -
  have d: "tw_disk w' (ts_path (tw_store w)) = Some (tj_marshal J (ts_peers (tw_store w)))" "tw_store w' = tw_store w"
    using assms(1,2) by (auto simp: saveLocked_def Let_def split: if_splits)
  then have "loadFrom J (tw_disk w') (ts_path (tw_store w')) = tw_store w'"
    using assms(3) by (simp add: loadFrom_def trustJsonKeeps_def Let_def)
  then show ?thesis by (simp add: reload_def)
qed

lemma authorize_saves: "authorize J i k w = (None, w') \<Longrightarrow> \<exists>v. saveLocked J v = (None, w') \<and> ts_path (tw_store v) = ts_path (tw_store w)"
  by (auto simp: authorize_def trust_def putPeer_def split: if_splits option.splits)

text \<open>An accepted key survives the program: after it has been accepted, and saved to a real file, a
  process that loads that file holds the same store, and refuses another key for that ID.\<close>

theorem trust_survives_restart:
  assumes "authorize J i k w = (None, w1)" "ts_path (tw_store w) \<noteq> ''''"
    and "trustJsonKeeps J (ts_peers (tw_store w1))" "k' \<noteq> k" "k' \<noteq> []"
  shows "reload J w1 = w1 \<and> (\<exists>t. authorize J i k' (reload J w1) = (Some (ErrKeyChanged t), w1))"
proof -
  obtain v where v: "saveLocked J v = (None, w1)" "ts_path (tw_store v) = ts_path (tw_store w)"
    using authorize_saves [OF assms(1)] by blast
  then have "tw_store w1 = tw_store v" by (metis saveLocked_store)
  with v assms(2,3) have r: "reload J w1 = w1" by (intro saved_reload [OF v(1)]) simp_all
  have "i \<noteq> ''''" using assms(1) by (auto simp: authorize_def trust_def)
  then show ?thesis using pinned_refuses [OF authorize_pins [OF assms(1)] _ assms(4), of J] assms(5) r by auto
qed

theorem trust_survives_restart_witness:
  "authorize sampleTrustJson ''cc-A'' [1] sampleTrust = (None, sampleTrusted)
     \<and> reload sampleTrustJson sampleTrusted = sampleTrusted
     \<and> (\<exists>t. authorize sampleTrustJson ''cc-A'' [2] (reload sampleTrustJson sampleTrusted) = (Some (ErrKeyChanged t), sampleTrusted))"
proof -
  have "trustJsonKeeps sampleTrustJson (ts_peers (tw_store sampleTrusted))"
    by (simp add: trustJsonKeeps_def sampleTrustJson_def sampleTrusted_def)
  moreover have "ts_path (tw_store sampleTrust) \<noteq> ''''" by (simp add: sampleTrust_def)
  moreover have "[2 :: byte] \<noteq> [1]" by simp
  ultimately show ?thesis using trust_survives_restart [OF sample_authorize] sample_authorize by blast
qed

text \<open>C26: The continuity check rests on the file being read: when \<^verbatim>\<open>LoadFrom\<close> cannot read it, or it holds
  neither shape, it answers an empty store without an error, every key is then accepted as a first
  contact, and the old file is overwritten.\<close>

theorem unreadable_store_forgets:
  assumes "(case tw_disk w (ts_path (tw_store w)) of None \<Rightarrow> True
       | Some d \<Rightarrow> (tj_current J d = None \<or> tj_current J d = Some None) \<and> tj_legacy J d = None)"
    and "ts_path (tw_store w) \<noteq> ''''" "tw_writable w (ts_path (tw_store w))" "i \<noteq> ''''" "k \<noteq> []"
  shows "\<exists>w'. authorize J i k (reload J w) = (None, w') \<and> known i (reload J w) = None
     \<and> tw_disk w' (ts_path (tw_store w)) =
         Some (tj_marshal J [i \<mapsto> \<lparr>tr_PublicKey = base64Encode k, tr_FirstSeen = tw_now w, tr_LastSeen = tw_now w\<rparr>])"
proof -
  have "loadFrom J (tw_disk w) (ts_path (tw_store w)) = \<lparr>ts_peers = (\<lambda>_. None), ts_path = ts_path (tw_store w)\<rparr>"
    using assms(1) by (auto simp: loadFrom_def Let_def split: option.splits)
  then have r: "reload J w = w\<lparr>tw_store := \<lparr>ts_peers = (\<lambda>_. None), ts_path = ts_path (tw_store w)\<rparr>\<rparr>"
    by (simp add: reload_def)
  show ?thesis unfolding r using assms(2-5)
    by (simp add: authorize_def trust_def putPeer_def saveLocked_def known_def)
qed

theorem unreadable_store_forgets_witness:
  "\<exists>w'. authorize sampleTrustJson ''cc-A'' [2] (reload sampleTrustJson (sampleTrust\<lparr>tw_disk := [''trusted_peers.json'' \<mapsto> [9]]\<rparr>)) = (None, w')"
proof -
  let ?w = "sampleTrust\<lparr>tw_disk := [''trusted_peers.json'' \<mapsto> [9]]\<rparr>"
  have "case tw_disk ?w (ts_path (tw_store ?w)) of None \<Rightarrow> True
       | Some d \<Rightarrow> (tj_current sampleTrustJson d = None \<or> tj_current sampleTrustJson d = Some None) \<and> tj_legacy sampleTrustJson d = None"
    by (simp add: sampleTrust_def sampleTrustJson_def)
  from unreadable_store_forgets [OF this, of "''cc-A''" "[2]"] show ?thesis by (auto simp: sampleTrust_def)
qed

end
