(* ===== verification/Safety.thy ===== *)
theory Safety
  imports Session
begin

text \<open>
  \<^verbatim>\<open>internal/e2ee/safety.go\<close>: the verification code two people compare out of band. It is a hash of the
  two identity keys in a fixed order, in base 32, as eight groups of four characters.
\<close>

definition safetyLabel :: string where "safetyLabel = labelOf ''safety number''"
definition SafetyNumberGroups :: nat where "SafetyNumberGroups = 8"

text \<open>\<^verbatim>\<open>bytes.Compare(a, b) > 0\<close>.\<close>

fun bytesGreater :: "bytes \<Rightarrow> bytes \<Rightarrow> bool" where
  "bytesGreater [] b = False"
| "bytesGreater (x # xs) [] = True"
| "bytesGreater (x # xs) (y # ys) = (if x = y then bytesGreater xs ys else y < x)"

fun writeGroups :: "string \<Rightarrow> nat \<Rightarrow> nat list \<Rightarrow> string \<Rightarrow> string" where
  "writeGroups encoded sz [] b = b"
| "writeGroups encoded sz (i # is) b =
     writeGroups encoded sz is ((if i > 0 then b @ '' '' else b) @ take sz (drop (i * sz) encoded))"

definition safetyNumber :: "crypto \<Rightarrow> bytes \<Rightarrow> bytes \<Rightarrow> string" where
  "safetyNumber C local remote =
     (if length local \<noteq> 32 \<or> length remote \<noteq> 32 then ''''
      else let (first, second) = (if bytesGreater local remote then (remote, local) else (local, remote));
               sum = c_sha256 C (toBytes safetyLabel @ [0] @ first @ second);
               encoded = base32Encode (take 20 sum)
           in writeGroups encoded (length encoded div SafetyNumberGroups) [0..<SafetyNumberGroups] '''')"

definition sessionSafetyNumber :: "crypto \<Rightarrow> session \<Rightarrow> bytes \<Rightarrow> string" where
  "sessionSafetyNumber C s local = safetyNumber C local (peer_PublicKey (s_peer s))"

section \<open>Base 32 loses nothing\<close>

lemma bitsVal_split: "bitsVal a bs = a * 2 ^ length bs + bitsVal 0 bs"
proof (induction bs arbitrary: a)
  case (Cons b bs)
  show ?case by (simp only: bitsVal.simps Cons [of "2 * a + _"] Cons [of "2 * 0 + _"]) (simp add: algebra_simps)
qed simp

lemma bitsVal_inject: "length bs = length cs \<Longrightarrow> bitsVal 0 bs = bitsVal 0 cs \<Longrightarrow> bs = cs"
proof (induction bs cs rule: list_induct2)
  case (Cons b bs c cs)
  have l: "bitsVal 0 bs < 2 ^ length cs" "bitsVal 0 cs < 2 ^ length cs"
    using bitsVal_bound [of 0 bs] bitsVal_bound [of 0 cs] Cons(1) by simp_all
  have "(if b then 1 else 0) * 2 ^ length cs + bitsVal 0 bs = (if c then 1 else 0) * 2 ^ length cs + bitsVal 0 cs"
    using Cons(3) Cons(1) bitsVal_split [of "if b then 1 else 0" bs] bitsVal_split [of "if c then 1 else 0" cs] by simp
  then have "b = c" "bitsVal 0 bs = bitsVal 0 cs" using l by (auto split: if_splits)
  with Cons(2) show ?case by simp
qed simp

lemma bitGroups_inject:
  "0 < k \<Longrightarrow> length bs = length cs \<Longrightarrow> bitGroups k bs = bitGroups k cs \<Longrightarrow> bs = cs"
proof (induction k bs arbitrary: cs rule: bitGroups.induct)
  case (1 k bs)
  show ?case
  proof (cases "bs = []")
    case False
    then have e: "take k (bs @ replicate k False) = take k (cs @ replicate k False)" "bitGroups k (drop k bs) = bitGroups k (drop k cs)"
    proof -
      have "cs \<noteq> []" using False "1.prems"(2) by auto
      then have "bitGroups k cs = take k (cs @ replicate k False) # bitGroups k (drop k cs)"
        using "1.prems"(1) by (simp only: bitGroups.simps [of k cs]) simp
      moreover have "bitGroups k bs = take k (bs @ replicate k False) # bitGroups k (drop k bs)"
        using "1.prems"(1) False by (simp only: bitGroups.simps [of k bs]) simp
      ultimately show "take k (bs @ replicate k False) = take k (cs @ replicate k False)"
        "bitGroups k (drop k bs) = bitGroups k (drop k cs)" using "1.prems"(3) by (simp_all only: list.inject)
    qed
    have "drop k bs = drop k cs" using "1.IH" [of "drop k cs"] "1.prems" e(2) False by simp
    moreover have "take k bs = take k cs"
      using arg_cong [OF e(1), of "take (min k (length bs))"] "1.prems"(2) by (simp add: min_def split: if_splits)
    ultimately show ?thesis by (metis append_take_drop_id)
  qed (use "1.prems" in simp)
qed

lemma byteBits_inject: "byteBits a = byteBits b \<Longrightarrow> a = b"
proof (rule bit_word_eqI)
  fix n
  assume e: "byteBits a = byteBits b" and "n < LENGTH(8)"
  then have "n < 8" by simp
  then have "n \<in> {0, 1, 2, 3, 4, 5, 6, 7}" by auto
  with e show "bit a n = bit b n" unfolding byteBits_def by auto
qed

lemma toBits_inject: "length as = length bs \<Longrightarrow> toBits as = toBits bs \<Longrightarrow> as = bs"
  by (induction as bs rule: list_induct2) (auto simp: toBits_def dest: byteBits_inject)

definition alphabetDistinct :: bool where "alphabetDistinct \<longleftrightarrow> distinct base32Alphabet \<and> length base32Alphabet = 32"

lemma base32_inject:
  assumes "length as = length bs" "base32Encode as = base32Encode bs"
  shows "as = bs"
proof -
  have "alphabetDistinct" by code_simp
  then have d: "distinct base32Alphabet" "length base32Alphabet = 32" by (simp_all add: alphabetDistinct_def)
  have "inj_on (\<lambda>g. base32Alphabet ! bitsVal 0 g) {g. length g = 5}"
  proof (rule inj_onI)
    fix g h
    assume g: "g \<in> {g. length g = 5}" "h \<in> {g. length g = 5}" and e: "base32Alphabet ! bitsVal 0 g = base32Alphabet ! bitsVal 0 h"
    have "bitsVal 0 g < 32" "bitsVal 0 h < 32" using bitsVal_bound [of 0 g] bitsVal_bound [of 0 h] g by simp_all
    then have "bitsVal 0 g = bitsVal 0 h" using e d by (simp add: nth_eq_iff_index_eq)
    then show "g = h" using g by (intro bitsVal_inject) simp_all
  qed
  moreover have "set (bitGroups 5 (toBits as)) \<union> set (bitGroups 5 (toBits bs)) \<subseteq> {g. length g = 5}"
    using bitGroups_width by blast
  ultimately have "bitGroups 5 (toBits as) = bitGroups 5 (toBits bs)"
    using assms(2) unfolding base32Encode_def by (metis inj_on_map_eq_map inj_on_subset)
  then have "toBits as = toBits bs" using assms(1) by (intro bitGroups_inject [of 5]) simp_all
  then show ?thesis by (rule toBits_inject [OF assms(1)])
qed

section \<open>The code both people see\<close>

lemma bytesGreater_antisym: "length a = length b \<Longrightarrow> a \<noteq> b \<Longrightarrow> bytesGreater a b \<longleftrightarrow> \<not> bytesGreater b a"
  by (induction a b rule: list_induct2) auto

lemma groups_of_32:
  assumes "length e = 32"
  shows "writeGroups e 4 [0..<8] '''' =
    take 4 e @ '' '' @ take 4 (drop 4 e) @ '' '' @ take 4 (drop 8 e) @ '' '' @ take 4 (drop 12 e) @ '' ''
      @ take 4 (drop 16 e) @ '' '' @ take 4 (drop 20 e) @ '' '' @ take 4 (drop 24 e) @ '' '' @ take 4 (drop 28 e)"
  by (simp add: upt_rec)

lemma groups_inject:
  assumes "length e = 32" "length f = 32" "writeGroups e 4 [0..<8] '''' = writeGroups f 4 [0..<8] ''''"
  shows "e = f"
proof -
  have s: "x = take 4 x @ take 4 (drop 4 x) @ take 4 (drop 8 x) @ take 4 (drop 12 x) @ take 4 (drop 16 x)
      @ take 4 (drop 20 x) @ take 4 (drop 24 x) @ take 4 (drop 28 x)" if "length x = 32" for x :: string
  proof -
    have "x = take 4 x @ drop 4 x" by simp
    moreover have "drop n x = take 4 (drop n x) @ drop (n + 4) x" for n by (metis append_take_drop_id drop_drop add.commute)
    from this [of 4] this [of 8] this [of 12] this [of 16] this [of 20] this [of 24] this [of 28]
    have "drop 4 x = take 4 (drop 4 x) @ take 4 (drop 8 x) @ take 4 (drop 12 x) @ take 4 (drop 16 x)
      @ take 4 (drop 20 x) @ take 4 (drop 24 x) @ take 4 (drop 28 x)" using that by simp
    ultimately show ?thesis by metis
  qed
  from assms(3) have "take 4 e = take 4 f" "take 4 (drop 4 e) = take 4 (drop 4 f)" "take 4 (drop 8 e) = take 4 (drop 8 f)"
    "take 4 (drop 12 e) = take 4 (drop 12 f)" "take 4 (drop 16 e) = take 4 (drop 16 f)" "take 4 (drop 20 e) = take 4 (drop 20 f)"
    "take 4 (drop 24 e) = take 4 (drop 24 f)" "take 4 (drop 28 e) = take 4 (drop 28 f)"
    unfolding groups_of_32 [OF assms(1)] groups_of_32 [OF assms(2)] by (simp_all add: assms(1,2))
  then show ?thesis using s [OF assms(1)] s [OF assms(2)] by metis
qed

text \<open>The bytes that are hashed for a pair of keys.\<close>

definition safetyInput :: "bytes \<Rightarrow> bytes \<Rightarrow> bytes" where
  "safetyInput a b = toBytes safetyLabel @ [0] @ (if bytesGreater a b then b @ a else a @ b)"

lemma safetyNumber_eq:
  assumes "hash_lengths C" "length a = 32" "length b = 32"
  shows "safetyNumber C a b = writeGroups (base32Encode (take 20 (c_sha256 C (safetyInput a b)))) 4 [0..<8] ''''
     \<and> length (base32Encode (take 20 (c_sha256 C (safetyInput a b)))) = 32"
proof -
  have "length (base32Encode (take 20 (c_sha256 C x))) = 32" for x
    using assms(1) by (simp add: length_base32 hash_lengths_simps)
  then show ?thesis using assms(2,3)
    by (simp add: safetyNumber_def safetyInput_def SafetyNumberGroups_def Let_def split: if_splits)
qed



end
