(* ===== verification/Chat.thy ===== *)
theory Chat
  imports HandshakeRun Profile Trust Safety
begin

text \<open>
  \<^verbatim>\<open>internal/chat/chat.go\<close>, the link: packets, one authenticated connection with its rekey traffic, the
  recorder that notes a first contact, and the two functions that run both handshakes. TLS itself is
  \<^verbatim>\<open>crypto/tls\<close>'s: what the code reads of a completed TLS session is a record, from which
  \<^verbatim>\<open>internal/e2ee/binding.go\<close> takes the channel binding.
\<close>

section \<open>Packets, members and peers\<close>

definition MaxMessageBytes :: nat where "MaxMessageBytes = 4096"

record member =
  m_ID :: string
  m_Name :: string
  m_Host :: bool

record packet =
  pk_Type :: string
  pk_From :: string
  pk_Name :: string
  pk_Text :: string
  pk_Members :: "member list"
  pk_Group :: bool

definition packetOf :: "string \<Rightarrow> packet" where
  "packetOf t = \<lparr>pk_Type = t, pk_From = '''', pk_Name = '''', pk_Text = '''', pk_Members = [], pk_Group = False\<rparr>"

record peer =
  pe_ID :: string
  pe_Name :: string
  pe_FirstContact :: bool
  pe_SafetyNumber :: string

definition shortID :: "string \<Rightarrow> string" where
  "shortID i = (if length i \<le> 11 then i else take 11 i @ ellipsis)"

definition memberDisplay :: "member \<Rightarrow> string" where
  "memberDisplay m = (if m_Name m \<noteq> '''' then m_Name m else shortID (m_ID m))"

text \<open>\<^verbatim>\<open>encoding/json\<close> on packets.\<close>

record packetJson =
  kj_marshal :: "packet \<Rightarrow> bytes"
  kj_unmarshal :: "bytes \<Rightarrow> packet option"

datatype chatErr =
    MessageTooLong
  | UndecodablePacket
  | LinkErr e2eeErr
  | TLSHandshakeFailed
  | NoCertificate
  | FingerprintMismatch
  | NoBinding
  | HostAuthFailed e2eeErr

section \<open>A connection\<close>

record conn =
  cn_out :: writer_st
  cn_in :: reader_st
  cn_tape :: bytes
  cn_session :: session
  cn_peer :: peer
  cn_localKey :: bytes
  cn_firstContact :: bool
  cn_stopped :: bool

definition connSend :: "crypto \<Rightarrow> packetJson \<Rightarrow> packet \<Rightarrow> (conn, chatErr, unit) prog" where
  "connSend C K p c =
     (if pk_Type p = ''msg'' \<and> length (pk_Text p) > MaxMessageBytes then (Inl MessageTooLong, c)
      else case writeMessage C (kj_marshal K p) (cn_session c, cn_out c) of
        (r, (s, o')) \<Rightarrow> (mapErr LinkErr r, c\<lparr>cn_session := s, cn_out := o'\<rparr>))"

text \<open>One record off the wire, as a packet.\<close>

definition connRead :: "crypto \<Rightarrow> packetJson \<Rightarrow> (nat \<Rightarrow> int) \<Rightarrow> (conn, chatErr, packet) prog" where
  "connRead C K clock c =
     (case readMessage C (clock (length (inBytes (cn_in c)))) (cn_session c, cn_tape c, cn_in c) of
        (r, (s, t, i)) \<Rightarrow>
          (let c' = c\<lparr>cn_session := s, cn_tape := t, cn_in := i\<rparr>
           in case r of
                Inl e \<Rightarrow> (Inl (LinkErr e), c')
              | Inr plaintext \<Rightarrow>
                  (case kj_unmarshal K plaintext of
                     None \<Rightarrow> (Inl UndecodablePacket, c')
                   | Some p \<Rightarrow> (Inr p, c'))))"

lemma connRead_shorter:
  assumes "connRead C K clock c = (Inr p, c')"
  shows "length (inBytes (cn_in c')) < length (inBytes (cn_in c))"
proof -
  from assms obtain s t i plain where
    r: "readMessage C (clock (length (inBytes (cn_in c)))) (cn_session c, cn_tape c, cn_in c) = (Inr plain, (s, t, i))"
    and c: "c' = c\<lparr>cn_session := s, cn_tape := t, cn_in := i\<rparr>"
    by (auto simp: connRead_def Let_def split: prod.splits sum.splits option.splits)
  from r obtain rec where "readFrame (cn_in c) = (Inr rec, i)"
    by (auto simp: readMessage_def split: prod.splits sum.splits)
  from readFrame_Inr(1) [OF this] show ?thesis by (simp add: c putFrame_def)
qed

lemma connSend_in: "connSend C K p c = (r, c') \<Longrightarrow> cn_in c' = cn_in c"
  by (auto simp: connSend_def split: if_splits prod.splits)

text \<open>
  \<^verbatim>\<open>Receive\<close>: rekey traffic is answered and swallowed until another packet, or an error, arrives. The
  clock is a function of the bytes left to read, since it moves while the loop waits for them.
\<close>

function connReceive :: "crypto \<Rightarrow> packetJson \<Rightarrow> (nat \<Rightarrow> int) \<Rightarrow> (conn, chatErr, packet) prog" where
  "connReceive C K clock c =
     (case connRead C K clock c of
        (Inl e, c1) \<Rightarrow> (Inl e, c1)
      | (Inr p, c1) \<Rightarrow>
          (if pk_Type p = ''rekey'' then
             (case connSend C K (packetOf ''rekey_ack'') c1 of
                (Inl e, c2) \<Rightarrow> (Inl e, c2)
              | (Inr _, c2) \<Rightarrow> connReceive C K clock c2)
           else if pk_Type p = ''rekey_ack'' then connReceive C K clock c1
           else (Inr p, c1)))"
  by pat_completeness auto
termination
proof (relation "measure (\<lambda>(C, K, clock, c). length (inBytes (cn_in c)))", goal_cases)
  case 1
  show ?case by simp
next
  case (2 C K clock c x c1 p y c2)
  then show ?case using connRead_shorter [of C K clock c p c1] connSend_in [of C K "packetOf ''rekey_ack''" c1]
    by (metis case_prod_conv in_measure)
next
  case (3 C K clock c x c1 p)
  then show ?case using connRead_shorter [of C K clock c p c1] by simp
qed

declare connReceive.simps [simp del]

definition connRekey :: "crypto \<Rightarrow> packetJson \<Rightarrow> (conn, chatErr, unit) prog" where
  "connRekey C K = connSend C K (packetOf ''rekey'')"

definition connRename :: "crypto \<Rightarrow> packetJson \<Rightarrow> (nat \<Rightarrow> bool) \<Rightarrow> string \<Rightarrow> (conn, chatErr, unit) prog" where
  "connRename C K table name = connSend C K ((packetOf ''nick'')\<lparr>pk_Name := cleanNickname table name\<rparr>)"

definition connSafetyNumber :: "crypto \<Rightarrow> conn \<Rightarrow> string" where
  "connSafetyNumber C c = safetyNumber C (cn_localKey c) (peer_PublicKey (s_peer (cn_session c)))"

text \<open>\<^verbatim>\<open>Close\<close>, once: the session's keys go, and the transport neither takes nor gives another byte.\<close>

definition connClose :: "conn \<Rightarrow> conn" where
  "connClose c =
     (if cn_stopped c then c
      else c\<lparr>cn_stopped := True, cn_session := closeSession (cn_session c),
             cn_out := (cn_out c)\<lparr>outRoom := Some 0\<rparr>, cn_in := \<lparr>inBytes = [], inEnd = Broken\<rparr>\<rparr>)"

text \<open>\<^verbatim>\<open>keepRatchetTurning\<close>: what the ticks at the given times do, until the link stops or a send fails.\<close>

fun keepRatchetTurning :: "crypto \<Rightarrow> packetJson \<Rightarrow> int list \<Rightarrow> conn \<Rightarrow> conn" where
  "keepRatchetTurning C K [] c = c"
| "keepRatchetTurning C K (now # ticks) c =
     (if cn_stopped c then c
      else if \<not> sessionCanSend (cn_session c) \<or> \<not> needsRekey now (cn_session c) then keepRatchetTurning C K ticks c
      else case connRekey C K c of
        (Inl e, c') \<Rightarrow> c'
      | (Inr _, c') \<Rightarrow> keepRatchetTurning C K ticks c')"

section \<open>Setting a connection up\<close>

definition credentialsOf :: "crypto \<Rightarrow> (nat \<Rightarrow> bool) \<Rightarrow> identity \<Rightarrow> string \<Rightarrow> credentials" where
  "credentialsOf C table ident nickname =
     \<lparr>cr_ID = idn_ID ident, cr_PublicKey = idn_PublicKey ident, cr_Sign = Some (sign C ident),
      cr_Nickname = cleanNickname table nickname\<rparr>"

definition newConn :: "(nat \<Rightarrow> bool) \<Rightarrow> ('t io) \<Rightarrow> session \<Rightarrow> bytes \<Rightarrow> bool \<Rightarrow> conn" where
  "newConn table w s localKey first =
     \<lparr>cn_out = io_out w, cn_in = io_in w, cn_tape = io_rand w, cn_session = s,
      cn_peer = \<lparr>pe_ID = peer_ID (s_peer s), pe_Name = cleanNickname table (peer_Nickname (s_peer s)),
                 pe_FirstContact = False, pe_SafetyNumber = ''''\<rparr>,
      cn_localKey = localKey, cn_firstContact = first, cn_stopped = False\<rparr>"

text \<open>
  The recorder asks whether the peer is known before the policy runs. Only \<^verbatim>\<open>auth.Store\<close> has an
  answer; for any other policy the type assertion fails and \<^verbatim>\<open>knows\<close> is \<^verbatim>\<open>None\<close>.
\<close>

definition recorderAuthorize :: "(string \<Rightarrow> 't \<Rightarrow> bool) option \<Rightarrow> 't trustPolicy \<Rightarrow> ('t \<times> bool) trustPolicy" where
  "recorderAuthorize knows inner i k = (\<lambda>(t, first).
     let first' = (case knows of Some f \<Rightarrow> if \<not> f i t then True else first | None \<Rightarrow> first)
     in case inner i k t of (e, t') \<Rightarrow> (e, (t', first')))"

definition storeKnows :: "string \<Rightarrow> trustWorld \<Rightarrow> bool" where
  "storeKnows i w \<longleftrightarrow> known i w \<noteq> None"

text \<open>A TLS session: whether its handshake succeeded, its version, the peer's certificates, its exporter.\<close>

record tlsSession =
  tls_ok :: bool
  tls_complete :: bool
  tls_version :: nat
  tls_certs :: "bytes list"
  tls_export :: "string \<Rightarrow> nat \<Rightarrow> bytes option"

definition VersionTLS13 :: nat where "VersionTLS13 = 0x0304"

definition tlsChannelBinding :: "tlsSession option \<Rightarrow> bytes option" where
  "tlsChannelBinding c =
     (case c of
        None \<Rightarrow> None
      | Some t \<Rightarrow>
          if \<not> tls_complete t then None
          else if tls_version t < VersionTLS13 then None
          else case tls_export t ChannelBindingLabel ChannelBindingLength of
            None \<Rightarrow> None
          | Some b \<Rightarrow> if length b \<noteq> ChannelBindingLength then None else Some b)"

text \<open>What both sides are given: the local identity and name, and the trust policy.\<close>

record 't endpointCfg =
  ep_Identity :: identity
  ep_Name :: string
  ep_Inner :: "'t trustPolicy"
  ep_Knows :: "(string \<Rightarrow> 't \<Rightarrow> bool) option"

definition chatConfig :: "crypto \<Rightarrow> (nat \<Rightarrow> bool) \<Rightarrow> 't endpointCfg \<Rightarrow> bytes \<Rightarrow> string \<Rightarrow> ('t \<times> bool) config" where
  "chatConfig C table ep binding expect =
     \<lparr>cfg_Credentials = credentialsOf C table (ep_Identity ep) (ep_Name ep), cfg_ChannelBinding = binding,
      cfg_Trust = Some (recorderAuthorize (ep_Knows ep) (ep_Inner ep)), cfg_ExpectPeerID = expect, cfg_Versions = []\<rparr>"

definition hostAccept ::
  "crypto \<Rightarrow> (nat \<Rightarrow> bool) \<Rightarrow> tlsSession \<Rightarrow> 't endpointCfg \<Rightarrow> (('t \<times> bool) io, chatErr, conn) prog" where
  "hostAccept C table tls ep w =
     (if \<not> tls_ok tls then (Inl TLSHandshakeFailed, w)
      else case tlsChannelBinding (Some tls) of
        None \<Rightarrow> (Inl NoBinding, w)
      | Some binding \<Rightarrow>
          (case respond C (chatConfig C table ep binding '''') (w\<lparr>io_trust := (fst (io_trust w), False)\<rparr>) of
             (Inl e, w') \<Rightarrow> (Inl (LinkErr e), w')
           | (Inr s, w') \<Rightarrow> (Inr (newConn table w' s (idn_PublicKey (ep_Identity ep)) (snd (io_trust w'))), w')))"

definition pinOk :: "crypto \<Rightarrow> string \<Rightarrow> bytes \<Rightarrow> bool" where
  "pinOk C fp cert \<longleftrightarrow>
     (let actual = hexEncode (c_sha256 C cert); expected = trimSpace fp
      in expected = '''' \<or> toLower actual = toLower expected)"

definition passedThrough :: "e2eeErr \<Rightarrow> bool" where
  "passedThrough e \<longleftrightarrow> e = ErrLegacyPeer \<or> e = ErrPeerClosedHandshake \<or> e = ErrNoCommonVersion"

definition clientConn ::
  "crypto \<Rightarrow> (nat \<Rightarrow> bool) \<Rightarrow> tlsSession \<Rightarrow> string \<Rightarrow> string \<Rightarrow> 't endpointCfg \<Rightarrow> (('t \<times> bool) io, chatErr, conn) prog" where
  "clientConn C table tls expectedFingerprint expectedHostID ep w =
     (if \<not> tls_ok tls then (Inl TLSHandshakeFailed, w)
      else case tls_certs tls of
        [] \<Rightarrow> (Inl NoCertificate, w)
      | cert # _ \<Rightarrow>
          (if \<not> pinOk C expectedFingerprint cert then (Inl FingerprintMismatch, w)
           else case tlsChannelBinding (Some tls) of
             None \<Rightarrow> (Inl NoBinding, w)
           | Some binding \<Rightarrow>
               (case initiate C (chatConfig C table ep binding expectedHostID) (w\<lparr>io_trust := (fst (io_trust w), False)\<rparr>) of
                  (Inl e, w') \<Rightarrow> (Inl (if passedThrough e then LinkErr e else HostAuthFailed e), w')
                | (Inr s, w') \<Rightarrow> (Inr (newConn table w' s (idn_PublicKey (ep_Identity ep)) (snd (io_trust w'))), w'))))"

text \<open>\<^verbatim>\<open>ReadLoop\<close>: the packets handed to the callback before the connection ends.\<close>

definition publicKeyFingerprint :: "crypto \<Rightarrow> string \<Rightarrow> string" where
  "publicKeyFingerprint C publicKey = (case base64Decode publicKey of None \<Rightarrow> '''' | Some b \<Rightarrow> hexEncode (c_sha256 C b))"

lemma connReceive_shorter:
  "connReceive C K clock c = (Inr p, c') \<Longrightarrow> length (inBytes (cn_in c')) < length (inBytes (cn_in c))"
proof (induction C K clock c rule: connReceive.induct)
  case (1 C K clock c)
  obtain r c1 where r: "connRead C K clock c = (r, c1)" by (cases "connRead C K clock c")
  show ?case
  proof (cases r)
    case (Inl e)
    then show ?thesis using "1.prems" r by (simp add: connReceive.simps [of C K clock c])
  next
    case (Inr q)
    note short = connRead_shorter [OF r [unfolded Inr]]
    obtain x c2 where s: "connSend C K (packetOf ''rekey_ack'') c1 = (x, c2)" by (cases "connSend C K (packetOf ''rekey_ack'') c1")
    have c2: "cn_in c2 = cn_in c1" by (rule connSend_in [OF s])
    consider "pk_Type q = ''rekey''" | "pk_Type q = ''rekey_ack''" | "pk_Type q \<noteq> ''rekey''" "pk_Type q \<noteq> ''rekey_ack''" by blast
    then show ?thesis
    proof cases
      case 1
      then obtain u where x: "x = Inr u" using "1.prems" r Inr s by (cases x) (simp_all add: connReceive.simps [of C K clock c])
      then have "connReceive C K clock c2 = (Inr p, c')"
        using "1.prems" r Inr s 1 by (simp add: connReceive.simps [of C K clock c])
      from "1.IH"(1) [OF r [unfolded Inr, symmetric] refl 1 s [unfolded x, symmetric] refl this] short c2
      show ?thesis by simp
    next
      case 2
      then have n: "pk_Type q \<noteq> ''rekey''" by simp
      have "connReceive C K clock c1 = (Inr p, c')"
        using "1.prems" r Inr 2 by (simp add: connReceive.simps [of C K clock c])
      from "1.IH"(2) [OF r [unfolded Inr, symmetric] refl n 2 this] short show ?thesis by simp
    next
      case 3
      then show ?thesis using "1.prems" r Inr short by (simp add: connReceive.simps [of C K clock c])
    qed
  qed
qed

function readLoop :: "crypto \<Rightarrow> packetJson \<Rightarrow> (nat \<Rightarrow> int) \<Rightarrow> conn \<Rightarrow> packet list \<times> chatErr \<times> conn" where
  "readLoop C K clock c =
     (case connReceive C K clock c of
        (Inl e, c') \<Rightarrow> ([], e, c')
      | (Inr p, c') \<Rightarrow> (case readLoop C K clock c' of (ps, e, c'') \<Rightarrow> (p # ps, e, c'')))"
  by pat_completeness auto
termination
  by (relation "measure (\<lambda>(C, K, clock, c). length (inBytes (cn_in c)))") (auto intro: connReceive_shorter [OF sym])

declare readLoop.simps [simp del]

section \<open>What a connection keeps\<close>

definition sameLink :: "conn \<Rightarrow> conn \<Rightarrow> bool" where
  "sameLink c c' \<longleftrightarrow> cn_peer c' = cn_peer c \<and> s_peer (cn_session c') = s_peer (cn_session c)
     \<and> cn_localKey c' = cn_localKey c \<and> cn_firstContact c' = cn_firstContact c"

lemma sameLink_refl [simp]: "sameLink c c"
  by (simp add: sameLink_def)

lemma sameLink_trans: "sameLink c d \<Longrightarrow> sameLink d e \<Longrightarrow> sameLink c e"
  by (simp add: sameLink_def)

lemma connSend_same: "connSend C K p c = (r, c') \<Longrightarrow> sameLink c c'"
  by (auto simp: connSend_def sameLink_def split: if_splits prod.splits dest: writeMessage_keeps)

lemma connRead_same: "connRead C K clock c = (r, c') \<Longrightarrow> sameLink c c'"
  by (auto simp: connRead_def sameLink_def Let_def split: prod.splits sum.splits option.splits dest: readMessage_keeps)

lemma connClose_same: "sameLink c (connClose c)"
  by (simp add: connClose_def sameLink_def closeSession_def)

text \<open>One turn of the loop of \<^verbatim>\<open>Receive\<close>.\<close>

lemma connReceive_cases:
  assumes "connReceive C K clock c = (r, c')"
  obtains (failed) e where "connRead C K clock c = (Inl e, c')" "r = Inl e"
  | (noAnswer) q c1 e where "connRead C K clock c = (Inr q, c1)" "pk_Type q = ''rekey''"
      "connSend C K (packetOf ''rekey_ack'') c1 = (Inl e, c')" "r = Inl e"
  | (answered) q c1 c2 where "connRead C K clock c = (Inr q, c1)" "pk_Type q = ''rekey''"
      "connSend C K (packetOf ''rekey_ack'') c1 = (Inr (), c2)" "connReceive C K clock c2 = (r, c')"
  | (ack) q c1 where "connRead C K clock c = (Inr q, c1)" "pk_Type q = ''rekey_ack''" "connReceive C K clock c1 = (r, c')"
  | (packet) q where "connRead C K clock c = (Inr q, c')" "pk_Type q \<noteq> ''rekey''" "pk_Type q \<noteq> ''rekey_ack''" "r = Inr q"
proof -
  obtain x c1 where rd: "connRead C K clock c = (x, c1)" by (cases "connRead C K clock c")
  show thesis
  proof (cases x)
    case (Inl e)
    have "connReceive C K clock c = (Inl e, c1)" by (simp add: connReceive.simps [of C K clock c] rd Inl)
    then show thesis using assms rd Inl failed [of e] by simp
  next
    case (Inr q)
    obtain y c2 where s: "connSend C K (packetOf ''rekey_ack'') c1 = (y, c2)" by (cases "connSend C K (packetOf ''rekey_ack'') c1")
    note rd' = rd [unfolded Inr]
    note a = assms [unfolded connReceive.simps [of C K clock c] rd' s prod.case sum.case]
    show thesis
    proof (cases "pk_Type q = ''rekey''")
      case True
      note b = a [unfolded if_P [OF True]]
      show thesis
      proof (cases y)
        case (Inl e)
        then show thesis using b s noAnswer [OF rd' True] by auto
      next
        case (Inr u)
        then have "connReceive C K clock c2 = (r, c')" using b by simp
        with s Inr show thesis by (intro answered [OF rd' True]) auto
      qed
    next
      case False
      note b = a [unfolded if_not_P [OF False]]
      show thesis
      proof (cases "pk_Type q = ''rekey_ack''")
        case True
        then show thesis using b by (intro ack [OF rd']) auto
      next
        case n: False
        then have "r = Inr q" "c' = c1" using b by auto
        with rd' False n show thesis by (intro packet [of q]) auto
      qed
    qed
  qed
qed

text \<open>So whatever every turn keeps, \<^verbatim>\<open>Receive\<close> keeps.\<close>

lemma connReceive_keeps:
  assumes "connReceive C K clock c = (r, c')" "P c"
    and "\<And>c q d. P c \<Longrightarrow> connRead C K clock c = (q, d) \<Longrightarrow> P d"
    and "\<And>c q d. P c \<Longrightarrow> connSend C K (packetOf ''rekey_ack'') c = (q, d) \<Longrightarrow> P d"
  shows "P c'"
  using assms(1,2)
proof (induction "length (inBytes (cn_in c))" arbitrary: c rule: less_induct)
  case less
  from less.prems(1) show ?case
  proof (cases rule: connReceive_cases)
    case (failed e)
    then show ?thesis using less.prems(2) assms(3) by blast
  next
    case (noAnswer q c1 e)
    then show ?thesis using less.prems(2) assms(3,4) by blast
  next
    case (answered q c1 c2)
    have "length (inBytes (cn_in c2)) < length (inBytes (cn_in c))"
      using connRead_shorter [OF answered(1)] connSend_in [OF answered(3)] by simp
    then show ?thesis using less.hyps [OF _ answered(4)] less.prems(2) answered assms(3,4) by blast
  next
    case (ack q c1)
    then show ?thesis using less.hyps [OF connRead_shorter [OF ack(1)] ack(3)] less.prems(2) assms(3) by blast
  next
    case (packet q)
    then show ?thesis using less.prems(2) assms(3) by blast
  qed
qed

text \<open>\<^verbatim>\<open>Receive\<close> never surfaces the rekey traffic.\<close>

lemma connReceive_type:
  "connReceive C K clock c = (Inr p, c') \<Longrightarrow> pk_Type p \<noteq> ''rekey'' \<and> pk_Type p \<noteq> ''rekey_ack''"
proof (induction "length (inBytes (cn_in c))" arbitrary: c rule: less_induct)
  case less
  from less.prems show ?case
  proof (cases rule: connReceive_cases)
    case (answered q c1 c2)
    have "length (inBytes (cn_in c2)) < length (inBytes (cn_in c))"
      using connRead_shorter [OF answered(1)] connSend_in [OF answered(3)] by simp
    then show ?thesis using less.hyps answered(4) by blast
  next
    case (ack q c1)
    show ?thesis by (rule less.hyps [OF connRead_shorter [OF ack(1)] ack(3)])
  qed auto
qed

lemma connReceive_same: "connReceive C K clock c = (r, c') \<Longrightarrow> sameLink c c'"
  by (rule connReceive_keeps [where P = "sameLink c"]) (auto intro: sameLink_trans connRead_same connSend_same)

section \<open>A packet sent is a packet received\<close>

text \<open>Two sessions of one conversation, of which the second has read everything the first wrote.\<close>

definition caughtUp :: "crypto \<Rightarrow> session \<Rightarrow> session \<Rightarrow> bool" where
  "caughtUp C s t \<longleftrightarrow> (\<exists>a b v. startPair C a b \<and> conv_reach C (startConv a b) v
     \<and> (s = cv_a v \<and> t = cv_b v \<and> cv_ab v = [] \<or> s = cv_b v \<and> t = cv_a v \<and> cv_ba v = []))"

lemma caughtUp_delivers:
  assumes law: "hash_lengths C" "aead_law C" "dh_law C" "honestKeys C"
    and "caughtUp C s t" "encrypt C m s = (Inr rec, s')" "freshTape C t tape"
  shows "\<exists>st. decrypt C now rec (t, tape) = (Inr m, st)"
proof -
  from assms(5) obtain a b v where
    v: "startPair C a b" "conv_reach C (startConv a b) v"
      "s = cv_a v \<and> t = cv_b v \<and> cv_ab v = [] \<or> s = cv_b v \<and> t = cv_a v \<and> cv_ba v = []"
    unfolding caughtUp_def by blast
  have d: "delivers C v" by (rule reach_delivers [OF law v(1,2)])
  from v(3) show ?thesis
  proof
    assume c: "s = cv_a v \<and> t = cv_b v \<and> cv_ab v = []"
    let ?w = "v\<lparr>cv_a := s', cv_ab := cv_ab v @ [rec], cv_sentA := cv_sentA v @ [m]\<rparr>"
    have "conv_step C v ?w" using assms(6) c by (intro conv_step.sendA) simp
    then have w: "delivers C ?w" by (rule reach_delivers [OF law v(1) conv_more [OF v(2)]])
    have "cv_sentA ?w ! length (cv_gotB ?w) = m" using d c by (auto simp: delivers_def)
    moreover have "cv_ab ?w = [rec]" "freshTape C (cv_b ?w) tape" using assms(7) c by simp_all
    ultimately show ?thesis using w c unfolding delivers_def by fastforce
  next
    assume c: "s = cv_b v \<and> t = cv_a v \<and> cv_ba v = []"
    let ?w = "v\<lparr>cv_b := s', cv_ba := cv_ba v @ [rec], cv_sentB := cv_sentB v @ [m]\<rparr>"
    have "conv_step C v ?w" using assms(6) c by (intro conv_step.sendB) simp
    then have w: "delivers C ?w" by (rule reach_delivers [OF law v(1) conv_more [OF v(2)]])
    have "cv_sentB ?w ! length (cv_gotA ?w) = m" using d c by (auto simp: delivers_def)
    moreover have "cv_ba ?w = [rec]" "freshTape C (cv_a ?w) tape" using assms(7) c by simp_all
    ultimately show ?thesis using w c unfolding delivers_def by fastforce
  qed
qed

lemma connSend_ok:
  assumes "connSend C K p c = (Inr u, c')" "outRoom (cn_out c) = None"
  shows "\<exists>rec. encrypt C (kj_marshal K p) (cn_session c) = (Inr rec, cn_session c')
     \<and> outBytes (cn_out c') = outBytes (cn_out c) @ putFrame rec \<and> length rec \<le> MaxFrameSize"
proof -
  from assms(1) obtain s o' where w: "writeMessage C (kj_marshal K p) (cn_session c, cn_out c) = (Inr (), (s, o'))"
    and c': "c' = c\<lparr>cn_session := s, cn_out := o'\<rparr>"
    by (auto simp: connSend_def split: if_splits prod.splits)
  from w obtain rec where e: "encrypt C (kj_marshal K p) (cn_session c) = (Inr rec, s)" "writeFrame rec (cn_out c) = (Inr (), o')"
    by (auto simp: writeMessage_def split: prod.splits sum.splits)
  have l: "length rec \<le> MaxFrameSize" using e(2) by (auto simp: writeFrame_def failS_def split: if_splits)
  show ?thesis using e writeFrame_ok [OF l assms(2)] l by (auto simp: c')
qed

text \<open>C16: The link carries packets: once the receiving side has read what came before, a packet that \<^verbatim>\<open>Send\<close>
  reports as sent is the packet \<^verbatim>\<open>Receive\<close> returns, from exactly the bytes \<^verbatim>\<open>Send\<close> put on the wire, with
  what follows left unread. The two sides are any two sessions a handshake left, after any exchange, in
  either direction.\<close>

theorem packet_delivery:
  assumes law: "hash_lengths C" "aead_law C" "dh_law C" "honestKeys C"
    and "caughtUp C (cn_session a) (cn_session b)" "freshTape C (cn_session b) (cn_tape b)"
    and "connSend C K p a = (Inr u, a')" "outRoom (cn_out a) = None"
    and "inBytes (cn_in b) = drop (length (outBytes (cn_out a))) (outBytes (cn_out a')) @ rest"
    and "kj_unmarshal K (kj_marshal K p) = Some p" "pk_Type p \<noteq> ''rekey''" "pk_Type p \<noteq> ''rekey_ack''"
  shows "\<exists>b'. connReceive C K clock b = (Inr p, b') \<and> inBytes (cn_in b') = rest \<and> cn_out b' = cn_out b"
proof -
  from connSend_ok [OF assms(7,8)] obtain rec where
    r: "encrypt C (kj_marshal K p) (cn_session a) = (Inr rec, cn_session a')"
      "outBytes (cn_out a') = outBytes (cn_out a) @ putFrame rec" "length rec \<le> MaxFrameSize" by blast
  have i: "inBytes (cn_in b) = putFrame rec @ rest" using assms(9) r(2) by simp
  let ?now = "clock (length (inBytes (cn_in b)))"
  obtain st where "decrypt C ?now rec (cn_session b, cn_tape b) = (Inr (kj_marshal K p), st)"
    using caughtUp_delivers [OF law assms(5) r(1) assms(6)] by blast
  then obtain s t where d: "decrypt C ?now rec (cn_session b, cn_tape b) = (Inr (kj_marshal K p), (s, t))" by (cases st) auto
  have f: "readFrame (cn_in b) = (Inr rec, (cn_in b)\<lparr>inBytes := rest\<rparr>)" by (rule readFrame_putFrame [OF r(3) i])
  have "connRead C K clock b = (Inr p, b\<lparr>cn_session := s, cn_tape := t, cn_in := (cn_in b)\<lparr>inBytes := rest\<rparr>\<rparr>)"
    using f d assms(10) by (simp add: connRead_def readMessage_def)
  then show ?thesis using assms(11,12) by (simp add: connReceive.simps [of C K clock b])
qed

section \<open>Both handshakes\<close>

lemma recorder_accepts:
  assumes "recorderAuthorize knows inner i k (t, False) = (None, st)"
  shows "inner i k t = (None, fst st)" "snd st \<longleftrightarrow> (\<exists>f. knows = Some f \<and> \<not> f i t)"
proof -
  obtain e t' where e: "inner i k t = (e, t')" by (cases "inner i k t")
  from assms show "inner i k t = (None, fst st)" by (auto simp: recorderAuthorize_def Let_def e)
  from assms show "snd st \<longleftrightarrow> (\<exists>f. knows = Some f \<and> \<not> f i t)"
    by (cases knows) (auto simp: recorderAuthorize_def Let_def e)
qed

lemma dial_facts:
  assumes "aead_law C" "clientConn C table tls fp expect ep w = (Inr c, w')"
  shows "(\<exists>cert certs binding f. tls_certs tls = cert # certs \<and> VersionTLS13 \<le> tls_version tls
       \<and> (trimSpace fp = '''' \<or> toLower (hexEncode (c_sha256 C cert)) = toLower (trimSpace fp))
       \<and> tls_export tls ChannelBindingLabel ChannelBindingLength = Some binding \<and> fl_binding f = binding
       \<and> provenBy C (fl_c2 f) (hk_respKey (fl_keys C f)) (hk_respMAC (fl_keys C f)) (fl_th2 C f)
            labelSignatureResponder labelConfirmResponder
            (pe_ID (cn_peer c)) (peer_PublicKey (s_peer (cn_session c))) (peer_Nickname (s_peer (cn_session c))))
     \<and> (expect = '''' \<or> pe_ID (cn_peer c) = expect) \<and> pe_ID (cn_peer c) = peer_ID (s_peer (cn_session c))
     \<and> ep_Inner ep (pe_ID (cn_peer c)) (peer_PublicKey (s_peer (cn_session c))) (fst (io_trust w)) = (None, fst (io_trust w'))
     \<and> (cn_firstContact c \<longleftrightarrow> (\<exists>knows. ep_Knows ep = Some knows \<and> \<not> knows (pe_ID (cn_peer c)) (fst (io_trust w))))
     \<and> pe_Name (cn_peer c) = cleanNickname table (peer_Nickname (s_peer (cn_session c))) \<and> \<not> s_closed (cn_session c)"
proof -
  from assms(2) obtain cert certs binding s where
    t: "tls_certs tls = cert # certs" "pinOk C fp cert" "tlsChannelBinding (Some tls) = Some binding"
      "initiate C (chatConfig C table ep binding expect) (w\<lparr>io_trust := (fst (io_trust w), False)\<rparr>) = (Inr s, w')"
      "c = newConn table w' s (idn_PublicKey (ep_Identity ep)) (snd (io_trust w'))"
    by (auto simp: clientConn_def split: if_splits list.splits option.splits prod.splits sum.splits)
  have b: "VersionTLS13 \<le> tls_version tls" "tls_export tls ChannelBindingLabel ChannelBindingLength = Some binding"
    using t(3) by (auto simp: tlsChannelBinding_def split: if_splits option.splits)
  have c: "pe_ID (cn_peer c) = peer_ID (s_peer s)" "cn_session c = s" "cn_firstContact c = snd (io_trust w')"
    "pe_Name (cn_peer c) = cleanNickname table (peer_Nickname (s_peer s))" by (simp_all add: t(5) newConn_def)
  from initiate_facts [OF assms(1) t(4)] obtain f where
    f: "fl_binding f = binding"
      "provenBy C (fl_c2 f) (hk_respKey (fl_keys C f)) (hk_respMAC (fl_keys C f)) (fl_th2 C f) labelSignatureResponder labelConfirmResponder
          (peer_ID (s_peer s)) (peer_PublicKey (s_peer s)) (peer_Nickname (s_peer s))"
      "expect = [] \<or> peer_ID (s_peer s) = expect" "\<not> s_closed s"
      "recorderAuthorize (ep_Knows ep) (ep_Inner ep) (peer_ID (s_peer s)) (peer_PublicKey (s_peer s)) (fst (io_trust w), False) = (None, io_trust w')"
    by (auto simp: chatConfig_def)
  note rec = recorder_accepts [OF f(5)]
  with t(1,2) b f(1-4) c show ?thesis by (auto simp: pinOk_def Let_def)
qed

text \<open>What a connection means to the side that dialled. \<^verbatim>\<open>clientConn\<close> returns one only over TLS 1.3 or later,
  to a host whose certificate has the expected fingerprint when one was given, that has proven the identity
  it is shown under over a transcript bound to exactly this TLS session, that is the expected one when one
  was given, and that the trust policy accepted; it is flagged as a first contact exactly when the store
  did not know the ID before; and the name shown is cleaned.\<close>

theorem dial_authenticates:
  assumes "aead_law C" "clientConn C table tls fp expect ep w = (Inr c, w')"
  shows "(\<exists>cert certs binding f. tls_certs tls = cert # certs \<and> VersionTLS13 \<le> tls_version tls
       \<and> (trimSpace fp = '''' \<or> toLower (hexEncode (c_sha256 C cert)) = toLower (trimSpace fp))
       \<and> tls_export tls ChannelBindingLabel ChannelBindingLength = Some binding \<and> fl_binding f = binding
       \<and> provenBy C (fl_c2 f) (hk_respKey (fl_keys C f)) (hk_respMAC (fl_keys C f)) (fl_th2 C f)
            labelSignatureResponder labelConfirmResponder
            (pe_ID (cn_peer c)) (peer_PublicKey (s_peer (cn_session c))) (peer_Nickname (s_peer (cn_session c))))
     \<and> (expect = '''' \<or> pe_ID (cn_peer c) = expect) \<and> pe_ID (cn_peer c) = peer_ID (s_peer (cn_session c))
     \<and> ep_Inner ep (pe_ID (cn_peer c)) (peer_PublicKey (s_peer (cn_session c))) (fst (io_trust w)) = (None, fst (io_trust w'))
     \<and> (cn_firstContact c \<longleftrightarrow> (\<exists>knows. ep_Knows ep = Some knows \<and> \<not> knows (pe_ID (cn_peer c)) (fst (io_trust w))))
     \<and> pe_Name (cn_peer c) = cleanNickname table (peer_Nickname (s_peer (cn_session c))) \<and> \<not> s_closed (cn_session c)"
  by (rule dial_facts [OF assms])

section \<open>Dialling and accepting meet\<close>

definition ownIdentity :: "crypto \<Rightarrow> identity \<Rightarrow> bool" where
  "ownIdentity C d \<longleftrightarrow> (\<exists>tape tape'. generate C tape = (Some d, tape')) \<and> usableIdentityKey (idn_PublicKey d)"

text \<open>An endpoint that will accept the peer it meets.\<close>

definition accepts :: "'t endpointCfg \<Rightarrow> identity \<Rightarrow> 't \<Rightarrow> bool" where
  "accepts ep d t \<longleftrightarrow> fst (ep_Inner ep (idn_ID d) (idn_PublicKey d) t) = None"

lemma MaxNickname_fits: "length (cleanNickname table n) \<le> MaxNicknameBytes"
proof -
  obtain rs where "toBytes (cleanNickname table n) = utf8 rs" "length (utf8 rs) \<le> MaxNicknameLength"
    using cleanNickname_runes by blast
  then have "length (toBytes (cleanNickname table n)) \<le> MaxNicknameLength" by simp
  then show ?thesis by (simp add: MaxNicknameLength_def MaxNicknameBytes_def)
qed

lemma own_honest: "ownIdentity C d \<Longrightarrow> honestCreds C (credentialsOf C table d n)"
proof -
  assume "ownIdentity C d"
  then obtain tape tape' where g: "generate C tape = (Some d, tape')" and u: "usableIdentityKey (idn_PublicKey d)"
    by (auto simp: ownIdentity_def)
  from g have "32 \<le> length tape" and d: "d = \<lparr>idn_PrivateKey = newKeyFromSeed C (take 32 tape),
      idn_PublicKey = privPublic (newKeyFromSeed C (take 32 tape)),
      idn_ID = deriveID C (privPublic (newKeyFromSeed C (take 32 tape)))\<rparr>"
    by (auto simp: generate_def SeedSize_def Let_def split: if_splits)
  then have "idn_PublicKey d = c_edpub C (take 32 tape)" "sign C d = c_sign C (take 32 tape)" "idn_ID d = deriveID C (idn_PublicKey d)"
    by (auto simp: newKeyFromSeed_def privPublic_def privSeed_def sign_def fun_eq_iff)
  then show ?thesis using u MaxNickname_fits by (auto simp: honestCreds_def credentialsOf_def)
qed

lemma io_in_trust: "w\<lparr>io_in := i, io_trust := t\<rparr> = w\<lparr>io_trust := t, io_in := i\<rparr>"
  by simp

lemma chat_ready:
  assumes "ownIdentity C (ep_Identity ep)" "accepts ep (ep_Identity peer) t" "binding \<noteq> []"
    and "expect = '''' \<or> expect = idn_ID (ep_Identity peer)"
  shows "readyToMeet C (chatConfig C table ep binding expect) (t, False) (cfg_Credentials (chatConfig C table peer binding' expect'))"
proof -
  have "\<exists>t'. recorderAuthorize (ep_Knows ep) (ep_Inner ep) (idn_ID (ep_Identity peer)) (idn_PublicKey (ep_Identity peer)) (t, False) = (None, t')"
    using assms(2) by (auto simp: recorderAuthorize_def accepts_def Let_def split: prod.splits)
  then show ?thesis using assms own_honest by (auto simp: readyToMeet_def chatConfig_def credentialsOf_def)
qed

definition tlsPair :: "crypto \<Rightarrow> tlsSession \<Rightarrow> tlsSession \<Rightarrow> bytes \<Rightarrow> bool" where
  "tlsPair C tlsI tlsR binding \<longleftrightarrow> tls_ok tlsI \<and> tls_ok tlsR \<and> binding \<noteq> []
     \<and> tlsChannelBinding (Some tlsI) = Some binding \<and> tlsChannelBinding (Some tlsR) = Some binding"

text \<open>The responder can write as soon as it has read once.\<close>

lemma receive_speaks:
  assumes "receive C h (r, tape) = (Inr x, (r', t'))"
  shows "(skipped r = (\<lambda>_. None) \<and> receiveKey r = None \<or> sendChain r \<noteq> None \<longrightarrow> sendChain r' \<noteq> None)
    \<and> (sendCount r = 0 \<longrightarrow> sendCount r' = 0)"
proof -
  have k: "sendChain (snd (receiveChainKey C h s)) = sendChain s" "sendCount (snd (receiveChainKey C h s)) = sendCount s" for s
    by (auto simp: receiveChainKey_def skipTo_def skipLoop_fields kdfChainKey_def split: option.splits)
  have st: "stepRatchet C p (s, t) = (Inr u, (s', t'')) \<Longrightarrow> sendChain s' \<noteq> None \<and> sendCount s' = 0" for p s t u s' t''
    by (auto simp: stepRatchet_def Let_def split: option.splits sum.splits prod.splits)
  show ?thesis
  proof (cases "skipped r (hdr_ratchetPub h, hdr_n h)")
    case (Some mk)
    then show ?thesis using assms by (auto simp: receive_def split: if_splits)
  next
    case None
    show ?thesis
    proof (cases "receiveKey r = Some (hdr_ratchetPub h)")
      case True
      then show ?thesis using assms None k [of r] by (auto simp: receive_def split: if_splits prod.splits)
    next
      case False
      then obtain r1 r2 u tp where "stepRatchet C (hdr_ratchetPub h) (r1, tape) = (Inr u, (r2, tp))" "snd (receiveChainKey C h r2) = r'"
        using assms None by (auto simp: receive_def split: if_splits prod.splits sum.splits)
      then show ?thesis using st k [of r2] by metis
    qed
  qed
qed

lemma decrypt_speaks:
  assumes "hash_lengths C" "decrypt C now rec (s, tape) = (Inr p, (s', tape'))"
  shows "(skipped (s_ratchet s) = (\<lambda>_. None) \<and> receiveKey (s_ratchet s) = None \<or> sendChain (s_ratchet s) \<noteq> None
       \<longrightarrow> sendChain (s_ratchet s') \<noteq> None)
    \<and> (sendCount (s_ratchet s) = 0 \<longrightarrow> sendCount (s_ratchet s') = 0)"
proof -
  obtain h mk fk ra where r: "receive C h (s_ratchet s, tape) = (Inr (mk, fk), (ra, tape'))" "s' = adopt now fk ra s"
    using assms(2) unfolding decrypt_Inr [OF assms(1)] by blast
  have "sendChain (s_ratchet s') = sendChain ra" "sendCount (s_ratchet s') = sendCount ra"
    using r(2) by (simp_all add: adopt_def forget_def Let_def)
  then show ?thesis using receive_speaks [OF r(1)] by simp
qed

lemma responder_speaks:
  assumes law: "hash_lengths C" and start: "startPair C a b" and reach: "conv_reach C (startConv a b) v"
  shows "(cv_sentB v = [] \<longrightarrow> sendCount (s_ratchet (cv_b v)) = 0)
    \<and> (sendChain (s_ratchet (cv_b v)) = None \<longrightarrow> cv_gotB v = [] \<and> s_ratchet (cv_b v) = s_ratchet b)"
  using reach
proof (induction rule: conv_reach.induct)
  case conv_here
  then show ?case using start by (auto simp: startConv_def startPair_def newRatchetResponder_def)
next
  case (conv_more u w)
  have b: "skipped (s_ratchet b) = (\<lambda>_. None)" "receiveKey (s_ratchet b) = None"
    using start by (auto simp: startPair_def newRatchetResponder_def)
  from conv_more(2) show ?case
  proof (cases rule: conv_step.cases)
    case (sendB p rec b')
    then have "sendChain (s_ratchet b') \<noteq> None"
      unfolding encrypt_Inr [OF law] by (auto simp: ratchetNext_def kdfChainKey_def split: if_splits)
    with sendB conv_more.IH show ?thesis by auto
  next
    case (readB rec recs tape now p b' tape')
    have "sendChain (s_ratchet b') \<noteq> None"
      using decrypt_speaks [OF law readB(4)] conv_more.IH b by (cases "sendChain (s_ratchet (cv_b u))") auto
    then show ?thesis using readB decrypt_speaks [OF law readB(4)] conv_more.IH by simp
  qed (use conv_more.IH in simp_all)
qed

definition speaks :: "session \<Rightarrow> bool" where
  "speaks s \<longleftrightarrow> \<not> s_closed s \<and> sendChain (s_ratchet s) \<noteq> None \<and> sendCount (s_ratchet s) \<noteq> NOT 0"

lemma chat_meeting:
  assumes law: "crypto_law C" "honestKeys C" and tls: "tlsPair C tlsI tlsR binding"
    and pin: "tls_certs tlsI = cert # certs" "pinOk C fp cert" "expect = '''' \<or> expect = idn_ID (ep_Identity host)"
    and own: "ownIdentity C (ep_Identity guest)" "ownIdentity C (ep_Identity host)"
    and acc: "accepts guest (ep_Identity host) (fst (io_trust wI))" "accepts host (ep_Identity guest) (fst (io_trust wR))"
    and wI: "96 \<le> length (io_rand wI)" "64 \<le> length (io_sys wI)" "outRoom (io_out wI) = None"
    and wR: "96 \<le> length (io_rand wR)" "32 \<le> length (io_sys wR)" "outRoom (io_out wR) = None"
    and fresh: "c_xpub C (take 32 (drop 64 (io_rand wR))) \<noteq> c_xpub C (take 32 (io_rand wR))"
  shows "\<exists>toI toR cI cR wI' wR'.
     clientConn C table tlsI fp expect guest (wI\<lparr>io_in := \<lparr>inBytes = toI, inEnd = EOF\<rparr>\<rparr>) = (Inr cI, wI')
     \<and> outBytes (io_out wI') = outBytes (io_out wI) @ toR
     \<and> hostAccept C table tlsR host (wR\<lparr>io_in := \<lparr>inBytes = toR, inEnd = EOF\<rparr>\<rparr>) = (Inr cR, wR')
     \<and> outBytes (io_out wR') = outBytes (io_out wR) @ toI
     \<and> pe_ID (cn_peer cI) = idn_ID (ep_Identity host) \<and> pe_ID (cn_peer cR) = idn_ID (ep_Identity guest)
     \<and> pe_Name (cn_peer cI) = cleanNickname table (ep_Name host) \<and> pe_Name (cn_peer cR) = cleanNickname table (ep_Name guest)
     \<and> caughtUp C (cn_session cI) (cn_session cR) \<and> caughtUp C (cn_session cR) (cn_session cI)
     \<and> speaks (cn_session cR)"
proof -
  let ?cI = "chatConfig C table guest binding expect" and ?cR = "chatConfig C table host binding ''''"
  have b: "binding \<noteq> []" using tls by (simp add: tlsPair_def)
  define vI where "vI = wI\<lparr>io_trust := (fst (io_trust wI), False)\<rparr>"
  define vR where "vR = wR\<lparr>io_trust := (fst (io_trust wR), False)\<rparr>"
  have rI: "readyToMeet C ?cI (io_trust vI) (cfg_Credentials ?cR)"
    using chat_ready [OF own(1) acc(1) b pin(3)] by (simp add: vI_def)
  have rR: "readyToMeet C ?cR (io_trust vR) (cfg_Credentials ?cI)"
    using chat_ready [OF own(2) acc(2) b] by (simp add: vR_def)
  have bind: "cfg_ChannelBinding ?cI = cfg_ChannelBinding ?cR" by (simp add: chatConfig_def)
  have v: "96 \<le> length (io_rand vI)" "64 \<le> length (io_sys vI)" "outRoom (io_out vI) = None"
    "96 \<le> length (io_rand vR)" "32 \<le> length (io_sys vR)" "outRoom (io_out vR) = None"
    "c_xpub C (take 32 (drop 64 (io_rand vR))) \<noteq> c_xpub C (take 32 (io_rand vR))"
    using wI wR fresh by (simp_all add: vI_def vR_def)
  from handshake_runs [OF law rI rR bind v] obtain m1 m2 m3 m4 a d sI sR wI' wR' where h:
    "initiate C ?cI (vI\<lparr>io_in := \<lparr>inBytes = putFrame m2, inEnd = EOF\<rparr>\<rparr>) = (Inr sI, wI')"
    "outBytes (io_out wI') = outBytes (io_out vI) @ putFrame m1 @ putFrame m3 @ putFrame m4"
    "respond C ?cR (vR\<lparr>io_in := \<lparr>inBytes = putFrame m1 @ putFrame m3 @ putFrame m4, inEnd = EOF\<rparr>\<rparr>) = (Inr sR, wR')"
    "outBytes (io_out wR') = outBytes (io_out vR) @ putFrame m2"
    "s_peer sI = (credPeer (cfg_Credentials ?cR))\<lparr>peer_Version := V2\<rparr>"
    "s_peer sR = (credPeer (cfg_Credentials ?cI))\<lparr>peer_Version := V2\<rparr>" "startPair C a d"
    "conv_reach C (startConv a d) \<lparr>cv_a = sI, cv_b = sR, cv_ab = [], cv_ba = [], cv_sentA = [[]], cv_sentB = [], cv_gotA = [], cv_gotB = [[]]\<rparr>"
    by (elim exE conjE) (rule that)
  define cI where "cI = newConn table wI' sI (idn_PublicKey (ep_Identity guest)) (snd (io_trust wI'))"
  define cR where "cR = newConn table wR' sR (idn_PublicKey (ep_Identity host)) (snd (io_trust wR'))"
  let ?toR = "putFrame m1 @ putFrame m3 @ putFrame m4"
  have "clientConn C table tlsI fp expect guest (wI\<lparr>io_in := \<lparr>inBytes = putFrame m2, inEnd = EOF\<rparr>\<rparr>) = (Inr cI, wI')"
    using tls pin h(1) by (simp add: clientConn_def tlsPair_def cI_def vI_def io_in_trust)
  moreover have "hostAccept C table tlsR host (wR\<lparr>io_in := \<lparr>inBytes = ?toR, inEnd = EOF\<rparr>\<rparr>) = (Inr cR, wR')"
    using tls h(3) by (simp add: hostAccept_def tlsPair_def cR_def vR_def io_in_trust)
  moreover have "caughtUp C (cn_session cI) (cn_session cR)" "caughtUp C (cn_session cR) (cn_session cI)"
    unfolding caughtUp_def cI_def cR_def newConn_def
    by (rule exI [of _ a], rule exI [of _ d], rule exI, rule conjI [OF h(7)], rule conjI [OF h(8)], simp)+
  moreover have "cleanNickname table (cleanNickname table n) = cleanNickname table n" for n by (rule clean_twice)
  then have "pe_ID (cn_peer cI) = idn_ID (ep_Identity host)" "pe_ID (cn_peer cR) = idn_ID (ep_Identity guest)"
    "pe_Name (cn_peer cI) = cleanNickname table (ep_Name host)" "pe_Name (cn_peer cR) = cleanNickname table (ep_Name guest)"
    using h(5,6) by (simp_all add: cI_def cR_def newConn_def credPeer_def chatConfig_def credentialsOf_def)
  moreover have "speaks (cn_session cR)"
  proof -
    note laws = crypto_law_parts(1-3) [OF law(1)]
    have "\<not> s_closed sR" using linked_reach [OF h(8) laws law(2) linked_start [OF h(7) laws(3)]] by (auto simp: linked_def)
    then show ?thesis using responder_speaks [OF laws(1) h(7,8)] by (auto simp: speaks_def cR_def newConn_def)
  qed
  ultimately show ?thesis using h(2,4)
    by - (rule exI [of _ "putFrame m2"], rule exI [of _ ?toR], rule exI [of _ cI], rule exI [of _ cR], rule exI [of _ wI'], rule exI [of _ wR'],
      simp add: vI_def vR_def)
qed


section \<open>A meeting at which the witnesses evaluate\<close>

definition sampleIdentity :: identity where
  "sampleIdentity = \<lparr>idn_PrivateKey = newKeyFromSeed plainCrypto (replicate 32 9),
     idn_PublicKey = privPublic (newKeyFromSeed plainCrypto (replicate 32 9)),
     idn_ID = deriveID plainCrypto (privPublic (newKeyFromSeed plainCrypto (replicate 32 9)))\<rparr>"

definition sampleEndpoint :: "string \<Rightarrow> nat endpointCfg" where
  "sampleEndpoint n = \<lparr>ep_Identity = sampleIdentity, ep_Name = n, ep_Inner = (\<lambda>i k t. (None, Suc t)),
     ep_Knows = Some (\<lambda>i t. 0 < t)\<rparr>"

definition sampleTLS :: tlsSession where
  "sampleTLS = \<lparr>tls_ok = True, tls_complete = True, tls_version = 0x0304, tls_certs = [[1]],
     tls_export = (\<lambda>l n. Some (replicate n 7))\<rparr>"

definition sampleChatIO :: "bytes \<Rightarrow> (nat \<times> bool) io" where
  "sampleChatIO tape = \<lparr>io_in = \<lparr>inBytes = [], inEnd = EOF\<rparr>, io_out = \<lparr>outBytes = [], outRoom = None\<rparr>, io_rand = tape,
     io_sys = replicate 64 5, io_trust = (0, False), io_now = 1\<rparr>"

lemma sample_own: "ownIdentity plainCrypto sampleIdentity"
proof -
  have "fill 32 (replicate 32 9) = replicate 32 (9 :: byte)" by (simp add: fill_def)
  then have "idn_PublicKey sampleIdentity = replicate 32 9"
    by (simp add: sampleIdentity_def privPublic_def newKeyFromSeed_def plainCrypto_def)
  moreover have "generate plainCrypto (replicate 32 9) = (Some sampleIdentity, [])"
    by (simp add: generate_def SeedSize_def Let_def sampleIdentity_def)
  ultimately show ?thesis using nines_usable unfolding ownIdentity_def by metis
qed

lemma sample_tls: "tlsPair plainCrypto sampleTLS sampleTLS (replicate 32 7)"
  by (simp add: tlsPair_def sampleTLS_def tlsChannelBinding_def VersionTLS13_def ChannelBindingLength_def)

lemma sample_chat_inputs:
  "tls_certs sampleTLS = [1] # []" "pinOk plainCrypto '''' [1]" "'''' = '''' \<or> '''' = idn_ID (ep_Identity (sampleEndpoint ''bo''))"
  "ownIdentity plainCrypto (ep_Identity (sampleEndpoint n))" "accepts (sampleEndpoint n) d t"
  "96 \<le> length (io_rand (sampleChatIO (replicate 96 1)))" "64 \<le> length (io_sys (sampleChatIO t'))" "outRoom (io_out (sampleChatIO t')) = None"
  "96 \<le> length (io_rand (sampleChatIO (replicate 64 2 @ replicate 32 4)))" "32 \<le> length (io_sys (sampleChatIO t'))"
  "c_xpub plainCrypto (take 32 (drop 64 (io_rand (sampleChatIO (replicate 64 2 @ replicate 32 4)))))
     \<noteq> c_xpub plainCrypto (take 32 (io_rand (sampleChatIO (replicate 64 2 @ replicate 32 4))))"
  using sample_own sample_fresh
  by (simp_all add: sampleTLS_def pinOk_def Let_def trimSpace_none sampleEndpoint_def accepts_def sampleChatIO_def)

lemmas sample_meeting_inputs = plainCrypto_law plain_honest sample_tls sample_chat_inputs(1-3)
  sample_chat_inputs(4) [of "''al''"] sample_chat_inputs(4) [of "''bo''"]
  sample_chat_inputs(5) [of "''al''"] sample_chat_inputs(5) [of "''bo''"] sample_chat_inputs(6-8)
  sample_chat_inputs(9,10,8) sample_chat_inputs(11)


lemma sample_dial:
  "\<exists>w c w'. clientConn plainCrypto table sampleTLS '''' '''' (sampleEndpoint ''al'') w = (Inr c, w') \<and> fst (io_trust w) = 0"
proof -
  have "fst (io_trust ((sampleChatIO t)\<lparr>io_in := i\<rparr>)) = 0" for t i by (simp add: sampleChatIO_def)
  then show ?thesis using chat_meeting [OF sample_meeting_inputs, of table] by blast
qed

theorem dial_authenticates_witness:
  "\<exists>w c w'. clientConn plainCrypto (\<lambda>_. True) sampleTLS '''' '''' (sampleEndpoint ''al'') w = (Inr c, w') \<and> cn_firstContact c"
proof -
  obtain w c w' where w: "clientConn plainCrypto (\<lambda>_. True) sampleTLS '''' '''' (sampleEndpoint ''al'') w = (Inr c, w')" "fst (io_trust w) = 0"
    using sample_dial by blast
  from dial_authenticates [OF crypto_law_parts(2) [OF plainCrypto_law] w(1)] w show ?thesis
    by (auto simp: sampleEndpoint_def)
qed

definition samplePacketJson :: packetJson where
  "samplePacketJson = \<lparr>kj_marshal = (\<lambda>p. toBytes (pk_Text p)), kj_unmarshal = (\<lambda>d. Some ((packetOf ''msg'')\<lparr>pk_Text := ofBytes d\<rparr>))\<rparr>"

definition sampleConn :: "session \<Rightarrow> conn" where
  "sampleConn s = \<lparr>cn_out = \<lparr>outBytes = [], outRoom = None\<rparr>, cn_in = \<lparr>inBytes = [], inEnd = EOF\<rparr>, cn_tape = replicate 32 6,
     cn_session = s, cn_peer = \<lparr>pe_ID = ''cc-A'', pe_Name = ''a'', pe_FirstContact = False, pe_SafetyNumber = ''''\<rparr>,
     cn_localKey = [], cn_firstContact = False, cn_stopped = False\<rparr>"

lemma sample_pair:
  "\<exists>a b. caughtUp plainCrypto a b \<and> freshTape plainCrypto b (replicate 32 6) \<and> \<not> s_closed a
     \<and> (\<exists>ck. sendChain (s_ratchet a) = Some ck) \<and> sendCount (s_ratchet a) \<noteq> NOT 0"
proof -
  obtain ra where ra: "newRatchetInitiator plainCrypto [1] (c_xpub plainCrypto [2]) (replicate 32 3) = (Inr ra, [])"
    unfolding newRatchetInitiator_Inr by (simp add: plainCrypto_def)
  define a where "a = sampleSession\<lparr>s_ratchet := ra\<rparr>"
  define b where "b = sampleSession\<lparr>s_ratchet := newRatchetResponder [1] [2]\<rparr>"
  have st: "startPair plainCrypto a b" using ra by (auto simp: startPair_def a_def b_def sampleSession_def)
  have "caughtUp plainCrypto a b"
    unfolding caughtUp_def by (rule exI [of _ a], rule exI [of _ b], rule exI [of _ "startConv a b"]) (simp add: st conv_here startConv_def)
  moreover have "hd (fill 32 (replicate 32 (6 :: byte))) \<noteq> hd (fill 32 [2])" by (simp add: fill_def)
  then have "fill 32 (replicate 32 (6 :: byte)) \<noteq> fill 32 [2]" by metis
  then have "freshTape plainCrypto b (replicate 32 6)"
    by (simp add: freshTape_def b_def newRatchetResponder_def plainCrypto_def)
  moreover have "\<exists>ck. sendChain (s_ratchet a) = Some ck" "sendCount (s_ratchet a) \<noteq> NOT 0"
    using ra unfolding newRatchetInitiator_Inr by (auto simp: a_def)
  moreover have "\<not> s_closed a" by (simp add: a_def sampleSession_def)
  ultimately show ?thesis by blast
qed

theorem packet_delivery_witness:
  "\<exists>a b a' b'. connSend plainCrypto samplePacketJson ((packetOf ''msg'')\<lparr>pk_Text := ''hi''\<rparr>) a = (Inr (), a')
     \<and> inBytes (cn_in b) = outBytes (cn_out a')
     \<and> connReceive plainCrypto samplePacketJson (\<lambda>_. 7) b = (Inr ((packetOf ''msg'')\<lparr>pk_Text := ''hi''\<rparr>), b')"
proof -
  note laws = crypto_law_parts(1-3) [OF plainCrypto_law]
  let ?p = "(packetOf ''msg'')\<lparr>pk_Text := ''hi''\<rparr>"
  obtain a b ck where ab: "caughtUp plainCrypto a b" "freshTape plainCrypto b (replicate 32 6)" "\<not> s_closed a"
    "sendChain (s_ratchet a) = Some ck" "sendCount (s_ratchet a) \<noteq> NOT 0" using sample_pair by blast
  from writeMessage_eq [OF laws ab(3-5), of "cn_out (sampleConn a)" "toBytes ''hi''"]
  obtain a' where s: "connSend plainCrypto samplePacketJson ?p (sampleConn a) = (Inr (), a')"
    by (auto simp: connSend_def samplePacketJson_def packetOf_def MaxMessageBytes_def sampleConn_def)
  define c where "c = (sampleConn b)\<lparr>cn_in := \<lparr>inBytes = outBytes (cn_out a'), inEnd = EOF\<rparr>\<rparr>"
  have k: "kj_unmarshal samplePacketJson (kj_marshal samplePacketJson ?p) = Some ?p" "pk_Type ?p \<noteq> ''rekey''" "pk_Type ?p \<noteq> ''rekey_ack''"
    by (simp_all add: samplePacketJson_def packetOf_def)
  have c: "caughtUp plainCrypto (cn_session (sampleConn a)) (cn_session c)" "freshTape plainCrypto (cn_session c) (cn_tape c)"
    "outRoom (cn_out (sampleConn a)) = None" "inBytes (cn_in c) = drop (length (outBytes (cn_out (sampleConn a)))) (outBytes (cn_out a')) @ []"
    using ab by (simp_all add: c_def sampleConn_def)
  from packet_delivery [OF laws plain_honest c(1,2) s c(3,4) k, of "\<lambda>_. 7"] s c(4)
  show ?thesis by (auto simp: sampleConn_def)
qed

section \<open>The read loop ends\<close>

lemma connRead_consumes:
  assumes "connRead C K clock c = (Inr p, c')"
  shows "length (inBytes (cn_in c')) + 4 \<le> length (inBytes (cn_in c))"
proof -
  from assms obtain s t i plain where
    r: "readMessage C (clock (length (inBytes (cn_in c)))) (cn_session c, cn_tape c, cn_in c) = (Inr plain, (s, t, i))"
    and c: "c' = c\<lparr>cn_session := s, cn_tape := t, cn_in := i\<rparr>"
    by (auto simp: connRead_def Let_def split: prod.splits sum.splits option.splits)
  from r obtain rec where "readFrame (cn_in c) = (Inr rec, i)"
    by (auto simp: readMessage_def split: prod.splits sum.splits)
  from readFrame_Inr(1) [OF this] show ?thesis by (simp add: c putFrame_def)
qed

lemma connReceive_consumes:
  "connReceive C K clock c = (Inr p, c') \<Longrightarrow> length (inBytes (cn_in c')) + 4 \<le> length (inBytes (cn_in c))"
proof (induction "length (inBytes (cn_in c))" arbitrary: c rule: less_induct)
  case less
  from less.prems show ?case
  proof (cases rule: connReceive_cases)
    case (answered q c1 c2)
    have l: "length (inBytes (cn_in c2)) < length (inBytes (cn_in c))"
      using connRead_shorter [OF answered(1)] connSend_in [OF answered(3)] by simp
    show ?thesis using less.hyps [OF l answered(4)] l by simp
  next
    case (ack q c1)
    note l = connRead_shorter [OF ack(1)]
    show ?thesis using less.hyps [OF l ack(3)] l by simp
  next
    case (packet q)
    then show ?thesis using connRead_consumes by blast
  qed auto
qed



end
