(* ===== verification/Room.thy ===== *)
theory Room
  imports Chat "HOL-Library.Multiset" "HOL-Library.List_Lexorder" "HOL-Library.Char_ord"
begin

text \<open>
  \<^verbatim>\<open>internal/chat/chat.go\<close>, the host: a room is a star of connections around one host. The host's
  state is the record \<^verbatim>\<open>room\<close>; each method and each stretch of \<^verbatim>\<open>serve\<close> between two blocking reads is a
  definition, and \<^verbatim>\<open>room_step\<close> lets them happen in any order. Connections are pointers in Go: here
  they are numbers, and \<^verbatim>\<open>h_links\<close> is the heap.
\<close>

section \<open>State\<close>

datatype phase = Unserved | Admitted | Serving | Gone

record room =
  h_ID :: string
  h_Name :: string
  h_group :: bool
  h_Clients :: "nat list"                \<comment> \<open>the keys of \<^verbatim>\<open>Clients\<close>, in the order a \<^verbatim>\<open>range\<close> visits them\<close>
  h_members :: "(nat \<times> member) list"
  h_links :: "nat \<Rightarrow> conn"
  h_member :: "nat \<Rightarrow> member"            \<comment> \<open>the variable \<^verbatim>\<open>member\<close> of each \<^verbatim>\<open>serve\<close>\<close>
  h_inbound :: "nat \<Rightarrow> peer"             \<comment> \<open>and its \<^verbatim>\<open>peer\<close>\<close>
  h_phase :: "nat \<Rightarrow> phase"
  h_sent :: "(nat \<times> packet) list"        \<comment> \<open>every call of \<^verbatim>\<open>Send\<close>, oldest first\<close>
  h_announced :: "(peer \<times> bool) list"    \<comment> \<open>every call of \<^verbatim>\<open>OnPeer\<close>\<close>
  h_printed :: "string list"

definition newHost :: "string \<Rightarrow> string \<Rightarrow> (nat \<Rightarrow> conn) \<Rightarrow> room" where
  "newHost i name links = \<lparr>h_ID = i, h_Name = name, h_group = True, h_Clients = [], h_members = [], h_links = links,
     h_member = (\<lambda>_. \<lparr>m_ID = '''', m_Name = '''', m_Host = False\<rparr>),
     h_inbound = (\<lambda>_. \<lparr>pe_ID = '''', pe_Name = '''', pe_FirstContact = False, pe_SafetyNumber = ''''\<rparr>),
     h_phase = (\<lambda>_. Unserved), h_sent = [], h_announced = [], h_printed = []\<rparr>"

section \<open>The host's own operations\<close>

definition setGroup :: "bool \<Rightarrow> room \<Rightarrow> room" where
  "setGroup enabled h = h\<lparr>h_group := enabled\<rparr>"

definition hostMembers :: "room \<Rightarrow> member list" where
  "hostMembers h = \<lparr>m_ID = h_ID h, m_Name = h_Name h, m_Host = True\<rparr> # sort_key m_ID (map snd (h_members h))"

definition hostCount :: "room \<Rightarrow> nat" where
  "hostCount h = length (h_members h) + 1"

definition sendTo :: "crypto \<Rightarrow> packetJson \<Rightarrow> packet \<Rightarrow> nat \<Rightarrow> room \<Rightarrow> bool \<times> room" where
  "sendTo C K p cid h =
     (case connSend C K p (h_links h cid) of
        (r, c') \<Rightarrow> (case r of Inl _ \<Rightarrow> False | Inr _ \<Rightarrow> True,
                   h\<lparr>h_links := (h_links h)(cid := c'), h_sent := h_sent h @ [(cid, p)]\<rparr>))"

definition closeLink :: "nat \<Rightarrow> room \<Rightarrow> room" where
  "closeLink cid h = h\<lparr>h_links := (h_links h)(cid := connClose (h_links h cid))\<rparr>"

definition sendOrClose :: "crypto \<Rightarrow> packetJson \<Rightarrow> packet \<Rightarrow> nat \<Rightarrow> room \<Rightarrow> room" where
  "sendOrClose C K p cid h = (case sendTo C K p cid h of (ok, h') \<Rightarrow> if ok then h' else closeLink cid h')"

fun sendAll :: "crypto \<Rightarrow> packetJson \<Rightarrow> packet \<Rightarrow> nat list \<Rightarrow> room \<Rightarrow> room" where
  "sendAll C K p [] h = h"
| "sendAll C K p (cid # cs) h = sendAll C K p cs (sendOrClose C K p cid h)"

definition broadcastExcept :: "crypto \<Rightarrow> packetJson \<Rightarrow> packet \<Rightarrow> nat option \<Rightarrow> room \<Rightarrow> room" where
  "broadcastExcept C K p except h = sendAll C K p (filter (\<lambda>c. Some c \<noteq> except) (h_Clients h)) h"

definition hostBroadcast :: "crypto \<Rightarrow> packetJson \<Rightarrow> packet \<Rightarrow> room \<Rightarrow> room" where
  "hostBroadcast C K p h =
     (if pk_Type p = ''msg'' \<and> length (pk_Text p) > MaxMessageBytes then h else broadcastExcept C K p None h)"

definition sendRoster :: "crypto \<Rightarrow> packetJson \<Rightarrow> room \<Rightarrow> room" where
  "sendRoster C K h = broadcastExcept C K ((packetOf ''roster'')\<lparr>pk_Members := hostMembers h\<rparr>) None h"

definition systemf :: "crypto \<Rightarrow> packetJson \<Rightarrow> string \<Rightarrow> room \<Rightarrow> room" where
  "systemf C K text h = broadcastExcept C K ((packetOf ''system'')\<lparr>pk_Text := text\<rparr>) None h"

definition announcePeer :: "peer \<Rightarrow> bool \<Rightarrow> room \<Rightarrow> room" where
  "announcePeer p gone h = h\<lparr>h_announced := h_announced h @ [(p, gone)]\<rparr>"

definition setName :: "crypto \<Rightarrow> packetJson \<Rightarrow> (nat \<Rightarrow> bool) \<Rightarrow> string \<Rightarrow> room \<Rightarrow> room" where
  "setName C K table name h =
     (let h1 = h\<lparr>h_Name := cleanNickname table name\<rparr> in if h_group h then sendRoster C K h1 else h1)"

definition disconnectAll :: "room \<Rightarrow> room" where
  "disconnectAll h = foldl (\<lambda>h c. closeLink c h) h (h_Clients h)"

section \<open>Serving one guest\<close>

text \<open>From the completed handshakes to the admission decision.\<close>

definition inboundPeer :: "crypto \<Rightarrow> conn \<Rightarrow> peer" where
  "inboundPeer C c = \<lparr>pe_ID = pe_ID (cn_peer c), pe_Name = pe_Name (cn_peer c), pe_FirstContact = cn_firstContact c,
     pe_SafetyNumber = connSafetyNumber C c\<rparr>"

definition alreadyInChat :: string where
  "alreadyInChat = ''this host is already in a chat and has group chat turned off''"

definition admit :: "crypto \<Rightarrow> packetJson \<Rightarrow> nat \<Rightarrow> room \<Rightarrow> room" where
  "admit C K cid h =
     (let c = h_links h cid;
          m = \<lparr>m_ID = pe_ID (cn_peer c), m_Name = pe_Name (cn_peer c), m_Host = False\<rparr>
      in if \<not> h_group h \<and> length (h_members h) > 0 then
           closeLink cid (snd (sendTo C K ((packetOf ''error'')\<lparr>pk_Text := alreadyInChat\<rparr>) cid h))
             \<lparr>h_phase := (h_phase h)(cid := Gone)\<rparr>
         else h\<lparr>h_Clients := h_Clients h @ [cid], h_members := h_members h @ [(cid, m)],
                h_member := (h_member h)(cid := m), h_inbound := (h_inbound h)(cid := inboundPeer C c),
                h_phase := (h_phase h)(cid := Admitted)\<rparr>)"

text \<open>The deferred departure: out of both maps, announced, told to the others, closed.\<close>

definition leave :: "crypto \<Rightarrow> packetJson \<Rightarrow> nat \<Rightarrow> room \<Rightarrow> room" where
  "leave C K cid h =
     (let h1 = h\<lparr>h_Clients := filter (\<lambda>c. c \<noteq> cid) (h_Clients h),
                 h_members := filter (\<lambda>(c, m). c \<noteq> cid) (h_members h), h_phase := (h_phase h)(cid := Gone)\<rparr>;
          h2 = announcePeer (h_inbound h cid) True h1;
          h3 = (if h_group h2 then sendRoster C K (systemf C K (memberDisplay (h_member h cid) @ '' left'') h2) else h2)
      in closeLink cid h3)"

text \<open>The greeting: \<^verbatim>\<open>hello\<close> to the guest, the news to everybody else.\<close>

definition greet :: "crypto \<Rightarrow> packetJson \<Rightarrow> nat \<Rightarrow> room \<Rightarrow> room" where
  "greet C K cid h =
     (case sendTo C K ((packetOf ''hello'')\<lparr>pk_From := h_ID h, pk_Name := h_Name h, pk_Group := h_group h\<rparr>) cid h of
        (ok, h1) \<Rightarrow>
          (if \<not> ok then leave C K cid h1
           else let h2 = announcePeer (h_inbound h cid) False (h1\<lparr>h_phase := (h_phase h1)(cid := Serving)\<rparr>)
                in if h_group h2
                   then sendRoster C K (broadcastExcept C K ((packetOf ''system'')\<lparr>pk_Text := memberDisplay (h_member h cid) @ '' joined''\<rparr>) (Some cid) h2)
                   else h2))"

definition printedLine :: "member \<Rightarrow> string \<Rightarrow> string" where
  "printedLine m t = CHR 0x0D # ''['' @ memberDisplay m @ ''] '' @ t @ [CHR 0x0A] @ ''> ''"

definition handlePacket :: "crypto \<Rightarrow> packetJson \<Rightarrow> (nat \<Rightarrow> bool) \<Rightarrow> nat \<Rightarrow> packet \<Rightarrow> room \<Rightarrow> room" where
  "handlePacket C K table cid p h =
     (let m = h_member h cid in
      if pk_Type p = ''nick'' then
        (let renamed = \<lparr>m_ID = m_ID m, m_Name = cleanNickname table (pk_Name p), m_Host = False\<rparr>;
             h1 = h\<lparr>h_members := map (\<lambda>(c, x). if c = cid then (c, renamed) else (c, x)) (h_members h)\<rparr>;
             h2 = (if h_group h1 \<and> memberDisplay renamed \<noteq> memberDisplay m
                   then sendRoster C K (systemf C K (memberDisplay m @ '' is now '' @ memberDisplay renamed) h1) else h1)
         in h2\<lparr>h_member := (h_member h2)(cid := renamed)\<rparr>)
      else if pk_Type p \<noteq> ''msg'' then h
      else if length (pk_Text p) > MaxMessageBytes then
        snd (sendTo C K ((packetOf ''error'')\<lparr>pk_Text := ''message exceeds 4096 bytes''\<rparr>) cid h)
      else let h1 = h\<lparr>h_printed := h_printed h @ [printedLine m (pk_Text p)]\<rparr>
           in if h_group h1
              then broadcastExcept C K ((packetOf ''msg'')\<lparr>pk_From := m_ID m, pk_Name := m_Name m, pk_Text := pk_Text p\<rparr>) (Some cid) h1
              else h1)"

definition serveOne :: "crypto \<Rightarrow> packetJson \<Rightarrow> (nat \<Rightarrow> bool) \<Rightarrow> (nat \<Rightarrow> int) \<Rightarrow> nat \<Rightarrow> room \<Rightarrow> room" where
  "serveOne C K table clock cid h =
     (case connReceive C K clock (h_links h cid) of
        (r, c') \<Rightarrow>
          (let h1 = h\<lparr>h_links := (h_links h)(cid := c')\<rparr>
           in case r of Inl _ \<Rightarrow> leave C K cid h1 | Inr p \<Rightarrow> handlePacket C K table cid p h1))"

section \<open>The room as it runs\<close>

text \<open>
  A guest's \<^verbatim>\<open>serve\<close> starts on any connection \<^verbatim>\<open>Accept\<close> returned, whose peer is the one its session
  authenticated. The rest of the world adds bytes to what a link will read and takes away its room to
  write.
\<close>

definition acceptedConn :: "(nat \<Rightarrow> bool) \<Rightarrow> conn \<Rightarrow> bool" where
  "acceptedConn table c \<longleftrightarrow> pe_ID (cn_peer c) = peer_ID (s_peer (cn_session c))
     \<and> pe_Name (cn_peer c) = cleanNickname table (peer_Nickname (s_peer (cn_session c)))"

inductive room_step :: "crypto \<Rightarrow> packetJson \<Rightarrow> (nat \<Rightarrow> bool) \<Rightarrow> room \<Rightarrow> room \<Rightarrow> bool" for C K table where
  arrives: "h_phase h cid = Unserved \<Longrightarrow> acceptedConn table (h_links h cid) \<Longrightarrow> room_step C K table h (admit C K cid h)"
| greeted: "h_phase h cid = Admitted \<Longrightarrow> room_step C K table h (greet C K cid h)"
| served: "h_phase h cid = Serving \<Longrightarrow> room_step C K table h (serveOne C K table clock cid h)"
| says: "room_step C K table h (hostBroadcast C K p h)"
| renames: "room_step C K table h (setName C K table n h)"
| switches: "room_step C K table h (setGroup b h)"
| disconnects: "room_step C K table h (disconnectAll h)"
| network: "sameLink (h_links h cid) c' \<Longrightarrow> room_step C K table h (h\<lparr>h_links := (h_links h)(cid := c')\<rparr>)"

inductive room_reach :: "crypto \<Rightarrow> packetJson \<Rightarrow> (nat \<Rightarrow> bool) \<Rightarrow> room \<Rightarrow> room \<Rightarrow> bool" for C K table h0 where
  room_here: "room_reach C K table h0 h0"
| room_more: "room_reach C K table h0 h \<Longrightarrow> room_step C K table h h' \<Longrightarrow> room_reach C K table h0 h'"

inductive_cases room_stepE: "room_step C K table h h'"

section \<open>What sending does to the room\<close>

lemma connSend_close_same: "sameLink c (snd (connSend C K p c))" "sameLink c (connClose (snd (connSend C K p c)))"
  using connSend_same [of C K p c] connClose_same sameLink_trans by (cases "connSend C K p c"; fastforce)+

text \<open>What becomes of one link: the packet goes out, and a link that fails is closed.\<close>

definition pushed :: "crypto \<Rightarrow> packetJson \<Rightarrow> packet \<Rightarrow> conn \<Rightarrow> conn" where
  "pushed C K p c = (case connSend C K p c of (Inl _, c') \<Rightarrow> connClose c' | (Inr _, c') \<Rightarrow> c')"

lemma pushed_same: "sameLink c (pushed C K p c)"
  using connSend_close_same [of c C K p] by (auto simp: pushed_def split: prod.splits sum.splits)

lemma sendOrClose_eq:
  "sendOrClose C K p cid h = h\<lparr>h_links := (h_links h)(cid := pushed C K p (h_links h cid)), h_sent := h_sent h @ [(cid, p)]\<rparr>"
  by (simp add: sendOrClose_def sendTo_def closeLink_def pushed_def split: prod.splits sum.splits)

definition pushAll :: "crypto \<Rightarrow> packetJson \<Rightarrow> packet \<Rightarrow> nat list \<Rightarrow> (nat \<Rightarrow> conn) \<Rightarrow> nat \<Rightarrow> conn" where
  "pushAll C K p cs links c = (if c \<in> set cs then pushed C K p (links c) else links c)"

lemma sendAll_eq:
  "distinct cs \<Longrightarrow> sendAll C K p cs h = h\<lparr>h_links := pushAll C K p cs (h_links h), h_sent := h_sent h @ map (\<lambda>c. (c, p)) cs\<rparr>"
proof (induction cs arbitrary: h)
  case Nil
  then show ?case by (simp add: pushAll_def)
next
  case (Cons c cs)
  have "pushAll C K p cs ((h_links h)(c := pushed C K p (h_links h c))) = pushAll C K p (c # cs) (h_links h)"
    using Cons.prems by (auto simp: pushAll_def fun_eq_iff)
  then show ?case using Cons by (simp add: sendOrClose_eq)
qed

lemma pushAll_same: "sameLink (links c) (pushAll C K p cs links c)"
  by (simp add: pushAll_def pushed_same)

text \<open>Everything but the links and the record of sends; and the links keep their peers.\<close>

definition quietRoom :: "room \<Rightarrow> room \<Rightarrow> bool" where
  "quietRoom h h' \<longleftrightarrow> h' = h\<lparr>h_links := h_links h', h_sent := h_sent h'\<rparr> \<and> (\<forall>c. sameLink (h_links h c) (h_links h' c))"

lemma quietRoom_refl [simp]: "quietRoom h h"
  by (simp add: quietRoom_def)

lemma quietRoom_fields:
  assumes "quietRoom h h'"
  shows "h_ID h' = h_ID h" "h_Name h' = h_Name h" "h_group h' = h_group h" "h_Clients h' = h_Clients h" "h_members h' = h_members h"
    "h_member h' = h_member h" "h_inbound h' = h_inbound h" "h_phase h' = h_phase h" "h_announced h' = h_announced h" "h_printed h' = h_printed h"
    "s_peer (cn_session (h_links h' c)) = s_peer (cn_session (h_links h c))" "cn_peer (h_links h' c) = cn_peer (h_links h c)"
proof -
  from assms have e: "h' = h\<lparr>h_links := h_links h', h_sent := h_sent h'\<rparr>" and s: "sameLink (h_links h c) (h_links h' c)"
    by (auto simp: quietRoom_def)
  show "s_peer (cn_session (h_links h' c)) = s_peer (cn_session (h_links h c))" "cn_peer (h_links h' c) = cn_peer (h_links h c)"
    using s by (simp_all add: sameLink_def)
  show "h_ID h' = h_ID h" "h_Name h' = h_Name h" "h_group h' = h_group h" "h_Clients h' = h_Clients h" "h_members h' = h_members h"
    "h_member h' = h_member h" "h_inbound h' = h_inbound h" "h_phase h' = h_phase h" "h_announced h' = h_announced h" "h_printed h' = h_printed h"
    by (subst e, simp)+
qed

lemma quietRoom_trans: "quietRoom h g \<Longrightarrow> quietRoom g k \<Longrightarrow> quietRoom h k"
proof -
  assume hg: "quietRoom h g" and gk: "quietRoom g k"
  have "k = h\<lparr>h_links := h_links k, h_sent := h_sent k\<rparr>"
    using quietRoom_fields(1-10) [OF hg] quietRoom_fields(1-10) [OF gk] by (intro room.equality) simp_all
  moreover have "sameLink (h_links h c) (h_links k c)" for c
    using hg gk sameLink_trans unfolding quietRoom_def by blast
  ultimately show ?thesis by (simp add: quietRoom_def)
qed

lemma broadcast_quiet: "distinct (h_Clients h) \<Longrightarrow> quietRoom h (broadcastExcept C K p x h)"
  by (simp add: broadcastExcept_def sendAll_eq quietRoom_def pushAll_same)

lemma broadcast_sent:
  "distinct (h_Clients h) \<Longrightarrow>
     h_sent (broadcastExcept C K p x h) = h_sent h @ map (\<lambda>c. (c, p)) (filter (\<lambda>c. Some c \<noteq> x) (h_Clients h))"
  by (simp add: broadcastExcept_def sendAll_eq)

lemma roster_quiet: "distinct (h_Clients h) \<Longrightarrow> quietRoom h (sendRoster C K h)"
  by (simp add: sendRoster_def broadcast_quiet)

lemma news_quiet: "distinct (h_Clients h) \<Longrightarrow> quietRoom h (sendRoster C K (broadcastExcept C K p x h))"
  using roster_quiet [of "broadcastExcept C K p x h"] broadcast_quiet [of h C K p x]
  by (metis quietRoom_fields(4) quietRoom_trans)

lemma sendTo_quiet: "sendTo C K p cid h = (ok, h') \<Longrightarrow> quietRoom h h'"
  using connSend_close_same(1) [of "h_links h cid" C K p] by (auto simp: sendTo_def quietRoom_def split: prod.splits)

lemma closeLink_quiet: "quietRoom h (closeLink cid h)"
  by (simp add: closeLink_def quietRoom_def connClose_same)

lemma disconnect_quiet: "quietRoom h (disconnectAll h)"
proof -
  have "quietRoom h (foldl (\<lambda>h c. closeLink c h) h cs)" for cs
    by (induction cs arbitrary: h) (auto intro: quietRoom_trans [OF closeLink_quiet])
  then show ?thesis by (simp add: disconnectAll_def)
qed

section \<open>The invariant of the room\<close>

definition memberOk :: "(nat \<Rightarrow> bool) \<Rightarrow> room \<Rightarrow> nat \<Rightarrow> bool" where
  "memberOk table h c \<longleftrightarrow> m_ID (h_member h c) = peer_ID (s_peer (cn_session (h_links h c))) \<and> \<not> m_Host (h_member h c)
     \<and> (\<exists>raw. m_Name (h_member h c) = cleanNickname table raw)
     \<and> pe_ID (h_inbound h c) = peer_ID (s_peer (cn_session (h_links h c)))"

definition roomInv :: "(nat \<Rightarrow> bool) \<Rightarrow> room \<Rightarrow> bool" where
  "roomInv table h \<longleftrightarrow> distinct (h_Clients h) \<and> h_members h = map (\<lambda>c. (c, h_member h c)) (h_Clients h)
     \<and> (\<forall>c. c \<in> set (h_Clients h) \<longleftrightarrow> h_phase h c = Admitted \<or> h_phase h c = Serving)
     \<and> (\<forall>c \<in> set (h_Clients h). memberOk table h c)"

lemma quiet_inv: "quietRoom h h' \<Longrightarrow> roomInv table h \<Longrightarrow> roomInv table h'"
  unfolding roomInv_def memberOk_def by (simp add: quietRoom_fields)

lemma link_inv: "sameLink (h_links h cid) c' \<Longrightarrow> roomInv table h \<Longrightarrow> roomInv table (h\<lparr>h_links := (h_links h)(cid := c')\<rparr>)"
  by (rule quiet_inv [of h]) (simp_all add: quietRoom_def)

lemma leave_inv:
  assumes "roomInv table h"
  shows "roomInv table (leave C K cid h)"
proof -
  define h2 where "h2 = announcePeer (h_inbound h cid) True
     (h\<lparr>h_Clients := filter (\<lambda>c. c \<noteq> cid) (h_Clients h), h_members := filter (\<lambda>(c, m). c \<noteq> cid) (h_members h), h_phase := (h_phase h)(cid := Gone)\<rparr>)"
  have "filter (\<lambda>(c, m). c \<noteq> cid) (map (\<lambda>c. (c, f c)) cs) = map (\<lambda>c. (c, f c)) (filter (\<lambda>c. c \<noteq> cid) cs)" for f :: "nat \<Rightarrow> member" and cs
    by (induction cs) auto
  then have i: "roomInv table h2" using assms
    by (auto simp: roomInv_def h2_def announcePeer_def memberOk_def)
  then have d: "distinct (h_Clients h2)" by (simp add: roomInv_def)
  have "leave C K cid h = closeLink cid (if h_group h2 then sendRoster C K (systemf C K (memberDisplay (h_member h cid) @ '' left'') h2) else h2)"
    by (simp add: leave_def h2_def Let_def)
  then show ?thesis using quiet_inv [OF closeLink_quiet] quiet_inv [OF news_quiet [OF d]] i by (auto simp: systemf_def)
qed

lemma greet_inv:
  assumes "roomInv table h" "h_phase h cid = Admitted"
  shows "roomInv table (greet C K cid h)"
proof -
  obtain ok h1 where s: "sendTo C K ((packetOf ''hello'')\<lparr>pk_From := h_ID h, pk_Name := h_Name h, pk_Group := h_group h\<rparr>) cid h = (ok, h1)"
    by (metis surj_pair)
  have i1: "roomInv table h1" by (rule quiet_inv [OF sendTo_quiet [OF s] assms(1)])
  have ph: "h_phase h1 cid = Admitted" using assms(2) quietRoom_fields(8) [OF sendTo_quiet [OF s]] by simp
  define h2 where "h2 = announcePeer (h_inbound h cid) False (h1\<lparr>h_phase := (h_phase h1)(cid := Serving)\<rparr>)"
  have i2: "roomInv table h2" using i1 ph by (auto simp: roomInv_def h2_def announcePeer_def memberOk_def)
  then have d: "distinct (h_Clients h2)" by (simp add: roomInv_def)
  have "greet C K cid h = (if \<not> ok then leave C K cid h1 else if h_group h2
      then sendRoster C K (broadcastExcept C K ((packetOf ''system'')\<lparr>pk_Text := memberDisplay (h_member h cid) @ '' joined''\<rparr>) (Some cid) h2) else h2)"
    unfolding greet_def s by (simp add: h2_def Let_def)
  then show ?thesis using leave_inv [OF i1] quiet_inv [OF news_quiet [OF d] i2] i2 by simp
qed

lemma admit_inv:
  assumes "roomInv table h" "h_phase h cid = Unserved" "acceptedConn table (h_links h cid)"
  shows "roomInv table (admit C K cid h)"
proof (cases "\<not> h_group h \<and> length (h_members h) > 0")
  case True
  let ?h1 = "closeLink cid (snd (sendTo C K ((packetOf ''error'')\<lparr>pk_Text := alreadyInChat\<rparr>) cid h))"
  have "quietRoom h ?h1" by (metis closeLink_quiet quietRoom_trans sendTo_quiet prod.collapse)
  then have "roomInv table ?h1" "h_phase ?h1 cid = Unserved" using quiet_inv assms(1,2) quietRoom_fields(8) by (auto dest: quietRoom_fields(8))
  then have "roomInv table (?h1\<lparr>h_phase := (h_phase ?h1)(cid := Gone)\<rparr>)" by (auto simp: roomInv_def memberOk_def)
  moreover have "h_phase ?h1 = h_phase h" using \<open>quietRoom h ?h1\<close> by (rule quietRoom_fields(8))
  ultimately show ?thesis using True by (simp add: admit_def Let_def)
next
  case False
  then show ?thesis using assms
    by (auto simp: admit_def Let_def roomInv_def memberOk_def acceptedConn_def inboundPeer_def)
qed

text \<open>A guest's message, and everything that is neither a message nor a rename.\<close>

definition relayed :: "room \<Rightarrow> nat \<Rightarrow> packet \<Rightarrow> packet" where
  "relayed h cid p = (packetOf ''msg'')\<lparr>pk_From := m_ID (h_member h cid), pk_Name := m_Name (h_member h cid), pk_Text := pk_Text p\<rparr>"

definition tooLong :: packet where
  "tooLong = (packetOf ''error'')\<lparr>pk_Text := ''message exceeds 4096 bytes''\<rparr>"

lemma handlePacket_msg:
  "pk_Type p = ''msg'' \<Longrightarrow> handlePacket C K table cid p h =
     (if length (pk_Text p) > MaxMessageBytes then snd (sendTo C K tooLong cid h)
      else let h1 = h\<lparr>h_printed := h_printed h @ [printedLine (h_member h cid) (pk_Text p)]\<rparr>
           in if h_group h then broadcastExcept C K (relayed h cid p) (Some cid) h1 else h1)"
  by (simp add: handlePacket_def Let_def relayed_def tooLong_def)

lemma handlePacket_other: "pk_Type p \<noteq> ''nick'' \<Longrightarrow> pk_Type p \<noteq> ''msg'' \<Longrightarrow> handlePacket C K table cid p h = h"
  by (simp add: handlePacket_def Let_def)

lemma handle_inv:
  assumes "roomInv table h" "h_phase h cid = Serving"
  shows "roomInv table (handlePacket C K table cid p h)"
proof -
  have d: "distinct (h_Clients h)" "cid \<in> set (h_Clients h)" using assms by (auto simp: roomInv_def)
  show ?thesis
  proof (cases "pk_Type p = ''nick''")
    case True
    define m where "m = h_member h cid"
    define renamed where "renamed = \<lparr>m_ID = m_ID m, m_Name = cleanNickname table (pk_Name p), m_Host = False\<rparr>"
    define h1 where "h1 = h\<lparr>h_members := map (\<lambda>(c, x). if c = cid then (c, renamed) else (c, x)) (h_members h)\<rparr>"
    define h2 where "h2 = (if h_group h1 \<and> memberDisplay renamed \<noteq> memberDisplay m
                   then sendRoster C K (systemf C K (memberDisplay m @ '' is now '' @ memberDisplay renamed) h1) else h1)"
    have q: "quietRoom h1 h2" using d news_quiet [of h1] by (simp add: h2_def systemf_def h1_def)
    have e: "handlePacket C K table cid p h = h2\<lparr>h_member := (h_member h2)(cid := renamed)\<rparr>"
      by (simp only: handlePacket_def Let_def True if_True simp_thms m_def h1_def h2_def renamed_def)
    have "m_ID m = peer_ID (s_peer (cn_session (h_links h cid)))" using assms d by (auto simp: roomInv_def memberOk_def m_def)
    then show ?thesis using assms(1) quietRoom_fields [OF q]
      unfolding e by (auto simp: roomInv_def memberOk_def h1_def renamed_def comp_def)
  next
    case False
    show ?thesis
    proof (cases "pk_Type p = ''msg''")
      case True
      let ?h1 = "h\<lparr>h_printed := h_printed h @ [printedLine (h_member h cid) (pk_Text p)]\<rparr>"
      have i1: "roomInv table ?h1" using assms(1) by (simp add: roomInv_def memberOk_def)
      have "distinct (h_Clients ?h1)" using d by simp
      note b = quiet_inv [OF broadcast_quiet [OF this] i1]
      have s: "roomInv table (snd (sendTo C K q cid h))" for q
        by (metis quiet_inv [OF sendTo_quiet assms(1)] prod.collapse)
      show ?thesis unfolding handlePacket_msg [OF True] using b s i1 by (simp add: Let_def)
    qed (use False assms(1) in \<open>simp add: handlePacket_other\<close>)
  qed
qed

lemma serve_inv:
  assumes "roomInv table h" "h_phase h cid = Serving"
  shows "roomInv table (serveOne C K table clock cid h)"
proof -
  obtain r c' where r: "connReceive C K clock (h_links h cid) = (r, c')" by (metis surj_pair)
  let ?h1 = "h\<lparr>h_links := (h_links h)(cid := c')\<rparr>"
  have i: "roomInv table ?h1" by (rule link_inv [OF connReceive_same [OF r] assms(1)])
  have "h_phase ?h1 cid = Serving" using assms(2) by simp
  with i show ?thesis unfolding serveOne_def r using leave_inv handle_inv by (simp add: Let_def split: sum.split)
qed

lemma step_inv:
  assumes "room_step C K table h h'" "roomInv table h"
  shows "roomInv table h'"
  using assms(1)
proof cases
  case (arrives cid)
  then show ?thesis using admit_inv assms(2) by blast
next
  case (greeted cid)
  then show ?thesis using greet_inv assms(2) by blast
next
  case (served cid clock)
  then show ?thesis using serve_inv assms(2) by blast
next
  case (says p)
  have "distinct (h_Clients h)" using assms(2) by (simp add: roomInv_def)
  then show ?thesis using says assms(2) quiet_inv [OF broadcast_quiet] by (simp add: hostBroadcast_def)
next
  case (renames n)
  have i: "roomInv table (h\<lparr>h_Name := cleanNickname table n\<rparr>)" using assms(2) by (simp add: roomInv_def memberOk_def)
  then have "distinct (h_Clients (h\<lparr>h_Name := cleanNickname table n\<rparr>))" by (simp add: roomInv_def)
  then show ?thesis using renames i quiet_inv [OF roster_quiet i] by (simp add: setName_def Let_def)
next
  case (switches b)
  then show ?thesis using assms(2) by (simp add: setGroup_def roomInv_def memberOk_def)
next
  case disconnects
  then show ?thesis using assms(2) quiet_inv [OF disconnect_quiet] by blast
next
  case (network cid c')
  then show ?thesis using link_inv assms(2) by blast
qed

lemma reach_inv: "room_reach C K table (newHost i n links) h \<Longrightarrow> roomInv table h"
proof (induction rule: room_reach.induct)
  case room_here
  then show ?case by (simp add: newHost_def roomInv_def)
next
  case (room_more h h')
  then show ?case using step_inv by blast
qed

text \<open>C18: The room always knows who is in it. In every state a room can reach, the connections and the roster
  have the same, distinct keys, which are exactly the guests admitted and not yet gone; and whatever the
  guests have sent, every roster entry carries the ID its connection authenticated, a cleaned nickname and
  no host mark, and the peer announced on arrival is that ID too.\<close>

theorem room_knows_its_guests:
  assumes "room_reach C K table (newHost i n links) h"
  shows "distinct (h_Clients h) \<and> h_members h = map (\<lambda>c. (c, h_member h c)) (h_Clients h)
     \<and> (\<forall>c. c \<in> set (h_Clients h) \<longleftrightarrow> h_phase h c = Admitted \<or> h_phase h c = Serving)
     \<and> (\<forall>(c, m) \<in> set (h_members h). m_ID m = peer_ID (s_peer (cn_session (h_links h c))) \<and> \<not> m_Host m
          \<and> (\<exists>raw. m_Name m = cleanNickname table raw) \<and> pe_ID (h_inbound h c) = m_ID m)"
  using reach_inv [OF assms] by (auto simp: roomInv_def memberOk_def)

section \<open>Relaying\<close>

lemma handle_quiet_or_nick:
  assumes "distinct (h_Clients h)"
  shows "map (\<lambda>(c, m). (c, m_ID m)) (h_members (handlePacket C K table cid p h))
     = map (\<lambda>(c, m). (c, if c = cid \<and> pk_Type p = ''nick'' then m_ID (h_member h cid) else m_ID m)) (h_members h)"
proof -
  consider "pk_Type p = ''nick''" | "pk_Type p = ''msg''" | "pk_Type p \<noteq> ''nick''" "pk_Type p \<noteq> ''msg''" by blast
  then show ?thesis
  proof cases
    case 1
    define m where "m = h_member h cid"
    define renamed where "renamed = \<lparr>m_ID = m_ID m, m_Name = cleanNickname table (pk_Name p), m_Host = False\<rparr>"
    define h1 where "h1 = h\<lparr>h_members := map (\<lambda>(c, x). if c = cid then (c, renamed) else (c, x)) (h_members h)\<rparr>"
    define h2 where "h2 = (if h_group h1 \<and> memberDisplay renamed \<noteq> memberDisplay m
                   then sendRoster C K (systemf C K (memberDisplay m @ '' is now '' @ memberDisplay renamed) h1) else h1)"
    have q: "quietRoom h1 h2" using assms news_quiet [of h1] by (simp add: h2_def systemf_def h1_def)
    have e: "handlePacket C K table cid p h = h2\<lparr>h_member := (h_member h2)(cid := renamed)\<rparr>"
      by (simp only: handlePacket_def Let_def 1 if_True simp_thms m_def h1_def h2_def renamed_def)
    have "h_members (handlePacket C K table cid p h) = h_members h1" using quietRoom_fields(5) [OF q] by (simp add: e)
    then show ?thesis using 1 by (auto simp: h1_def renamed_def m_def)
  next
    case 2
    have s: "h_members (snd (sendTo C K q cid h)) = h_members h" for q by (metis quietRoom_fields(5) sendTo_quiet prod.collapse)
    let ?h1 = "h\<lparr>h_printed := h_printed h @ [printedLine (h_member h cid) (pk_Text p)]\<rparr>"
    have "distinct (h_Clients ?h1)" using assms by simp
    then have "h_members (broadcastExcept C K q (Some cid) ?h1) = h_members h" for q
      using quietRoom_fields(5) [OF broadcast_quiet [of ?h1]] by simp
    then show ?thesis unfolding handlePacket_msg [OF 2] using s 2 by (auto simp: Let_def)
  next
    case 3
    then show ?thesis by (auto simp: handlePacket_other)
  qed
qed

lemma sendTo_sent: "h_sent (snd (sendTo C K p cid h)) = h_sent h @ [(cid, p)]"
  by (simp add: sendTo_def split: prod.split)

lemma handle_msg_sent:
  assumes "distinct (h_Clients h)" "pk_Type p = ''msg''"
  shows "h_sent (handlePacket C K table cid p h) = h_sent h @
     (if length (pk_Text p) > MaxMessageBytes then [(cid, tooLong)]
      else if h_group h then map (\<lambda>d. (d, relayed h cid p)) (filter (\<lambda>d. d \<noteq> cid) (h_Clients h)) else [])"
  using assms(1) by (simp add: handlePacket_msg [OF assms(2)] sendTo_sent Let_def broadcast_sent)

text \<open>C20: Nobody can put words in another guest's mouth. When a guest of a reachable room sends a message, and
  group chat is on, every other guest is sent exactly one packet: the text, unchanged, under the ID the
  sender's connection authenticated and the sender's cleaned nickname, and the sender gets nothing back; a
  text over 4096 bytes is answered with an error and relayed to nobody. What the packet itself claims about
  its sender, in From, Name, Members or Group, changes nothing at all, and no guest's ID in the roster is
  changed by anything a guest sends.\<close>

theorem relay_is_authenticated:
  assumes "room_reach C K table (newHost i n links) h" "h_phase h cid = Serving"
  shows "(pk_Type p = ''msg'' \<longrightarrow>
         h_sent (handlePacket C K table cid p h) = h_sent h @
           (if length (pk_Text p) > MaxMessageBytes then [(cid, tooLong)]
            else if h_group h then map (\<lambda>d. (d, \<lparr>pk_Type = ''msg'', pk_From = peer_ID (s_peer (cn_session (h_links h cid))),
                   pk_Name = m_Name (h_member h cid), pk_Text = pk_Text p, pk_Members = [], pk_Group = False\<rparr>))
                 (filter (\<lambda>d. d \<noteq> cid) (h_Clients h))
            else [])
         \<and> (\<forall>from name ms g. handlePacket C K table cid (p\<lparr>pk_From := from, pk_Name := name, pk_Members := ms, pk_Group := g\<rparr>) h
              = handlePacket C K table cid p h))
     \<and> map (\<lambda>(c, m). (c, m_ID m)) (h_members (handlePacket C K table cid p h)) = map (\<lambda>(c, m). (c, m_ID m)) (h_members h)"
proof -
  have i: "roomInv table h" by (rule reach_inv [OF assms(1)])
  then have d: "distinct (h_Clients h)" and m: "m_ID (h_member h cid) = peer_ID (s_peer (cn_session (h_links h cid)))"
    using assms(2) by (auto simp: roomInv_def memberOk_def)
  have r: "relayed h cid p = \<lparr>pk_Type = ''msg'', pk_From = peer_ID (s_peer (cn_session (h_links h cid))),
      pk_Name = m_Name (h_member h cid), pk_Text = pk_Text p, pk_Members = [], pk_Group = False\<rparr>"
    by (simp add: relayed_def packetOf_def m)
  have "handlePacket C K table cid (p\<lparr>pk_From := from, pk_Name := name, pk_Members := ms, pk_Group := g\<rparr>) h = handlePacket C K table cid p h"
    if "pk_Type p = ''msg''" for "from" name ms g
    using that by (simp add: handlePacket_msg relayed_def Let_def)
  moreover have "map (\<lambda>(c, m). (c, m_ID m)) (h_members (handlePacket C K table cid p h)) = map (\<lambda>(c, m). (c, m_ID m)) (h_members h)"
    using i unfolding handle_quiet_or_nick [OF d] by (auto simp: roomInv_def)
  ultimately show ?thesis using handle_msg_sent [OF d] r by auto
qed

section \<open>Group chat off\<close>

lemma leave_alone:
  assumes "\<not> h_group h"
  shows "h_sent (leave C K cid h) = h_sent h"
  using assms by (simp add: leave_def Let_def announcePeer_def closeLink_def)

text \<open>C21: With group chat off the room is for two. In a reachable room whose switch is off, a second guest is told
  why, is entered in neither map and is gone; and nothing that a guest does, arriving, being greeted, sending
  any packet or leaving, makes the host send anything to anybody but that guest.\<close>

theorem group_off_isolates:
  assumes "room_reach C K table (newHost i n links) h" "\<not> h_group h"
  shows "(h_members h \<noteq> [] \<longrightarrow> h_members (admit C K cid h) = h_members h \<and> h_Clients (admit C K cid h) = h_Clients h
         \<and> h_sent (admit C K cid h) = h_sent h @ [(cid, (packetOf ''error'')\<lparr>pk_Text := alreadyInChat\<rparr>)]
         \<and> h_phase (admit C K cid h) cid = Gone)
     \<and> (\<forall>h' \<in> {admit C K cid h, greet C K cid h, serveOne C K table clock cid h}. \<exists>ps. h_sent h' = h_sent h @ map (Pair cid) ps)"
proof -
  have refused: "h_members (admit C K cid h) = h_members h \<and> h_Clients (admit C K cid h) = h_Clients h
      \<and> h_sent (admit C K cid h) = h_sent h @ [(cid, (packetOf ''error'')\<lparr>pk_Text := alreadyInChat\<rparr>)]
      \<and> h_phase (admit C K cid h) cid = Gone" if "h_members h \<noteq> []"
    using that assms(2) by (simp add: admit_def Let_def closeLink_def sendTo_def split: prod.split)
  have "h_sent (admit C K cid h) = h_sent h" if "h_members h = []"
    using that by (simp add: admit_def Let_def)
  then have a: "\<exists>ps. h_sent (admit C K cid h) = h_sent h @ map (Pair cid) ps"
    using refused by (cases "h_members h = []") (force intro: exI [of _ "[]"] exI [of _ "[_]"])+
  have g: "\<exists>ps. h_sent (greet C K cid h) = h_sent h @ map (Pair cid) ps"
  proof -
    let ?p = "(packetOf ''hello'')\<lparr>pk_From := h_ID h, pk_Name := h_Name h, pk_Group := h_group h\<rparr>"
    obtain ok h1 where s: "sendTo C K ?p cid h = (ok, h1)" by (metis surj_pair)
    have h1: "\<not> h_group h1" "h_sent h1 = h_sent h @ [(cid, ?p)]"
      using assms(2) quietRoom_fields(3) [OF sendTo_quiet [OF s]] sendTo_sent [of C K ?p cid h] s by simp_all
    then have "h_sent (greet C K cid h) = h_sent h @ map (Pair cid) [?p]"
      using leave_alone [OF h1(1)] unfolding greet_def s by (simp add: Let_def announcePeer_def)
    then show ?thesis by blast
  qed
  have "\<exists>ps. h_sent (serveOne C K table clock cid h) = h_sent h @ map (Pair cid) ps"
  proof -
    obtain r c' where r: "connReceive C K clock (h_links h cid) = (r, c')" by (metis surj_pair)
    let ?h1 = "h\<lparr>h_links := (h_links h)(cid := c')\<rparr>"
    have off: "\<not> h_group ?h1" using assms(2) by simp
    have "\<exists>ps. h_sent (handlePacket C K table cid p ?h1) = h_sent h @ map (Pair cid) ps" for p
    proof -
      consider "pk_Type p = ''nick''" | "pk_Type p = ''msg''" | "pk_Type p \<noteq> ''nick''" "pk_Type p \<noteq> ''msg''" by blast
      then show ?thesis
      proof cases
        case 1
        then have "h_sent (handlePacket C K table cid p ?h1) = h_sent h @ map (Pair cid) []"
          using off by (simp add: handlePacket_def Let_def)
        then show ?thesis by blast
      next
        case 2
        then have "h_sent (handlePacket C K table cid p ?h1) = h_sent h @ map (Pair cid) (if length (pk_Text p) > MaxMessageBytes then [tooLong] else [])"
          using off by (simp add: handlePacket_msg sendTo_sent Let_def)
        then show ?thesis by blast
      next
        case 3
        then have "h_sent (handlePacket C K table cid p ?h1) = h_sent h @ map (Pair cid) []" by (simp add: handlePacket_other)
        then show ?thesis by blast
      qed
    qed
    moreover have "h_sent (leave C K cid ?h1) = h_sent h @ map (Pair cid) []" using leave_alone [OF off] by simp
    ultimately show ?thesis unfolding serveOne_def r by (cases r) (auto simp: Let_def)
  qed
  with refused a g show ?thesis by blast
qed

section \<open>The order of a broadcast, and the roster\<close>

text \<open>C22: Go visits a map in no particular order. For a broadcast this cannot be seen on any connection: whatever
  order the clients are visited in, every link ends in the same state, having been sent the packet exactly
  once if it is not the excepted one, and closed if that failed.\<close>

theorem broadcast_order_unseen:
  assumes "distinct cs" "set ds = set cs" "distinct ds"
  shows "h_links (sendAll C K p cs h) = h_links (sendAll C K p ds h)
     \<and> h_links (sendAll C K p cs h) c =
         (if c \<in> set cs then (case connSend C K p (h_links h c) of (Inl _, c') \<Rightarrow> connClose c' | (Inr _, c') \<Rightarrow> c') else h_links h c)
     \<and> mset (h_sent (sendAll C K p cs h)) = mset (h_sent (sendAll C K p ds h))"
proof -
  have "mset cs = mset ds" using assms by (simp add: set_eq_iff_mset_eq_distinct)
  then show ?thesis using assms by (simp add: sendAll_eq pushAll_def pushed_def fun_eq_iff)
qed

theorem broadcast_order_unseen_witness:
  "h_links (sendAll plainCrypto samplePacketJson (packetOf ''msg'') [1, 2] (newHost ''cc-H'' ''h'' (\<lambda>_. sampleConn sampleSession)))
     = h_links (sendAll plainCrypto samplePacketJson (packetOf ''msg'') [2, 1] (newHost ''cc-H'' ''h'' (\<lambda>_. sampleConn sampleSession)))"
proof -
  have "distinct [1, 2 :: nat]" "set [2, 1 :: nat] = set [1, 2]" "distinct [2, 1 :: nat]" by auto
  from broadcast_order_unseen [OF this] show ?thesis by blast
qed

lemma roster_sorted:
  "hd (hostMembers h) = \<lparr>m_ID = h_ID h, m_Name = h_Name h, m_Host = True\<rparr> \<and> sorted (map m_ID (tl (hostMembers h)))
   \<and> mset (tl (hostMembers h)) = mset (map snd (h_members h)) \<and> length (hostMembers h) = hostCount h"
  by (simp add: hostMembers_def hostCount_def)

section \<open>A room at which the witnesses evaluate\<close>

definition sampleGuest :: "session \<Rightarrow> nat \<Rightarrow> conn" where
  "sampleGuest s c = (sampleConn (s\<lparr>s_peer := s_peer sampleSession\<rparr>))
     \<lparr>cn_peer := \<lparr>pe_ID = ''cc-A'', pe_Name = cleanNickname (\<lambda>_. True) ''a'', pe_FirstContact = False, pe_SafetyNumber = ''''\<rparr>\<rparr>"

definition sampleRoom :: "session \<Rightarrow> room" where
  "sampleRoom s = admit plainCrypto samplePacketJson 1 (admit plainCrypto samplePacketJson 0 (newHost ''cc-H'' ''h'' (sampleGuest s)))"

lemma sample_accepted: "acceptedConn (\<lambda>_. True) (sampleGuest s c)"
  by (simp add: acceptedConn_def sampleGuest_def sampleConn_def sampleSession_def)

lemma admit_open: "h_group h \<Longrightarrow> h_links (admit C K cid h) = h_links h \<and> h_group (admit C K cid h) \<and> h_Clients (admit C K cid h) = h_Clients h @ [cid]
    \<and> h_phase (admit C K cid h) = (h_phase h)(cid := Admitted)"
  by (simp add: admit_def Let_def)

lemma sampleRoom_facts:
  "h_links (sampleRoom s) = sampleGuest s" "h_group (sampleRoom s)" "h_Clients (sampleRoom s) = [0, 1]"
  "h_phase (sampleRoom s) = (\<lambda>_. Unserved)(0 := Admitted, 1 := Admitted)"
  "room_reach plainCrypto samplePacketJson (\<lambda>_. True) (newHost ''cc-H'' ''h'' (sampleGuest s)) (sampleRoom s)"
proof -
  let ?h0 = "newHost ''cc-H'' ''h'' (sampleGuest s)"
  have h0: "h_group ?h0" "h_links ?h0 = sampleGuest s" "h_Clients ?h0 = []" "h_phase ?h0 = (\<lambda>_. Unserved)" by (simp_all add: newHost_def)
  define h1 where "h1 = admit plainCrypto samplePacketJson 0 ?h0"
  have h1: "h_links h1 = sampleGuest s" "h_group h1" "h_Clients h1 = [0]" "h_phase h1 = (\<lambda>_. Unserved)(0 := Admitted)"
    using admit_open [OF h0(1), of plainCrypto samplePacketJson 0] h0 by (simp_all add: h1_def)
  have e: "sampleRoom s = admit plainCrypto samplePacketJson 1 h1" by (simp add: sampleRoom_def h1_def)
  show "h_links (sampleRoom s) = sampleGuest s" "h_group (sampleRoom s)" "h_Clients (sampleRoom s) = [0, 1]"
    "h_phase (sampleRoom s) = (\<lambda>_. Unserved)(0 := Admitted, 1 := Admitted)"
    using admit_open [OF h1(2), of plainCrypto samplePacketJson 1] h1 by (simp_all add: e)
  have "room_reach plainCrypto samplePacketJson (\<lambda>_. True) ?h0 h1" unfolding h1_def
    by (rule room_more [OF room_here]) (rule room_step.arrives, simp_all add: h0 sample_accepted)
  then show "room_reach plainCrypto samplePacketJson (\<lambda>_. True) ?h0 (sampleRoom s)" unfolding e
    by (rule room_more) (rule room_step.arrives, simp_all add: h1 sample_accepted)
qed

lemma sample_serving:
  "\<exists>s h. room_reach plainCrypto samplePacketJson (\<lambda>_. True) (newHost ''cc-H'' ''h'' (sampleGuest s)) h
     \<and> h_phase h 0 = Serving \<and> h_group h \<and> h_Clients h = [0, 1]"
proof -
  note laws = crypto_law_parts(1-3) [OF plainCrypto_law]
  obtain s :: session and ck where s: "\<not> s_closed s" "sendChain (s_ratchet s) = Some ck" "sendCount (s_ratchet s) \<noteq> NOT 0" using sample_pair by metis
  let ?h = "sampleRoom s"
  let ?p = "(packetOf ''hello'')\<lparr>pk_From := h_ID ?h, pk_Name := h_Name ?h, pk_Group := h_group ?h\<rparr>"
  define g where "g = s\<lparr>s_peer := s_peer sampleSession\<rparr>"
  have g: "\<not> s_closed g" "sendChain (s_ratchet g) = Some ck" "sendCount (s_ratchet g) \<noteq> NOT 0" using s by (simp_all add: g_def)
  obtain c' where c': "connSend plainCrypto samplePacketJson ?p (sampleGuest s 0) = (Inr (), c')"
    using writeMessage_eq [OF laws g, of "cn_out (sampleGuest s 0)" "[]"]
    by (auto simp: connSend_def samplePacketJson_def packetOf_def MaxMessageBytes_def sampleGuest_def sampleConn_def g_def toBytes_def)
  define h1 where "h1 = ?h\<lparr>h_links := (h_links ?h)(0 := c'), h_sent := h_sent ?h @ [(0, ?p)]\<rparr>"
  have send: "sendTo plainCrypto samplePacketJson ?p 0 ?h = (True, h1)"
    using c' by (simp add: sendTo_def sampleRoom_facts(1) h1_def)
  define h2 where "h2 = announcePeer (h_inbound ?h 0) False (h1\<lparr>h_phase := (h_phase h1)(0 := Serving)\<rparr>)"
  have h2: "h_group h2" "h_Clients h2 = [0, 1]" "h_phase h2 0 = Serving"
    by (simp_all add: h2_def h1_def announcePeer_def sampleRoom_facts)
  define h3 where "h3 = greet plainCrypto samplePacketJson 0 ?h"
  have "h3 = sendRoster plainCrypto samplePacketJson (broadcastExcept plainCrypto samplePacketJson
      ((packetOf ''system'')\<lparr>pk_Text := memberDisplay (h_member ?h 0) @ '' joined''\<rparr>) (Some 0) h2)"
    using h2(1) unfolding h3_def greet_def send by (simp add: h2_def Let_def)
  moreover have "distinct (h_Clients h2)" by (simp add: h2)
  ultimately have q: "quietRoom h2 h3" using news_quiet by simp
  have "room_reach plainCrypto samplePacketJson (\<lambda>_. True) (newHost ''cc-H'' ''h'' (sampleGuest s)) h3"
    unfolding h3_def by (rule room_more [OF sampleRoom_facts(5)]) (rule room_step.greeted, simp add: sampleRoom_facts(4))
  then show ?thesis using h2 quietRoom_fields(3,4,8) [OF q] by force
qed

theorem relay_is_authenticated_witness:
  "\<exists>h q. h_phase h 0 = Serving
     \<and> h_sent (handlePacket plainCrypto samplePacketJson (\<lambda>_. True) 0 ((packetOf ''msg'')\<lparr>pk_From := ''cc-X'', pk_Text := ''hi''\<rparr>) h)
         = h_sent h @ [(1, q)] \<and> pk_Text q = ''hi'' \<and> pk_From q = peer_ID (s_peer (cn_session (h_links h 0)))"
proof -
  obtain s h where h: "room_reach plainCrypto samplePacketJson (\<lambda>_. True) (newHost ''cc-H'' ''h'' (sampleGuest s)) h"
    "h_phase h 0 = Serving" "h_group h" "h_Clients h = [0, 1]" using sample_serving by blast
  from relay_is_authenticated [OF h(1,2), of "(packetOf ''msg'')\<lparr>pk_From := ''cc-X'', pk_Text := ''hi''\<rparr>"] h(2-4)
  show ?thesis by (intro exI [of _ h]) (auto simp: packetOf_def MaxMessageBytes_def)
qed

theorem room_knows_its_guests_witness:
  "\<exists>s. h_Clients (sampleRoom s) = [0, 1]
     \<and> (\<forall>(c, m) \<in> set (h_members (sampleRoom s)). m_ID m = peer_ID (s_peer (cn_session (h_links (sampleRoom s) c))))"
  using room_knows_its_guests [OF sampleRoom_facts(5)] sampleRoom_facts(3) by fast

theorem group_off_isolates_witness:
  "\<exists>h. h_members h \<noteq> [] \<and> \<not> h_group h \<and> h_phase (admit plainCrypto samplePacketJson 5 h) 5 = Gone
     \<and> h_Clients (admit plainCrypto samplePacketJson 5 h) = h_Clients h"
proof -
  let ?s = sampleSession
  let ?h = "setGroup False (sampleRoom ?s)"
  have r: "room_reach plainCrypto samplePacketJson (\<lambda>_. True) (newHost ''cc-H'' ''h'' (sampleGuest ?s)) ?h"
    by (rule room_more [OF sampleRoom_facts(5) room_step.switches])
  have "h_members (sampleRoom ?s) = map (\<lambda>c. (c, h_member (sampleRoom ?s) c)) (h_Clients (sampleRoom ?s))"
    using reach_inv [OF sampleRoom_facts(5)] by (simp add: roomInv_def)
  then have "h_members ?h \<noteq> []" "\<not> h_group ?h" by (simp_all add: setGroup_def sampleRoom_facts)
  with group_off_isolates [OF r this(2), of 5] show ?thesis by blast
qed

end
