(* ===== verification/GoNet.thy ===== *)
theory GoNet
  imports GoText
begin

text \<open>
  The parts of package \<^verbatim>\<open>net\<close> the program uses on addresses: the classes of an IP address, its dotted form, and
  \<^verbatim>\<open>JoinHostPort\<close>. The textual form of an IPv6 address is the library's and a parameter.
\<close>

type_synonym ip = bytes

definition v4Prefix :: bytes where "v4Prefix = replicate 10 0 @ [0xFF, 0xFF]"

definition to4 :: "ip \<Rightarrow> ip option" where
  "to4 a = (if length a = 4 then Some a
            else if length a = 16 \<and> take 12 a = v4Prefix then Some (drop 12 a)
            else None)"

definition isLoopback :: "ip \<Rightarrow> bool" where
  "isLoopback a = (case to4 a of Some b \<Rightarrow> b ! 0 = 127 | None \<Rightarrow> a = replicate 15 0 @ [1])"

definition isPrivate :: "ip \<Rightarrow> bool" where
  "isPrivate a = (case to4 a of
     Some b \<Rightarrow> b ! 0 = 10 \<or> (b ! 0 = 172 \<and> b ! 1 AND 0xF0 = 16) \<or> (b ! 0 = 192 \<and> b ! 1 = 168)
   | None \<Rightarrow> length a = 16 \<and> a ! 0 AND 0xFE = 0xFC)"

definition isLinkLocalUnicast :: "ip \<Rightarrow> bool" where
  "isLinkLocalUnicast a = (case to4 a of
     Some b \<Rightarrow> b ! 0 = 169 \<and> b ! 1 = 254
   | None \<Rightarrow> length a = 16 \<and> a ! 0 = 0xFE \<and> a ! 1 AND 0xC0 = 0x80)"

definition isLinkLocalMulticast :: "ip \<Rightarrow> bool" where
  "isLinkLocalMulticast a = (case to4 a of
     Some b \<Rightarrow> b ! 0 = 224 \<and> b ! 1 = 0 \<and> b ! 2 = 0
   | None \<Rightarrow> length a = 16 \<and> a ! 0 = 0xFF \<and> a ! 1 AND 0x0F = 0x02)"

definition isUnspecified :: "ip \<Rightarrow> bool" where
  "isUnspecified a = (case to4 a of Some b \<Rightarrow> b = [0, 0, 0, 0] | None \<Rightarrow> a = replicate 16 0)"

definition dotted :: "ip \<Rightarrow> string" where
  "dotted b = decimalNat (unat (b ! 0)) @ ''.'' @ decimalNat (unat (b ! 1)) @ ''.''
     @ decimalNat (unat (b ! 2)) @ ''.'' @ decimalNat (unat (b ! 3))"

definition ipString :: "(ip \<Rightarrow> string) \<Rightarrow> ip \<Rightarrow> string" where
  "ipString v6 a = (case to4 a of Some b \<Rightarrow> dotted b | None \<Rightarrow> v6 a)"

definition hostPort :: "string \<Rightarrow> string \<Rightarrow> string" where
  "hostPort host port = (if CHR '':'' \<in> set host then ''['' @ host @ '']:'' @ port else host @ '':'' @ port)"

text \<open>The formatter several packages carry a copy of: a non-negative number in decimal, nothing for a negative one.\<close>

function digitsOf :: "int \<Rightarrow> string \<Rightarrow> string" where
  "digitsOf v buf = (if v > 0 then digitsOf (v div 10) (char_of (nat (48 + v mod 10)) # buf) else buf)"
  by pat_completeness auto
termination
  by (relation "measure (\<lambda>(v, b). nat v)") auto

declare digitsOf.simps [simp del]

definition itoa :: "int \<Rightarrow> string" where
  "itoa v = (if v = 0 then ''0'' else digitsOf v [])"

lemma digitsOf_decimal: "0 < n \<Longrightarrow> digitsOf (int n) buf = decimalNat n @ buf"
proof (induction n arbitrary: buf rule: decimalNat.induct)
  case (1 n)
  have d: "nat (48 + int n mod 10) = 48 + n mod 10" by (simp add: nat_add_distrib nat_mod_distrib)
  have s: "digitsOf (int n) buf = digitsOf (int (n div 10)) (char_of (48 + n mod 10) # buf)"
    using 1 d by (simp add: digitsOf.simps [of "int n"] zdiv_int)
  show ?case
  proof (cases "n < 10")
    case True
    then show ?thesis using s by (simp add: digitsOf.simps [of 0] decimalNat.simps [of n])
  next
    case False
    then show ?thesis using s "1.IH" [OF False] by (simp add: decimalNat.simps [of n])
  qed
qed

lemma itoa_decimal: "0 \<le> v \<Longrightarrow> itoa v = decimalInt v"
proof -
  have "char_of (48 :: nat) = CHR ''0''" by code_simp
  then show "0 \<le> v \<Longrightarrow> ?thesis"
    using digitsOf_decimal [of "nat v" "[]"] by (auto simp: itoa_def decimalInt_def decimalNat.simps [of 0])
qed

end
