(* ===== verification/GoAddr.thy ===== *)
theory GoAddr
  imports GoNet
begin

text \<open>
  More of package \<^verbatim>\<open>net\<close>: \<^verbatim>\<open>SplitHostPort\<close> and the parsing of IPv4 addresses. Parsing an IPv6 address is the
  library's and a parameter, as its textual form is.
\<close>

section \<open>Positions in a string\<close>

fun indexByte :: "string \<Rightarrow> char \<Rightarrow> nat option" where
  "indexByte [] c = None"
| "indexByte (x # xs) c = (if x = c then Some 0 else map_option Suc (indexByte xs c))"

fun lastIndexByte :: "string \<Rightarrow> char \<Rightarrow> nat option" where
  "lastIndexByte [] c = None"
| "lastIndexByte (x # xs) c =
     (case lastIndexByte xs c of Some i \<Rightarrow> Some (Suc i) | None \<Rightarrow> if x = c then Some 0 else None)"

lemma indexByte_None [simp]: "indexByte s c = None \<longleftrightarrow> c \<notin> set s"
  by (induction s) auto

lemma indexByte_append: "c \<notin> set s \<Longrightarrow> indexByte (s @ c # t) c = Some (length s)"
  by (induction s) auto

lemma lastIndexByte_None [simp]: "lastIndexByte s c = None \<longleftrightarrow> c \<notin> set s"
  by (induction s) (auto split: option.splits)

lemma lastIndexByte_append: "c \<notin> set t \<Longrightarrow> lastIndexByte (s @ c # t) c = Some (length s)"
proof (induction s)
  case Nil
  then show ?case by (simp add: lastIndexByte_None [THEN iffD2])
next
  case (Cons x s)
  then show ?case by simp
qed

section \<open>\<open>SplitHostPort\<close>\<close>

datatype addrErr = MissingPort | MissingBracket | TooManyColons | UnexpectedBracket

definition splitHostPort :: "string \<Rightarrow> addrErr + string \<times> string" where
  "splitHostPort hp =
     (case lastIndexByte hp (CHR '':'') of
        None \<Rightarrow> Inl MissingPort
      | Some i \<Rightarrow>
          (case (if hp ! 0 = CHR ''['' then
                   (case indexByte hp (CHR '']'') of
                      None \<Rightarrow> Inl MissingBracket
                    | Some e \<Rightarrow>
                        if Suc e = length hp then Inl MissingPort
                        else if Suc e = i then Inr (take (e - 1) (drop 1 hp), 1, Suc e)
                        else if hp ! Suc e = CHR '':'' then Inl TooManyColons
                        else Inl MissingPort)
                 else if CHR '':'' \<in> set (take i hp) then Inl TooManyColons
                 else Inr (take i hp, 0, 0)) of
             Inl e \<Rightarrow> Inl e
           | Inr (host, j, k) \<Rightarrow>
               if CHR ''['' \<in> set (drop j hp) \<or> CHR '']'' \<in> set (drop k hp) then Inl UnexpectedBracket
               else Inr (host, drop (Suc i) hp)))"

definition plainHost :: "string \<Rightarrow> bool" where
  "plainHost h \<longleftrightarrow> CHR ''['' \<notin> set h \<and> CHR '']'' \<notin> set h"

definition plainPort :: "string \<Rightarrow> bool" where
  "plainPort p \<longleftrightarrow> CHR '':'' \<notin> set p \<and> CHR ''['' \<notin> set p \<and> CHR '']'' \<notin> set p"

lemma bracket_chars [simp]: "CHR '':'' \<noteq> CHR ''[''" "CHR '':'' \<noteq> CHR '']''" "CHR ''['' \<noteq> CHR '']''"
  "CHR ''['' \<noteq> CHR '':''" "CHR '']'' \<noteq> CHR '':''" "CHR '']'' \<noteq> CHR ''[''"
  by simp_all

lemma splitHostPort_v6:
  assumes "plainHost h" "plainPort p"
  shows "splitHostPort (CHR ''['' # h @ CHR '']'' # CHR '':'' # p) = Inr (h, p)"
proof -
  let ?s = "CHR ''['' # h @ CHR '']'' # CHR '':'' # p"
  have l: "lastIndexByte ?s (CHR '':'') = Some (length h + 2)"
    using lastIndexByte_append [of "CHR '':''" p "CHR ''['' # h @ [CHR '']'']"] assms by (simp add: plainPort_def)
  have e: "indexByte ?s (CHR '']'') = Some (Suc (length h))"
    using indexByte_append [of "CHR '']''" "CHR ''['' # h" "CHR '':'' # p"] assms by (simp add: plainHost_def)
  show ?thesis unfolding splitHostPort_def l e using assms
    by (simp add: plainHost_def plainPort_def)
qed

lemma splitHostPort_v4:
  assumes "plainHost h" "plainPort p" "CHR '':'' \<notin> set h"
  shows "splitHostPort (h @ CHR '':'' # p) = Inr (h, p)"
proof -
  have l: "lastIndexByte (h @ CHR '':'' # p) (CHR '':'') = Some (length h)"
    using lastIndexByte_append assms by (simp add: plainPort_def)
  have b: "(h @ CHR '':'' # p) ! 0 \<noteq> CHR ''[''"
    using assms by (cases h) (auto simp: plainHost_def)
  show ?thesis unfolding splitHostPort_def l using b assms
    by (simp add: plainHost_def plainPort_def)
qed

lemma splitHostPort_hostPort:
  assumes "plainHost h" "plainPort p"
  shows "splitHostPort (hostPort h p) = Inr (h, p)"
  using splitHostPort_v6 [OF assms] splitHostPort_v4 [OF assms] by (simp add: hostPort_def)

section \<open>Parsing an address\<close>

text \<open>One octet: digits only, no leading zero, at most 255.\<close>

definition octetOf :: "string \<Rightarrow> byte option" where
  "octetOf s =
     (let v = foldl (\<lambda>a c. 10 * a + (of_char c - 48)) 0 s
      in if s = [] \<or> \<not> list_all (\<lambda>c. (48 :: nat) \<le> of_char c \<and> of_char c \<le> (57 :: nat)) s then None
         else if length s > 1 \<and> hd s = CHR ''0'' then None
         else if v > (255 :: nat) then None
         else Some (of_nat v))"

fun splitDots :: "string \<Rightarrow> string list" where
  "splitDots [] = [[]]"
| "splitDots (c # s) =
     (if c = CHR ''.'' then [] # splitDots s
      else (case splitDots s of f # fs \<Rightarrow> (c # f) # fs | [] \<Rightarrow> [[c]]))"

definition parseIPv4 :: "string \<Rightarrow> ip option" where
  "parseIPv4 s =
     (case map octetOf (splitDots s) of
        [Some a, Some b, Some c, Some d] \<Rightarrow> Some (v4Prefix @ [a, b, c, d])
      | _ \<Rightarrow> None)"

text \<open>\<^verbatim>\<open>ParseIP\<close> decides by the first separator; an address with a zone is not one.\<close>

definition parseIP :: "(string \<Rightarrow> ip option) \<Rightarrow> string \<Rightarrow> ip option" where
  "parseIP v6 s =
     (case filter (\<lambda>c. c \<in> {CHR ''.'', CHR '':'', CHR ''%''}) s of
        [] \<Rightarrow> None
      | c # _ \<Rightarrow> if c = CHR ''.'' then parseIPv4 s else if c = CHR '':'' then v6 s else None)"

end
