(* ===== verification/Discovery.thy ===== *)
theory Discovery
  imports GoAddr
begin

text \<open>
  \<^verbatim>\<open>internal/discovery\<close>: finding a host on the local network by UDP broadcast. The socket is what it delivers, in
  order, until its read deadline; the encoding of packets is \<^verbatim>\<open>encoding/json\<close>'s and a parameter, and so is the
  local address the system would use towards a peer.
\<close>

definition udpPort :: nat where "udpPort = 38555"
definition discoveryMagic :: string where "discoveryMagic = ''CMDCHAT/1''"

record lanAnnouncement =
  lan_ID :: string
  lan_Name :: string
  lan_Port :: int
  lan_Fingerprint :: string
  lan_Endpoint :: string

record lanPacket =
  lp_Magic :: string
  lp_Type :: string
  lp_Announcement :: "lanAnnouncement option"
  lp_ID :: string

record lanJson =
  lj_marshal :: "lanPacket \<Rightarrow> bytes"
  lj_unmarshal :: "bytes \<Rightarrow> lanPacket option"

definition lanAddress :: "string \<Rightarrow> int \<Rightarrow> string" where
  "lanAddress host port = hostPort host (itoa port)"

text \<open>What both loops read a datagram into.\<close>

definition lanBuffer :: nat where "lanBuffer = 4096"

section \<open>Answering\<close>

text \<open>One turn of the loop of \<^verbatim>\<open>Serve\<close>: the datagram it sends back, if any. \<^verbatim>\<open>localIP\<close> is \<^verbatim>\<open>hostIPFor\<close> of the
  sender, empty when the system cannot say.\<close>

definition lanAnswer :: "lanJson \<Rightarrow> lanAnnouncement \<Rightarrow> string \<Rightarrow> bytes \<Rightarrow> bytes option" where
  "lanAnswer J a localIP datagram =
     (case lj_unmarshal J (take lanBuffer datagram) of
        None \<Rightarrow> None
      | Some p \<Rightarrow>
          (if lp_Magic p \<noteq> discoveryMagic \<or> lp_Type p \<noteq> ''discover'' \<or> lp_ID p \<noteq> lan_ID a then None
           else let r = (if localIP \<noteq> '''' then a\<lparr>lan_Endpoint := hostPort localIP (itoa (lan_Port a))\<rparr> else a)
                in Some (lj_marshal J \<lparr>lp_Magic = discoveryMagic, lp_Type = ''found'', lp_Announcement = Some r, lp_ID = ''''\<rparr>)))"

text \<open>The whole loop: what it sends, and to whom, for the datagrams it reads; a read error is passed over.\<close>

fun lanServe :: "lanJson \<Rightarrow> lanAnnouncement \<Rightarrow> ('p \<Rightarrow> string) \<Rightarrow> ('p \<times> bytes) option list \<Rightarrow> ('p \<times> bytes) list" where
  "lanServe J a hostIPFor [] = []"
| "lanServe J a hostIPFor (None # ds) = lanServe J a hostIPFor ds"
| "lanServe J a hostIPFor (Some (p, d) # ds) =
     (case lanAnswer J a (hostIPFor p) d of
        None \<Rightarrow> lanServe J a hostIPFor ds
      | Some out \<Rightarrow> (p, out) # lanServe J a hostIPFor ds)"

section \<open>Asking\<close>

definition lanQuery :: "lanJson \<Rightarrow> string \<Rightarrow> bytes" where
  "lanQuery J i = lj_marshal J \<lparr>lp_Magic = discoveryMagic, lp_Type = ''discover'', lp_Announcement = None, lp_ID = i\<rparr>"

text \<open>The reading loop, over the datagrams that come before the deadline, with the IDs already seen.\<close>

fun findLoop :: "lanJson \<Rightarrow> string \<Rightarrow> bytes list \<Rightarrow> string list \<Rightarrow> lanAnnouncement list" where
  "findLoop J i [] seen = []"
| "findLoop J i (d # ds) seen =
     (case lj_unmarshal J (take lanBuffer d) of
        None \<Rightarrow> findLoop J i ds seen
      | Some p \<Rightarrow>
          (if lp_Magic p \<noteq> discoveryMagic \<or> lp_Type p \<noteq> ''found'' then findLoop J i ds seen
           else case lp_Announcement p of
             None \<Rightarrow> findLoop J i ds seen
           | Some a \<Rightarrow>
               (if lan_ID a \<noteq> i then findLoop J i ds seen
                else if lan_ID a \<in> set seen then findLoop J i ds seen
                else a # findLoop J i ds (lan_ID a # seen))))"

datatype lanErr = LanSocket | LanBroadcast

text \<open>A local network: whether a socket opens, whether the broadcast goes out, and what a query brings in before
  the deadline.\<close>

record lanNet =
  ln_socketOk :: bool
  ln_sendOk :: bool
  ln_replies :: "bytes \<Rightarrow> int \<Rightarrow> bytes list"

definition findLAN :: "lanJson \<Rightarrow> lanNet \<Rightarrow> string \<Rightarrow> int \<Rightarrow> lanErr + lanAnnouncement list" where
  "findLAN J n i timeout =
     (if \<not> ln_socketOk n then Inl LanSocket
      else if \<not> ln_sendOk n then Inl LanBroadcast
      else Inr (findLoop J i (ln_replies n (lanQuery J i) timeout) []))"

section \<open>What is found\<close>

text \<open>The announcement a datagram carries for the ID asked for.\<close>

definition announcesFor :: "lanJson \<Rightarrow> string \<Rightarrow> bytes \<Rightarrow> lanAnnouncement option" where
  "announcesFor J i d =
     (case lj_unmarshal J (take lanBuffer d) of
        None \<Rightarrow> None
      | Some p \<Rightarrow> (if lp_Magic p = discoveryMagic \<and> lp_Type p = ''found'' then
                    (case lp_Announcement p of Some a \<Rightarrow> if lan_ID a = i then Some a else None | None \<Rightarrow> None)
                  else None))"

lemma announcesFor_ID: "announcesFor J i d = Some a \<Longrightarrow> lan_ID a = i"
  by (auto simp: announcesFor_def split: option.splits if_splits)

lemma findLoop_Cons:
  "findLoop J i (d # ds) seen =
     (case announcesFor J i d of
        Some a \<Rightarrow> if i \<in> set seen then findLoop J i ds seen else a # findLoop J i ds (i # seen)
      | None \<Rightarrow> findLoop J i ds seen)"
  by (auto simp: announcesFor_def split: option.splits)

lemma findLoop_seen: "i \<in> set seen \<Longrightarrow> findLoop J i ds seen = []"
proof (induction ds arbitrary: seen)
  case (Cons d ds)
  then show ?case unfolding findLoop_Cons by (auto split: option.splits)
qed simp

lemma findLoop_first:
  "findLoop J i ds [] = (case List.map_filter (announcesFor J i) ds of [] \<Rightarrow> [] | a # _ \<Rightarrow> [a])"
proof (induction ds)
  case Nil
  then show ?case by (simp add: List.map_filter_def)
next
  case (Cons d ds)
  then show ?case unfolding findLoop_Cons
    by (cases "announcesFor J i d") (simp_all add: List.map_filter_def findLoop_seen)
qed

lemma findLAN_ok:
  assumes "findLAN J n i timeout = Inr found"
  shows "length found \<le> 1 \<and> (\<forall>a \<in> set found. lan_ID a = i)"
proof -
  have "found = (case List.map_filter (announcesFor J i) (ln_replies n (lanQuery J i) timeout) of [] \<Rightarrow> [] | a # _ \<Rightarrow> [a])"
    using assms by (simp add: findLAN_def findLoop_first split: if_splits)
  moreover have "\<forall>a \<in> set (List.map_filter (announcesFor J i) ds). lan_ID a = i" for ds
    using announcesFor_ID by (auto simp: List.map_filter_def)
  ultimately show ?thesis by (auto split: list.splits) (metis list.set_intros(1))
qed

text \<open>The encoding of packets loses nothing and fits the buffer for the packets the two sides exchange.\<close>

definition lanCodec :: "lanJson \<Rightarrow> lanPacket \<Rightarrow> bool" where
  "lanCodec J p \<longleftrightarrow> lj_unmarshal J (lj_marshal J p) = Some p \<and> length (lj_marshal J p) \<le> lanBuffer"

definition queryOf :: "string \<Rightarrow> lanPacket" where
  "queryOf i = \<lparr>lp_Magic = discoveryMagic, lp_Type = ''discover'', lp_Announcement = None, lp_ID = i\<rparr>"

definition replyOf :: "lanAnnouncement \<Rightarrow> lanPacket" where
  "replyOf a = \<lparr>lp_Magic = discoveryMagic, lp_Type = ''found'', lp_Announcement = Some a, lp_ID = ''''\<rparr>"

definition reachableAt :: "lanAnnouncement \<Rightarrow> string \<Rightarrow> lanAnnouncement" where
  "reachableAt a localIP = (if localIP \<noteq> '''' then a\<lparr>lan_Endpoint := hostPort localIP (itoa (lan_Port a))\<rparr> else a)"

lemma lanAnswer_query:
  assumes "lanCodec J (queryOf (lan_ID a))"
  shows "lanAnswer J a localIP (lanQuery J (lan_ID a)) = Some (lj_marshal J (replyOf (reachableAt a localIP)))"
proof -
  have "take lanBuffer (lanQuery J (lan_ID a)) = lj_marshal J (queryOf (lan_ID a))"
    using assms by (simp add: lanCodec_def lanQuery_def queryOf_def)
  moreover have "lj_unmarshal J (lj_marshal J (queryOf (lan_ID a))) = Some (queryOf (lan_ID a))"
    using assms by (simp add: lanCodec_def)
  ultimately show ?thesis unfolding lanAnswer_def by (simp add: queryOf_def replyOf_def reachableAt_def)
qed

lemma lanAnswer_other:
  assumes "lanCodec J (queryOf i)" "i \<noteq> lan_ID a"
  shows "lanAnswer J a localIP (lanQuery J i) = None"
proof -
  have "take lanBuffer (lanQuery J i) = lj_marshal J (queryOf i)"
    using assms by (simp add: lanCodec_def lanQuery_def queryOf_def)
  then show ?thesis using assms by (simp add: lanAnswer_def lanCodec_def queryOf_def)
qed

lemma announcesFor_reply:
  assumes "lanCodec J (replyOf a)"
  shows "announcesFor J i (lj_marshal J (replyOf a)) = (if lan_ID a = i then Some a else None)"
proof -
  have "take lanBuffer (lj_marshal J (replyOf a)) = lj_marshal J (replyOf a)"
    using assms by (simp add: lanCodec_def)
  then show ?thesis using assms by (simp add: announcesFor_def lanCodec_def replyOf_def)
qed

lemma reachableAt_ID [simp]: "lan_ID (reachableAt a localIP) = lan_ID a" by (simp add: reachableAt_def)

text \<open>The stations of a network answer a query in some order; whatever else arrives before their answers is either
  no announcement for the ID or the one that is taken.\<close>

definition lanStations :: "lanJson \<Rightarrow> (lanAnnouncement \<times> string) list \<Rightarrow> bytes \<Rightarrow> bytes list" where
  "lanStations J hosts q = List.map_filter (\<lambda>(a, localIP). lanAnswer J a localIP q) hosts"

lemma lanStations_query:
  assumes "lanCodec J (queryOf i)"
  shows "lanStations J hosts (lanQuery J i)
    = map (\<lambda>(a, localIP). lj_marshal J (replyOf (reachableAt a localIP))) (filter (\<lambda>(a, localIP). lan_ID a = i) hosts)"
proof (induction hosts)
  case Nil
  then show ?case by (simp add: lanStations_def List.map_filter_def)
next
  case (Cons h hosts)
  obtain a localIP where h: "h = (a, localIP)" by (cases h)
  show ?case using Cons assms lanAnswer_query [of J a localIP] lanAnswer_other [of J i a localIP]
    by (cases "lan_ID a = i") (auto simp: h lanStations_def List.map_filter_def)
qed

lemma found_on_quiet_lan:
  assumes "lanCodec J (queryOf (lan_ID a))" "lanCodec J (replyOf (reachableAt a localIP))"
    "ln_socketOk n" "ln_sendOk n" "(a, localIP) \<in> set hosts" "\<forall>(b, l) \<in> set hosts. lan_ID b = lan_ID a \<longrightarrow> b = a \<and> l = localIP"
    "ln_replies n (lanQuery J (lan_ID a)) timeout = lanStations J hosts (lanQuery J (lan_ID a))"
  shows "findLAN J n (lan_ID a) timeout = Inr [reachableAt a localIP]"
proof -
  let ?r = "lj_marshal J (replyOf (reachableAt a localIP))"
  obtain k where k: "filter (\<lambda>(b, l). lan_ID b = lan_ID a) hosts = replicate (Suc k) (a, localIP)"
  proof -
    have "\<forall>x \<in> set (filter (\<lambda>(b, l). lan_ID b = lan_ID a) hosts). x = (a, localIP)" using assms(6) by auto
    then have "filter (\<lambda>(b, l). lan_ID b = lan_ID a) hosts
        = replicate (length (filter (\<lambda>(b, l). lan_ID b = lan_ID a) hosts)) (a, localIP)"
      by (rule replicate_length_same [symmetric])
    moreover have "filter (\<lambda>(b, l). lan_ID b = lan_ID a) hosts \<noteq> []"
      using assms(5) by (auto simp: filter_empty_conv)
    ultimately show ?thesis using that by (metis length_greater_0_conv Suc_pred)
  qed
  have "ln_replies n (lanQuery J (lan_ID a)) timeout = replicate (Suc k) ?r"
    using assms(1,7) k by (simp add: lanStations_query)
  moreover have "announcesFor J (lan_ID a) ?r = Some (reachableAt a localIP)"
    using announcesFor_reply [OF assms(2)] by simp
  ultimately show ?thesis using assms(3,4) by (simp add: findLAN_def findLoop_first List.map_filter_def)
qed

end
