(* ===== verification/XChaCha.thy ===== *)
theory XChaCha
  imports Crypto
begin

text \<open>
  XChaCha20-Poly1305 (\<^verbatim>\<open>golang.org/x/crypto/chacha20poly1305\<close>, \<^verbatim>\<open>NewX\<close>), which seals identities on disk and
  phonebook entries: a parameter, with its documented law and an instance the witnesses compute with. A
  sealed box travels as its random nonce followed by the ciphertext.
\<close>

definition NonceSizeX :: nat where "NonceSizeX = 24"

record xaead =
  xa_seal :: "bytes \<Rightarrow> bytes \<Rightarrow> bytes \<Rightarrow> bytes \<Rightarrow> bytes"                  \<comment> \<open>key, nonce, plaintext, associated data\<close>
  xa_open :: "bytes \<Rightarrow> bytes \<Rightarrow> bytes \<Rightarrow> bytes \<Rightarrow> bytes option"           \<comment> \<open>key, nonce, ciphertext, associated data\<close>

definition xaead_law :: "xaead \<Rightarrow> bool" where
  "xaead_law X \<longleftrightarrow>
     (\<forall>k n c a p. xa_open X k n c a = Some p \<longleftrightarrow> c = xa_seal X k n p a)
     \<and> (\<forall>k n p a. length (xa_seal X k n p a) = length p + 16)"

definition boxSeal :: "xaead \<Rightarrow> bytes \<Rightarrow> bytes \<Rightarrow> bytes \<Rightarrow> bytes \<Rightarrow> bytes" where
  "boxSeal X key nonce plain ad = nonce @ xa_seal X key nonce plain ad"

definition boxOpen :: "xaead \<Rightarrow> bytes \<Rightarrow> bytes \<Rightarrow> bytes \<Rightarrow> bytes option" where
  "boxOpen X key box ad = xa_open X key (take NonceSizeX box) (drop NonceSizeX box) ad"

lemma boxOpen_boxSeal:
  "xaead_law X \<Longrightarrow> length nonce = NonceSizeX \<Longrightarrow> boxOpen X key (boxSeal X key nonce p ad) ad = Some p"
  by (simp add: boxOpen_def boxSeal_def xaead_law_def)

lemma boxOpen_iff:
  assumes "xaead_law X" "NonceSizeX \<le> length box"
  shows "boxOpen X key box ad = Some p \<longleftrightarrow> (\<exists>n. length n = NonceSizeX \<and> box = boxSeal X key n p ad)"
proof
  assume "boxOpen X key box ad = Some p"
  then have "drop NonceSizeX box = xa_seal X key (take NonceSizeX box) p ad"
    using assms(1) by (simp add: boxOpen_def xaead_law_def)
  then have "box = boxSeal X key (take NonceSizeX box) p ad" by (metis append_take_drop_id boxSeal_def)
  then show "\<exists>n. length n = NonceSizeX \<and> box = boxSeal X key n p ad" using assms(2) by (metis length_take min.absorb2)
next
  assume "\<exists>n. length n = NonceSizeX \<and> box = boxSeal X key n p ad"
  then show "boxOpen X key box ad = Some p" using boxOpen_boxSeal [OF assms(1)] by blast
qed

definition plainX :: xaead where
  "plainX = \<lparr>xa_seal = plainSeal, xa_open = plainOpen\<rparr>"

lemma plainX_law: "xaead_law plainX"
  by (simp add: xaead_law_def plainX_def plainOpen_iff) (simp add: plainSeal_def)

end
