(* ===== verification/Network.thy ===== *)
theory Network
  imports GoNet
begin

text \<open>
  \<^verbatim>\<open>internal/network\<close>: the STUN client that learns the public UDP mapping, the UDP hole punch, and the order in
  which a peer is tried. The socket is a parameter: what a request is answered with.
\<close>

record udpEndpoint =
  ue_Address :: string
  ue_Port :: int

definition endpointString :: "(ip \<Rightarrow> string) \<Rightarrow> ip \<Rightarrow> int \<Rightarrow> string" where
  "endpointString v6 a port = hostPort (ipString v6 a) (itoa port)"

datatype strategy = Localhost | LAN | Direct | NATTraversal | RelayFallback

definition strategyOrder :: "strategy list" where
  "strategyOrder = [Localhost, LAN, Direct, NATTraversal, RelayFallback]"

section \<open>STUN\<close>

datatype stunErr =
    StunSocket
  | StunRandom
  | StunShort
  | StunTransaction
  | StunAttribute
  | StunNoAddress

definition magicCookie :: bytes where "magicCookie = [0x21, 0x12, 0xA4, 0x42]"

definition stunRequest :: "bytes \<Rightarrow> bytes" where
  "stunRequest tx = be 2 1 @ be 2 0 @ magicCookie @ tx"

definition u16At :: "bytes \<Rightarrow> nat \<Rightarrow> nat" where
  "u16At b i = unat (b ! i) * 256 + unat (b ! Suc i)"

text \<open>One attribute that names an IPv4 address: XOR-MAPPED-ADDRESS or MAPPED-ADDRESS.\<close>

definition stunAddress :: "nat \<Rightarrow> bytes \<Rightarrow> udpEndpoint option" where
  "stunAddress typ v =
     (if typ = 0x20 \<and> 8 \<le> length v \<and> v ! 1 = 1 then
        Some \<lparr>ue_Address = dotted (map (\<lambda>i. v ! (4 + i) XOR magicCookie ! i) [0, 1, 2, 3]),
              ue_Port = int (unat ((of_nat (u16At v 2) :: u16) XOR 0x2112))\<rparr>
      else if typ = 1 \<and> 8 \<le> length v \<and> v ! 1 = 1 then
        Some \<lparr>ue_Address = dotted [v ! 4, v ! 5, v ! 6, v ! 7], ue_Port = int (u16At v 2)\<rparr>
      else None)"

text \<open>\<^verbatim>\<open>(ln+3) &^ 3\<close> rounds up to a multiple of four.\<close>

function stunAttributes :: "bytes \<Rightarrow> nat \<Rightarrow> stunErr + udpEndpoint" where
  "stunAttributes b off =
     (if length b < off + 4 then Inl StunNoAddress
      else let typ = u16At b off; ln = u16At b (off + 2); o4 = off + 4
           in if length b < o4 + ln then Inl StunAttribute
              else case stunAddress typ (take ln (drop o4 b)) of
                Some e \<Rightarrow> Inr e
              | None \<Rightarrow> stunAttributes b (o4 + (ln + 3) div 4 * 4))"
  by pat_completeness auto
termination
  by (relation "measure (\<lambda>(b, off). length b - off)") auto

declare stunAttributes.simps [simp del]

definition stunResponse :: "bytes \<Rightarrow> bytes \<Rightarrow> stunErr + udpEndpoint" where
  "stunResponse tx b =
     (if length b < 20 then Inl StunShort
      else if take 4 (drop 4 b) \<noteq> magicCookie \<or> take 12 (drop 8 b) \<noteq> tx then Inl StunTransaction
      else stunAttributes b 20)"

definition discoverSTUN :: "(bytes \<Rightarrow> bytes option) \<Rightarrow> bytes \<Rightarrow> stunErr + udpEndpoint" where
  "discoverSTUN ask tape =
     (if length tape < 12 then Inl StunRandom
      else let tx = take 12 tape in
        case ask (stunRequest tx) of
          None \<Rightarrow> Inl StunSocket
        | Some answer \<Rightarrow> stunResponse tx (take 2048 answer))"

section \<open>Hole punching\<close>

text \<open>What happens to one probe: the write fails, nothing usable comes back in time, or a datagram arrives from
  some address and port.\<close>

datatype probe = WriteFails | NoAnswer | Datagram nat ip int

definition ipEqual :: "ip \<Rightarrow> ip \<Rightarrow> bool" where
  "ipEqual a b \<longleftrightarrow> a = b \<or> (to4 a \<noteq> None \<and> to4 a = to4 b)"

fun punch :: "ip \<Rightarrow> int \<Rightarrow> probe list \<Rightarrow> bool option" where
  "punch a port [] = Some False"
| "punch a port (p # ps) =
     (case p of
        WriteFails \<Rightarrow> None
      | NoAnswer \<Rightarrow> punch a port ps
      | Datagram n from_ip from_port \<Rightarrow>
          (if n > 0 \<and> ipEqual from_ip a \<and> from_port = port then Some True else punch a port ps))"

definition tryHolePunch :: "ip \<Rightarrow> int \<Rightarrow> (nat \<Rightarrow> probe) \<Rightarrow> bool option" where
  "tryHolePunch a port probes = punch a port (map probes [0..<5])"

section \<open>A server's answer\<close>

definition stunPad :: "nat \<Rightarrow> bytes" where "stunPad n = replicate ((n + 3) div 4 * 4 - n) 0"

definition stunAttribute :: "nat \<times> bytes \<Rightarrow> bytes" where
  "stunAttribute a = be 2 (fst a) @ be 2 (length (snd a)) @ snd a @ stunPad (length (snd a))"

text \<open>RFC 5389: port and address are exclusive-ored with the cookie.\<close>

definition xorMapped :: "ip \<Rightarrow> u16 \<Rightarrow> bytes" where
  "xorMapped a port = stunAttribute (0x20, [0, 1] @ putU16 (port XOR 0x2112) @ map2 (XOR) a magicCookie)"

definition stunAnswer :: "bytes \<Rightarrow> bytes \<Rightarrow> (nat \<times> bytes) list \<Rightarrow> ip \<Rightarrow> u16 \<Rightarrow> bytes \<Rightarrow> bytes" where
  "stunAnswer hdr tx attrs a port rest =
     hdr @ magicCookie @ tx @ concat (map stunAttribute attrs) @ xorMapped a port @ rest"

definition passedAttribute :: "nat \<times> bytes \<Rightarrow> bool" where
  "passedAttribute x \<longleftrightarrow> fst x < 65536 \<and> length (snd x) < 65536 \<and> stunAddress (fst x) (snd x) = None"

lemma u16At_be: "n < 65536 \<Longrightarrow> length pre = i \<Longrightarrow> u16At (pre @ be 2 n @ r) i = n"
proof -
  assume n: "n < 65536" and i: "length pre = i"
  have "be 2 n = [of_nat (n div 256), of_nat n]" by (simp add: numeral_2_eq_2)
  moreover have "unat (of_nat (n div 256) :: byte) * 256 + unat (of_nat n :: byte) = n" using n by (simp add: unat_of_nat)
  ultimately show ?thesis using i by (simp add: u16At_def nth_append)
qed

lemma stunAttributes_at:
  assumes "off + 4 + n \<le> length b" "u16At b off = t" "u16At b (off + 2) = n" "take n (drop (off + 4) b) = v"
  shows "stunAttributes b off = (case stunAddress t v of Some e \<Rightarrow> Inr e | None \<Rightarrow> stunAttributes b (off + 4 + (n + 3) div 4 * 4))"
  using assms by (subst stunAttributes.simps) (simp add: Let_def del: drop_drop)

lemma stunAttributes_step:
  assumes "fst x < 65536" "length (snd x) < 65536"
  shows "stunAttributes (pre @ stunAttribute x @ r) (length pre) =
     (case stunAddress (fst x) (snd x) of Some e \<Rightarrow> Inr e
      | None \<Rightarrow> stunAttributes ((pre @ stunAttribute x) @ r) (length (pre @ stunAttribute x)))"
proof -
  obtain t v where x: "x = (t, v)" by (cases x)
  let ?b = "pre @ stunAttribute x @ r"
  let ?p4 = "pre @ be 2 t @ be 2 (length v)"
  have b: "?b = pre @ be 2 t @ (be 2 (length v) @ v @ stunPad (length v) @ r)" "?b = (pre @ be 2 t) @ be 2 (length v) @ (v @ stunPad (length v) @ r)"
    "?b = ?p4 @ v @ stunPad (length v) @ r"
    by (simp_all add: stunAttribute_def x)
  have 1: "u16At ?b (length pre) = t" using assms u16At_be [of t pre] x unfolding b(1) by simp
  have 2: "u16At ?b (length pre + 2) = length v" using assms u16At_be [of "length v" "pre @ be 2 t"] x unfolding b(2) by simp
  have l4: "length pre + 4 = length ?p4" by simp
  have 3: "take (length v) (drop (length pre + 4) ?b) = v" unfolding b(3) l4 by simp
  have 4: "length pre + 4 + (length v + 3) div 4 * 4 = length (pre @ stunAttribute x)"
    by (simp add: stunAttribute_def x stunPad_def)
  have 5: "\<not> length ?b < length pre + 4" "\<not> length ?b < length pre + 4 + length v" unfolding b(3) by simp_all
  have "stunAttributes ?b (length pre) = (case stunAddress t v of Some e \<Rightarrow> Inr e
      | None \<Rightarrow> stunAttributes ?b (length pre + 4 + (length v + 3) div 4 * 4))"
    using 5(2) by (intro stunAttributes_at [OF _ 1 2 3]) simp
  then show ?thesis unfolding 4 by (simp add: x split: option.split)
qed

lemma stunAttributes_skip:
  "\<forall>x \<in> set attrs. passedAttribute x \<Longrightarrow>
   stunAttributes (pre @ concat (map stunAttribute attrs) @ r) (length pre)
     = stunAttributes ((pre @ concat (map stunAttribute attrs)) @ r) (length (pre @ concat (map stunAttribute attrs)))"
proof (induction attrs arbitrary: pre)
  case Nil
  then show ?case by simp
next
  case (Cons x xs)
  have "stunAttributes (pre @ stunAttribute x @ concat (map stunAttribute xs) @ r) (length pre)
      = stunAttributes ((pre @ stunAttribute x) @ concat (map stunAttribute xs) @ r) (length (pre @ stunAttribute x))"
    using Cons.prems stunAttributes_step [of x pre "concat (map stunAttribute xs) @ r"] by (simp add: passedAttribute_def)
  also have "\<dots> = stunAttributes (((pre @ stunAttribute x) @ concat (map stunAttribute xs)) @ r) (length ((pre @ stunAttribute x) @ concat (map stunAttribute xs)))"
    using Cons.prems by (intro Cons.IH) simp
  finally show ?case by simp
qed

lemma xor_twice [simp]: "(x XOR y) XOR y = (x :: 'a :: len word)"
  by (simp add: xor.assoc)

lemma stunAddress_xorMapped:
  assumes "length a = 4"
  shows "stunAddress 0x20 ([0, 1] @ putU16 (port XOR 0x2112) @ map2 (XOR) a magicCookie)
    = Some \<lparr>ue_Address = dotted a, ue_Port = int (unat port)\<rparr>"
proof -
  obtain p q r t where a: "a = [p, q, r, t]" using assms by (auto simp: length_Suc_conv numeral_eq_Suc)
  obtain h l where hl: "putU16 (port XOR 0x2112) = [h, l]"
    by (simp add: putU16_def numeral_2_eq_2)
  have "getU16 [h, l] = port XOR 0x2112" using getU16_putU16 [of "port XOR 0x2112"] hl by simp
  then have "(of_nat (unat h * 256 + unat l) :: u16) = port XOR 0x2112" by (simp add: getU16_def)
  then show ?thesis using hl by (simp add: stunAddress_def a magicCookie_def u16At_def)
qed

text \<open>A well-formed STUN answer to the request that was sent yields exactly the public address and port the
server put into it, whatever other attributes it sends before and after, of any length and type that name no
IPv4 address themselves.\<close>

theorem stun_learns_mapping:
  assumes "length hdr = 4" "length tx = 12" "length a = 4" "\<forall>x \<in> set attrs. passedAttribute x"
  shows "stunResponse tx (stunAnswer hdr tx attrs a port rest) = Inr \<lparr>ue_Address = dotted a, ue_Port = int (unat port)\<rparr>"
proof -
  let ?pre = "hdr @ magicCookie @ tx"
  let ?x = "(0x20 :: nat, [0, 1] @ putU16 (port XOR 0x2112) @ map2 (XOR) a magicCookie)"
  have c: "length magicCookie = 4" by (simp add: magicCookie_def)
  have l: "length ?pre = 20" using assms c by simp
  have ans: "stunAnswer hdr tx attrs a port rest = ?pre @ concat (map stunAttribute attrs) @ stunAttribute ?x @ rest"
    by (simp add: stunAnswer_def xorMapped_def)
  have "stunAttributes (stunAnswer hdr tx attrs a port rest) 20
      = stunAttributes ((?pre @ concat (map stunAttribute attrs)) @ stunAttribute ?x @ rest) (length (?pre @ concat (map stunAttribute attrs)))"
    using stunAttributes_skip [OF assms(4), of ?pre "stunAttribute ?x @ rest"] unfolding ans l .
  also have "\<dots> = Inr \<lparr>ue_Address = dotted a, ue_Port = int (unat port)\<rparr>"
    using stunAttributes_step [of ?x "?pre @ concat (map stunAttribute attrs)" rest] stunAddress_xorMapped [OF assms(3), of port] assms(3) c by simp
  finally have "stunAttributes (stunAnswer hdr tx attrs a port rest) 20 = Inr \<lparr>ue_Address = dotted a, ue_Port = int (unat port)\<rparr>" .
  moreover have "take 4 (drop 4 (stunAnswer hdr tx attrs a port rest)) = magicCookie" "take 12 (drop 8 (stunAnswer hdr tx attrs a port rest)) = tx"
    "20 \<le> length (stunAnswer hdr tx attrs a port rest)"
    using assms(1,2) c by (simp_all add: stunAnswer_def)
  ultimately show ?thesis by (simp add: stunResponse_def)
qed

theorem stun_learns_mapping_witness:
  "stunResponse (replicate 12 7) (stunAnswer [1, 1, 0, 0] (replicate 12 7) [(0x8022, [104, 105, 106])] [203, 0, 113, 9] 40000 [5])
     = Inr \<lparr>ue_Address = dotted [203, 0, 113, 9], ue_Port = int (unat (40000 :: u16))\<rparr>"
  by (rule stun_learns_mapping) (simp_all add: passedAttribute_def stunAddress_def)

end
