(* ===== verification/Phonebook.thy ===== *)
theory Phonebook
  imports Base64 Identity GoUnicode XChaCha Network
begin

text \<open>
  \<^verbatim>\<open>internal/phonebook\<close>: the blinded directory. \<^verbatim>\<open>handle.go\<close> derives the row key, the entry key and the write key
  and seals what a host publishes; \<^verbatim>\<open>candidates.go\<close> gathers it; \<^verbatim>\<open>phonebook.go\<close> is the client. The JSON codecs,
  the HTTP exchange and the clock are parameters.
\<close>

section \<open>Data\<close>

record candidate =
  cd_Kind :: string
  cd_Transport :: string
  cd_Address :: string
  cd_Port :: "int option"
  cd_Priority :: int

definition KindHost :: string where "KindHost = ''host''"
definition KindServerReflexive :: string where "KindServerReflexive = ''server_reflexive''"
definition KindServerReflexiveHTTP :: string where "KindServerReflexiveHTTP = ''server_reflexive_http''"

record announcement =
  an_Fingerprint :: string
  an_Candidates :: "candidate list"
  an_ProtocolVersion :: int

record pbPeer =
  pp_ID :: string
  pp_Online :: bool
  pp_Fingerprint :: string
  pp_Version :: int
  pp_LastSeen :: int
  pp_ExpiresAt :: int
  pp_Candidates :: "candidate list"

record registration =
  rg_ID :: string
  rg_ExpiresAt :: int
  rg_TTL :: int
  rg_HeartbeatInterval :: int
  rg_ObservedIP :: string

definition heartbeatIntervalDuration :: "registration \<Rightarrow> int" where
  "heartbeatIntervalDuration r = (if rg_HeartbeatInterval r \<le> 0 then 60 else rg_HeartbeatInterval r)"

record entry =
  en_ID :: string
  en_Fingerprint :: string
  en_ProtocolVersion :: int
  en_ClientVersion :: string
  en_Candidates :: "candidate list"

record envelope =
  ev_OK :: bool
  ev_Error :: string
  ev_Message :: string

record lookupAnswer =
  la_Sealed :: string
  la_Online :: bool
  la_LastSeen :: int
  la_ExpiresAt :: int

datatype jsonVal = JStr string | JInt int

type_synonym payload = "string \<Rightarrow> jsonVal option"

record pbLib =
  pl_crypto :: crypto
  pl_box :: xaead
  pl_entry :: "entry \<Rightarrow> bytes"
  pl_entryOf :: "bytes \<Rightarrow> entry option"
  pl_payload :: "payload \<Rightarrow> bytes"
  pl_envelopeOf :: "bytes \<Rightarrow> envelope option"
  pl_registrationOf :: "bytes \<Rightarrow> registration option"
  pl_lookupOf :: "bytes \<Rightarrow> lookupAnswer option"

datatype pbErr =
    PbNotFound
  | PbOffline
  | PbNotRegistered
  | PbHandleClaimed
  | PbDirectoryOutdated
  | PbDirectoryMismatch pbErr
  | PbAPI int string string
  | PbBadID string
  | PbNoIdentity
  | PbRandom
  | PbSealedTooLarge nat
  | PbNotBase64
  | PbTruncated
  | PbOversized
  | PbCannotOpen
  | PbNotARecord
  | PbNames string string
  | PbNoCandidates
  | PbNetwork
  | PbMalformed int
  | PbJson

section \<open>Deriving and sealing (\<open>handle.go\<close>)\<close>

definition labelHandle :: string where "labelHandle = ''cmd-chat phonebook v2 handle''"
definition labelEntryKey :: string where "labelEntryKey = ''cmd-chat phonebook v2 entry key''"
definition labelWriteKey :: string where "labelWriteKey = ''cmd-chat phonebook v2 write key''"
definition labelSealedAD :: string where "labelSealedAD = ''cmd-chat phonebook v2 entry''"

definition HandleBytes :: nat where "HandleBytes = 16"
definition HandleLength :: nat where "HandleLength = 26"
definition MaxSealedBytes :: nat where "MaxSealedBytes = 2048"

definition derive :: "crypto \<Rightarrow> bytes \<Rightarrow> string \<Rightarrow> nat \<Rightarrow> bytes" where
  "derive C ikm label out = c_expand C (c_extract C [] ikm) (toBytes label) out"

definition idChar :: "char \<Rightarrow> bool" where
  "idChar c = (let v = of_char c :: nat in (65 \<le> v \<and> v \<le> 90) \<or> (50 \<le> v \<and> v \<le> 55))"

definition ValidID :: "string \<Rightarrow> bool" where
  "ValidID i \<longleftrightarrow> length i = 19 \<and> hasPrefix i ''cc-'' \<and> list_all idChar (drop 3 i)"

definition handleOf :: "crypto \<Rightarrow> string \<Rightarrow> pbErr + string" where
  "handleOf C i =
     (if \<not> ValidID i then Inl (PbBadID i) else Inr (base32Encode (derive C (toBytes i) labelHandle HandleBytes)))"

definition entryKey :: "crypto \<Rightarrow> string \<Rightarrow> bytes" where
  "entryKey C i = derive C (toBytes i) labelEntryKey 32"

definition WriteKey :: "crypto \<Rightarrow> identity option \<Rightarrow> pbErr + bytes" where
  "WriteKey C i =
     (case i of
        None \<Rightarrow> Inl PbNoIdentity
      | Some d \<Rightarrow>
          (if length (idn_PrivateKey d) \<noteq> PrivateKeySize then Inl PbNoIdentity
           else Inr (newKeyFromSeed C (derive C (privSeed (idn_PrivateKey d)) labelWriteKey SeedSize))))"

definition associatedData :: "string \<Rightarrow> bytes" where
  "associatedData handle = toBytes labelSealedAD @ [0] @ toBytes handle"

definition sealEntry :: "pbLib \<Rightarrow> string \<Rightarrow> string \<Rightarrow> entry \<Rightarrow> (bytes, pbErr, string) prog" where
  "sealEntry P i handle e tape =
     (if length tape < NonceSizeX then (Inl PbRandom, [])
      else let sealed = boxSeal (pl_box P) (entryKey (pl_crypto P) i) (take NonceSizeX tape) (pl_entry P e) (associatedData handle)
           in (if length sealed > MaxSealedBytes then Inl (PbSealedTooLarge (length sealed)) else Inr (base64Encode sealed),
               drop NonceSizeX tape))"

definition openEntry :: "pbLib \<Rightarrow> string \<Rightarrow> string \<Rightarrow> string \<Rightarrow> pbErr + entry" where
  "openEntry P i handle encoded =
     bindE (fromOption PbNotBase64 (base64Decode encoded)) (\<lambda>raw.
     bindE (guardE (NonceSizeX + 16 \<le> length raw) PbTruncated) (\<lambda>_.
     bindE (guardE (length raw \<le> MaxSealedBytes) PbOversized) (\<lambda>_.
     bindE (fromOption PbCannotOpen (boxOpen (pl_box P) (entryKey (pl_crypto P) i) raw (associatedData handle))) (\<lambda>plain.
     bindE (fromOption PbNotARecord (pl_entryOf P plain)) (\<lambda>e.
     bindE (guardE (en_ID e = i) (PbNames (en_ID e) i)) (\<lambda>_. Inr e))))))"

definition atLeast1 :: "int \<Rightarrow> int" where "atLeast1 v = (if v \<le> 0 then 1 else v)"

definition announcedEntry :: "string \<Rightarrow> announcement \<Rightarrow> string \<Rightarrow> entry" where
  "announcedEntry i a clientVersion =
     \<lparr>en_ID = i, en_Fingerprint = toLower (an_Fingerprint a), en_ProtocolVersion = atLeast1 (an_ProtocolVersion a),
      en_ClientVersion = clientVersion, en_Candidates = an_Candidates a\<rparr>"

definition SealAnnouncement :: "pbLib \<Rightarrow> string \<Rightarrow> announcement \<Rightarrow> string \<Rightarrow> (bytes, pbErr, string \<times> string) prog" where
  "SealAnnouncement P i a clientVersion =
     bindS (liftS (handleOf (pl_crypto P) i)) (\<lambda>handle.
     bindS (sealEntry P i handle (announcedEntry i a clientVersion)) (\<lambda>sealed.
     retS (handle, sealed)))"

section \<open>Candidates (\<open>candidates.go\<close>)\<close>

definition PriorityHostLAN :: int where "PriorityHostLAN = 100"
definition PriorityHostRoutable :: int where "PriorityHostRoutable = 150"
definition PriorityServerReflexiv :: int where "PriorityServerReflexiv = 200"

text \<open>A network interface: its flags and the IP networks among its addresses; \<^verbatim>\<open>None\<close> when they cannot be read.\<close>

record netInterface =
  if_up :: bool
  if_loopback :: bool
  if_addrs :: "ip list option"

definition usableIP :: "ip \<Rightarrow> bool" where
  "usableIP a \<longleftrightarrow> \<not> (isLoopback a \<or> isLinkLocalUnicast a \<or> isLinkLocalMulticast a \<or> isUnspecified a)"

definition localAddresses :: "netInterface list option \<Rightarrow> ip list" where
  "localAddresses interfaces =
     (case interfaces of
        None \<Rightarrow> []
      | Some fs \<Rightarrow>
          concat (map (\<lambda>f. if \<not> if_up f \<or> if_loopback f then []
                           else case if_addrs f of
                             None \<Rightarrow> []
                           | Some as \<Rightarrow> map (\<lambda>a. case to4 a of Some b \<Rightarrow> b | None \<Rightarrow> a) (filter usableIP as)) fs))"

definition hostCandidate :: "(ip \<Rightarrow> string) \<Rightarrow> int \<Rightarrow> ip \<Rightarrow> candidate" where
  "hostCandidate v6 tcpPort a =
     \<lparr>cd_Kind = KindHost, cd_Transport = ''tcp'', cd_Address = ipString v6 a, cd_Port = Some tcpPort,
      cd_Priority = (if isPrivate a then PriorityHostLAN else PriorityHostRoutable)\<rparr>"

definition reflexiveCandidate :: "udpEndpoint \<Rightarrow> candidate" where
  "reflexiveCandidate e =
     \<lparr>cd_Kind = KindServerReflexive, cd_Transport = ''udp'', cd_Address = ue_Address e, cd_Port = Some (ue_Port e),
      cd_Priority = PriorityServerReflexiv\<rparr>"

text \<open>\<^verbatim>\<open>stun\<close> is \<^verbatim>\<open>None\<close> when no function was given; a nil endpoint is \<^verbatim>\<open>Some (Inr None)\<close>.\<close>

definition GatherCandidates ::
  "(ip \<Rightarrow> string) \<Rightarrow> netInterface list option \<Rightarrow> int \<Rightarrow> (stunErr + udpEndpoint option) option \<Rightarrow> candidate list \<times> stunErr option" where
  "GatherCandidates v6 interfaces tcpPort stun =
     (let hosts = map (hostCandidate v6 tcpPort) (localAddresses interfaces);
          (extra, err) =
            (case stun of
               None \<Rightarrow> ([], None)
             | Some (Inl e) \<Rightarrow> ([], Some e)
             | Some (Inr (Some ep)) \<Rightarrow> (if ue_Address ep \<noteq> '''' then ([reflexiveCandidate ep], None) else ([], None))
             | Some (Inr None) \<Rightarrow> ([], None));
          sorted = sort_key (\<lambda>c. - cd_Priority c) (hosts @ extra)
      in (if length sorted > 7 then take 7 sorted else sorted, err))"

fun TCPEndpoints :: "candidate list \<Rightarrow> string list" where
  "TCPEndpoints [] = []"
| "TCPEndpoints (c # cs) =
     (case cd_Port c of
        None \<Rightarrow> TCPEndpoints cs
      | Some p \<Rightarrow> if cd_Transport c \<noteq> ''tcp'' then TCPEndpoints cs else hostPort (cd_Address c) (itoa p) # TCPEndpoints cs)"

fun UDPEndpoints :: "candidate list \<Rightarrow> udpEndpoint list" where
  "UDPEndpoints [] = []"
| "UDPEndpoints (c # cs) =
     (case cd_Port c of
        None \<Rightarrow> UDPEndpoints cs
      | Some p \<Rightarrow> if cd_Transport c \<noteq> ''udp'' then UDPEndpoints cs else \<lparr>ue_Address = cd_Address c, ue_Port = p\<rparr> # UDPEndpoints cs)"

definition ObservedIPs :: "candidate list \<Rightarrow> string list" where
  "ObservedIPs cs = map cd_Address (filter (\<lambda>c. cd_Kind c = KindServerReflexiveHTTP) cs)"

section \<open>The client (\<open>phonebook.go\<close>)\<close>

definition pbDefaultBaseURL :: string where "pbDefaultBaseURL = ''https://cmd-chat-phonebook.cmd-chat.workers.dev''"

definition pbBaseURL :: "string \<Rightarrow> string" where
  "pbBaseURL env = (let v = trimSpace env in if v \<noteq> '''' then v else pbDefaultBaseURL)"

definition pbSigningPrefix :: string where "pbSigningPrefix = ''cmd-chat-phonebook/v2''"
definition maxResponseSize :: nat where "maxResponseSize = 64 * 1024"

text \<open>The client with what its operations draw on: its randomness and the readings of the clock to come.\<close>

record pbClient =
  pc_BaseURL :: string
  pc_Identity :: identity
  pc_derivedWriteKey :: "bytes option"
  pc_ClientVersion :: string
  pc_lastIssuedAt :: int
  pc_rand :: bytes
  pc_clock :: "nat \<Rightarrow> int"

type_synonym 'a pbOp = "(pbClient, pbErr, 'a) prog"

definition newClient :: "identity \<Rightarrow> string \<Rightarrow> bytes \<Rightarrow> (nat \<Rightarrow> int) \<Rightarrow> pbClient" where
  "newClient i base tape clock =
     (let b = (if trimSpace base = '''' then pbDefaultBaseURL else base)
      in \<lparr>pc_BaseURL = rev (dropWhile (\<lambda>c. c = CHR ''/'') (rev b)), pc_Identity = i, pc_derivedWriteKey = None,
          pc_ClientVersion = ''0.1.0'', pc_lastIssuedAt = 0, pc_rand = tape, pc_clock = clock\<rparr>)"

definition nextIssuedAt :: "pbClient \<Rightarrow> int \<times> pbClient" where
  "nextIssuedAt c =
     (let now = pc_clock c 0;
          now' = (if now \<le> pc_lastIssuedAt c then pc_lastIssuedAt c + 1 else now)
      in (now', c\<lparr>pc_lastIssuedAt := now', pc_clock := (\<lambda>k. pc_clock c (Suc k))\<rparr>))"

definition writeKey :: "crypto \<Rightarrow> bytes pbOp" where
  "writeKey C c =
     (case pc_derivedWriteKey c of
        Some k \<Rightarrow> (Inr k, c)
      | None \<Rightarrow>
          (case WriteKey C (Some (pc_Identity c)) of
             Inl e \<Rightarrow> (Inl e, c)
           | Inr k \<Rightarrow> (Inr k, c\<lparr>pc_derivedWriteKey := Some k\<rparr>)))"

definition writePublicKey :: "crypto \<Rightarrow> string pbOp" where
  "writePublicKey C = bindS (writeKey C) (\<lambda>k. retS (base64Encode (privPublic k)))"

definition requestMessage :: "crypto \<Rightarrow> string \<Rightarrow> string \<Rightarrow> int \<Rightarrow> bytes \<Rightarrow> string" where
  "requestMessage C verb path issuedAt body =
     pbSigningPrefix @ [CHR 0x0A] @ verb @ [CHR 0x0A] @ path @ [CHR 0x0A] @ decimalInt issuedAt @ [CHR 0x0A] @ hexEncode (c_sha256 C body)"

definition signRequest :: "crypto \<Rightarrow> string \<Rightarrow> string \<Rightarrow> int \<Rightarrow> bytes \<Rightarrow> string pbOp" where
  "signRequest C verb path issuedAt body =
     bindS (writeKey C) (\<lambda>k. retS (base64Encode (c_sign C (privSeed k) (toBytes (requestMessage C verb path issuedAt body)))))"

text \<open>What is sent: the address, and for a write the body with its signature header.\<close>

record pbRequest =
  rq_Method :: string
  rq_URL :: string
  rq_Signed :: "(bytes \<times> string) option"

definition buildRequest :: "pbLib \<Rightarrow> string \<Rightarrow> string \<Rightarrow> payload option \<Rightarrow> pbRequest pbOp" where
  "buildRequest P verb path payload =
     (case payload of
        None \<Rightarrow> (\<lambda>c. (Inr \<lparr>rq_Method = verb, rq_URL = pc_BaseURL c @ path, rq_Signed = None\<rparr>, c))
      | Some pl \<Rightarrow>
          bindS (\<lambda>c. (handleOf (pl_crypto P) (idn_ID (pc_Identity c)), c)) (\<lambda>handle.
          bindS (writePublicKey (pl_crypto P)) (\<lambda>writePub.
          bindS (\<lambda>c. case nextIssuedAt c of (t, c') \<Rightarrow> (Inr t, c')) (\<lambda>issuedAt.
          let body = pl_payload P (pl(''handle'' \<mapsto> JStr handle, ''write_key'' \<mapsto> JStr writePub, ''issued_at'' \<mapsto> JInt issuedAt)) in
          bindS (signRequest (pl_crypto P) verb path issuedAt body) (\<lambda>signature.
          (\<lambda>c. (Inr \<lparr>rq_Method = verb, rq_URL = pc_BaseURL c @ path, rq_Signed = Some (body, signature)\<rparr>, c)))))))"

definition readAnswer :: "pbLib \<Rightarrow> string \<Rightarrow> int \<Rightarrow> bytes \<Rightarrow> pbErr + bytes" where
  "readAnswer P path status body =
     (let data = take maxResponseSize body in
      case pl_envelopeOf P data of
        None \<Rightarrow> Inl (PbMalformed status)
      | Some ev \<Rightarrow>
          (if ev_OK ev then Inr data
           else if ev_Error ev = ''not_found'' then Inl PbNotFound
           else if ev_Error ev = ''offline'' then Inl PbOffline
           else if ev_Error ev = ''not_registered'' then Inl PbNotRegistered
           else if ev_Error ev = ''handle_claimed'' then Inl PbHandleClaimed
           else if status = 404 \<and> hasPrefix path ''/v2/'' then Inl PbDirectoryOutdated
           else Inl (PbAPI status (ev_Error ev) (ev_Message ev))))"

type_synonym exchange = "pbRequest \<Rightarrow> (int \<times> bytes) option"

definition doRequest :: "pbLib \<Rightarrow> exchange \<Rightarrow> string \<Rightarrow> string \<Rightarrow> payload option \<Rightarrow> bytes pbOp" where
  "doRequest P http verb path payload =
     bindS (buildRequest P verb path payload) (\<lambda>rq.
     liftS (case http rq of None \<Rightarrow> Inl PbNetwork | Some (status, body) \<Rightarrow> readAnswer P path status body))"

definition sealForClient :: "pbLib \<Rightarrow> announcement \<Rightarrow> string pbOp" where
  "sealForClient P a c =
     (case SealAnnouncement P (idn_ID (pc_Identity c)) a (pc_ClientVersion c) (pc_rand c) of
        (r, tape) \<Rightarrow> (map_sum id snd r, c\<lparr>pc_rand := tape\<rparr>))"

definition registrationFrom :: "pbLib \<Rightarrow> bytes \<Rightarrow> registration pbOp" where
  "registrationFrom P d c =
     (case pl_registrationOf P d of
        None \<Rightarrow> (Inl PbJson, c)
      | Some r \<Rightarrow> (Inr (r\<lparr>rg_ID := idn_ID (pc_Identity c)\<rparr>), c))"

definition registerEntry :: "pbLib \<Rightarrow> exchange \<Rightarrow> announcement \<Rightarrow> registration pbOp" where
  "registerEntry P http a =
     bindS (liftS (guardE (an_Candidates a \<noteq> []) PbNoCandidates)) (\<lambda>_.
     bindS (sealForClient P (a\<lparr>an_ProtocolVersion := atLeast1 (an_ProtocolVersion a)\<rparr>)) (\<lambda>sealed.
     bindS (doRequest P http ''POST'' ''/v2/publish'' (Some [''sealed'' \<mapsto> JStr sealed])) (\<lambda>d.
     registrationFrom P d)))"

definition heartbeat :: "pbLib \<Rightarrow> exchange \<Rightarrow> registration pbOp" where
  "heartbeat P http = bindS (doRequest P http ''POST'' ''/v2/touch'' (Some Map.empty)) (\<lambda>d. registrationFrom P d)"

definition unregister :: "pbLib \<Rightarrow> exchange \<Rightarrow> unit pbOp" where
  "unregister P http =
     bindS (\<lambda>c. (handleOf (pl_crypto P) (idn_ID (pc_Identity c)), c)) (\<lambda>handle c.
     case doRequest P http ''DELETE'' (''/v2/entry/'' @ handle) (Some Map.empty) c of
       (Inr _, c') \<Rightarrow> (Inr (), c')
     | (Inl e, c') \<Rightarrow> (if e = PbNotFound then Inr () else Inl e, c'))"

definition lookupPeer :: "pbLib \<Rightarrow> exchange \<Rightarrow> string \<Rightarrow> pbPeer pbOp" where
  "lookupPeer P http i =
     bindS (liftS (handleOf (pl_crypto P) i)) (\<lambda>handle.
     bindS (doRequest P http ''GET'' (''/v2/entry/'' @ handle) None) (\<lambda>d.
     liftS (bindE (fromOption PbJson (pl_lookupOf P d)) (\<lambda>r.
       bindE (guardE (la_Online r) PbOffline) (\<lambda>_.
       bindE (mapErr PbDirectoryMismatch (openEntry P i handle (la_Sealed r))) (\<lambda>e.
       Inr \<lparr>pp_ID = i, pp_Online = True, pp_Fingerprint = en_Fingerprint e, pp_Version = en_ProtocolVersion e,
            pp_LastSeen = la_LastSeen r, pp_ExpiresAt = la_ExpiresAt r, pp_Candidates = en_Candidates e\<rparr>))))))"

text \<open>One tick of \<^verbatim>\<open>KeepAlive\<close>: a lapsed registration is renewed if the caller can; the error left over is
  reported unless the context was cancelled.\<close>

definition keepAliveTick ::
  "pbLib \<Rightarrow> exchange \<Rightarrow> (pbClient \<Rightarrow> pbErr option \<times> pbClient) option \<Rightarrow> bool \<Rightarrow> pbClient \<Rightarrow> pbErr option \<times> pbClient" where
  "keepAliveTick P http renew cancelled c =
     (case heartbeat P http c of
        (Inr _, c') \<Rightarrow> (None, c')
      | (Inl e, c') \<Rightarrow>
          (case (if e = PbNotRegistered then renew else None) of
             Some f \<Rightarrow> (case f c' of (e', c'') \<Rightarrow> (if cancelled then None else e', c''))
           | None \<Rightarrow> (if cancelled then None else Some e, c')))"

definition keepAlivePeriod :: "int \<Rightarrow> int" where "keepAlivePeriod every = (if every \<le> 0 then 60 else every)"

section \<open>Opening what was sealed\<close>

lemma openEntry_iff:
  assumes "xaead_law (pl_box P)"
  shows "openEntry P i handle blob = Inr e \<longleftrightarrow>
     (\<exists>n plain. base64Decode blob = Some (boxSeal (pl_box P) (entryKey (pl_crypto P) i) n plain (associatedData handle))
        \<and> length n = NonceSizeX \<and> NonceSizeX + 16 + length plain \<le> MaxSealedBytes \<and> pl_entryOf P plain = Some e \<and> en_ID e = i)"
    (is "?l = ?r")
proof -
  have len: "length (boxSeal (pl_box P) k n p a) = length n + 16 + length p" for k n p a
    using assms by (simp add: boxSeal_def xaead_law_def)
  show ?thesis
  proof
    assume ?l
    then obtain raw plain where *: "base64Decode blob = Some raw" "NonceSizeX + 16 \<le> length raw" "length raw \<le> MaxSealedBytes"
      "boxOpen (pl_box P) (entryKey (pl_crypto P) i) raw (associatedData handle) = Some plain"
      "pl_entryOf P plain = Some e" "en_ID e = i"
      by (auto simp: openEntry_def bindE_eq_Inr)
    moreover obtain n where "length n = NonceSizeX" "raw = boxSeal (pl_box P) (entryKey (pl_crypto P) i) n plain (associatedData handle)"
      using boxOpen_iff [OF assms, of raw] * by auto
    ultimately show ?r using len by fastforce
  next
    assume ?r
    then obtain n plain where *: "base64Decode blob = Some (boxSeal (pl_box P) (entryKey (pl_crypto P) i) n plain (associatedData handle))"
      "length n = NonceSizeX" "NonceSizeX + 16 + length plain \<le> MaxSealedBytes" "pl_entryOf P plain = Some e" "en_ID e = i" by blast
    then show ?l using boxOpen_boxSeal [OF assms *(2)] len by (simp add: openEntry_def)
  qed
qed

lemma sealEntry_ok:
  assumes "sealEntry P i handle e tape = (Inr blob, tape')"
  shows "NonceSizeX \<le> length tape \<and> tape' = drop NonceSizeX tape
    \<and> (let raw = boxSeal (pl_box P) (entryKey (pl_crypto P) i) (take NonceSizeX tape) (pl_entry P e) (associatedData handle)
       in length raw \<le> MaxSealedBytes \<and> blob = base64Encode raw)"
  using assms by (auto simp: sealEntry_def Let_def split: if_splits)

lemma openEntry_sealEntry:
  assumes "xaead_law (pl_box P)" "sealEntry P i handle e tape = (Inr blob, tape')" "pl_entryOf P (pl_entry P e) = Some e" "en_ID e = i"
  shows "openEntry P i handle blob = Inr e"
proof -
  let ?raw = "boxSeal (pl_box P) (entryKey (pl_crypto P) i) (take NonceSizeX tape) (pl_entry P e) (associatedData handle)"
  have *: "NonceSizeX \<le> length tape" "length ?raw \<le> MaxSealedBytes" "blob = base64Encode ?raw"
    using sealEntry_ok [OF assms(2)] by (simp_all add: Let_def)
  then have "NonceSizeX + 16 + length (pl_entry P e) \<le> MaxSealedBytes"
    using assms(1) by (simp add: boxSeal_def xaead_law_def)
  then show ?thesis unfolding openEntry_iff [OF assms(1)] using * assms(3,4)
    by (intro exI [of _ "take NonceSizeX tape"] exI [of _ "pl_entry P e"]) simp
qed

text \<open>What a lookup that returns a peer was answered.\<close>

definition accepted :: "pbLib \<Rightarrow> bytes \<Rightarrow> bool" where
  "accepted P body \<longleftrightarrow> (case pl_envelopeOf P (take maxResponseSize body) of None \<Rightarrow> False | Some ev \<Rightarrow> ev_OK ev)"

lemma readAnswer_Inr: "readAnswer P path status body = Inr d \<longleftrightarrow> accepted P body \<and> d = take maxResponseSize body"
  by (auto simp: readAnswer_def accepted_def Let_def split: option.splits)

lemma lookupPeer_Inr:
  "lookupPeer P http i c = (Inr p, c') \<longleftrightarrow> c' = c \<and>
     (\<exists>handle status body r e. handleOf (pl_crypto P) i = Inr handle
        \<and> http \<lparr>rq_Method = ''GET'', rq_URL = pc_BaseURL c @ ''/v2/entry/'' @ handle, rq_Signed = None\<rparr> = Some (status, body)
        \<and> accepted P body \<and> pl_lookupOf P (take maxResponseSize body) = Some r \<and> la_Online r
        \<and> openEntry P i handle (la_Sealed r) = Inr e
        \<and> p = \<lparr>pp_ID = i, pp_Online = True, pp_Fingerprint = en_Fingerprint e, pp_Version = en_ProtocolVersion e,
               pp_LastSeen = la_LastSeen r, pp_ExpiresAt = la_ExpiresAt r, pp_Candidates = en_Candidates e\<rparr>)"
  (is "?l \<longleftrightarrow> ?r")
proof
  show "?l \<Longrightarrow> ?r"
    by (auto simp: lookupPeer_def doRequest_def buildRequest_def bindS_eq_Inr liftS_def bindE_eq_Inr readAnswer_Inr split: option.splits)
next
  have "lookupPeer P http i c = (Inr p, c)"
    if "handleOf (pl_crypto P) i = Inr handle"
      "http \<lparr>rq_Method = ''GET'', rq_URL = pc_BaseURL c @ ''/v2/entry/'' @ handle, rq_Signed = None\<rparr> = Some (status, body)"
      "accepted P body" "pl_lookupOf P (take maxResponseSize body) = Some r" "la_Online r" "openEntry P i handle (la_Sealed r) = Inr e"
      "p = \<lparr>pp_ID = i, pp_Online = True, pp_Fingerprint = en_Fingerprint e, pp_Version = en_ProtocolVersion e,
               pp_LastSeen = la_LastSeen r, pp_ExpiresAt = la_ExpiresAt r, pp_Candidates = en_Candidates e\<rparr>"
    for handle status body r e
    using that readAnswer_Inr [of P "''/v2/entry/'' @ handle" status body "take maxResponseSize body"]
    by (simp add: lookupPeer_def doRequest_def buildRequest_def run_simps)
  then show "?r \<Longrightarrow> ?l" by blast
qed

text \<open>C34: Whatever the directory answers, a lookup only ever returns a peer whose entry was sealed under the
key derived from the very ID that was asked for, for that ID's row, is within the size limit, and names that
ID; the fingerprint, version and addresses returned are the ones sealed in it.\<close>

theorem lookup_only_own_entry:
  assumes "xaead_law (pl_box P)" "lookupPeer P http i c = (Inr p, c')"
  shows "\<exists>handle n plain e. handleOf (pl_crypto P) i = Inr handle \<and> pl_entryOf P plain = Some e \<and> en_ID e = i
     \<and> NonceSizeX + 16 + length plain \<le> MaxSealedBytes
     \<and> (\<exists>status body r. http \<lparr>rq_Method = ''GET'', rq_URL = pc_BaseURL c @ ''/v2/entry/'' @ handle, rq_Signed = None\<rparr> = Some (status, body)
          \<and> pl_lookupOf P (take maxResponseSize body) = Some r
          \<and> base64Decode (la_Sealed r) = Some (boxSeal (pl_box P) (entryKey (pl_crypto P) i) n plain (associatedData handle)))
     \<and> pp_ID p = i \<and> pp_Fingerprint p = en_Fingerprint e \<and> pp_Version p = en_ProtocolVersion e \<and> pp_Candidates p = en_Candidates e"
proof -
  obtain handle status body r e where *: "handleOf (pl_crypto P) i = Inr handle"
    "http \<lparr>rq_Method = ''GET'', rq_URL = pc_BaseURL c @ ''/v2/entry/'' @ handle, rq_Signed = None\<rparr> = Some (status, body)"
    "pl_lookupOf P (take maxResponseSize body) = Some r" "openEntry P i handle (la_Sealed r) = Inr e"
    "p = \<lparr>pp_ID = i, pp_Online = True, pp_Fingerprint = en_Fingerprint e, pp_Version = en_ProtocolVersion e,
               pp_LastSeen = la_LastSeen r, pp_ExpiresAt = la_ExpiresAt r, pp_Candidates = en_Candidates e\<rparr>"
    using assms(2) unfolding lookupPeer_Inr by blast
  obtain n plain where "base64Decode (la_Sealed r) = Some (boxSeal (pl_box P) (entryKey (pl_crypto P) i) n plain (associatedData handle))"
    "NonceSizeX + 16 + length plain \<le> MaxSealedBytes" "pl_entryOf P plain = Some e" "en_ID e = i"
    using *(4) unfolding openEntry_iff [OF assms(1)] by blast
  then show ?thesis using * by (intro exI [of _ handle] exI [of _ n] exI [of _ plain] exI [of _ e]) auto
qed

section \<open>Publishing\<close>

lemma sealForClient_ok:
  assumes "sealForClient P a c = (Inr blob, c1)"
  shows "\<exists>handle. handleOf (pl_crypto P) (idn_ID (pc_Identity c)) = Inr handle
     \<and> (\<exists>tape. sealEntry P (idn_ID (pc_Identity c)) handle (announcedEntry (idn_ID (pc_Identity c)) a (pc_ClientVersion c)) (pc_rand c) = (Inr blob, tape)
          \<and> c1 = c\<lparr>pc_rand := tape\<rparr>)"
  using assms by (auto simp: sealForClient_def SealAnnouncement_def run_simps split: prod.splits sum.splits)

text \<open>A signed request: its body names the handle, the write key and a time later than any before, and its
  signature is the write key's over verb, path, time and body.\<close>

definition signedPayload :: "payload \<Rightarrow> string \<Rightarrow> bytes \<Rightarrow> int \<Rightarrow> payload" where
  "signedPayload pl handle k t =
     pl(''handle'' \<mapsto> JStr handle, ''write_key'' \<mapsto> JStr (base64Encode (privPublic k)), ''issued_at'' \<mapsto> JInt t)"

definition signedRequest :: "pbLib \<Rightarrow> string \<Rightarrow> string \<Rightarrow> string \<Rightarrow> bytes \<Rightarrow> int \<Rightarrow> bytes \<Rightarrow> pbRequest" where
  "signedRequest P base verb path k t body =
     \<lparr>rq_Method = verb, rq_URL = base @ path,
      rq_Signed = Some (body, base64Encode (c_sign (pl_crypto P) (privSeed k) (toBytes (requestMessage (pl_crypto P) verb path t body))))\<rparr>"

lemma buildRequest_signed:
  assumes "buildRequest P verb path (Some pl) c = (Inr rq, c')"
  shows "\<exists>handle k. handleOf (pl_crypto P) (idn_ID (pc_Identity c)) = Inr handle \<and> fst (writeKey (pl_crypto P) c) = Inr k
     \<and> rq = signedRequest P (pc_BaseURL c) verb path k (fst (nextIssuedAt c)) (pl_payload P (signedPayload pl handle k (fst (nextIssuedAt c))))
     \<and> c' = (snd (nextIssuedAt c))\<lparr>pc_derivedWriteKey := Some k\<rparr>"
  using assms
  by (auto simp: buildRequest_def bindS_eq_Inr writePublicKey_def signRequest_def writeKey_def nextIssuedAt_def Let_def retS_def
      signedPayload_def signedRequest_def split: option.splits sum.splits)

lemma nextIssuedAt_newer:
  "pc_lastIssuedAt c < fst (nextIssuedAt c)" "pc_lastIssuedAt (snd (nextIssuedAt c)) = fst (nextIssuedAt c)"
  by (simp_all add: nextIssuedAt_def Let_def)

text \<open>A directory that answers a client's lookup of a handle with a sealed entry, and the peer that makes of it.\<close>

definition servesEntry :: "pbLib \<Rightarrow> exchange \<Rightarrow> pbClient \<Rightarrow> string \<Rightarrow> string \<Rightarrow> lookupAnswer \<Rightarrow> bool" where
  "servesEntry P http g handle blob ans \<longleftrightarrow>
     (case http \<lparr>rq_Method = ''GET'', rq_URL = pc_BaseURL g @ ''/v2/entry/'' @ handle, rq_Signed = None\<rparr> of
        None \<Rightarrow> False
      | Some (status, body) \<Rightarrow> accepted P body \<and> pl_lookupOf P (take maxResponseSize body) = Some ans
          \<and> la_Online ans \<and> la_Sealed ans = blob)"

definition foundPeer :: "string \<Rightarrow> announcement \<Rightarrow> lookupAnswer \<Rightarrow> pbPeer" where
  "foundPeer i a ans =
     \<lparr>pp_ID = i, pp_Online = True, pp_Fingerprint = toLower (an_Fingerprint a), pp_Version = atLeast1 (an_ProtocolVersion a),
      pp_LastSeen = la_LastSeen ans, pp_ExpiresAt = la_ExpiresAt ans, pp_Candidates = an_Candidates a\<rparr>"

lemma published_facts:
  assumes "xaead_law (pl_box P)" "registerEntry P http a c = (Inr r, c')" "i = idn_ID (pc_Identity c)"
    "pl_entryOf P (pl_entry P (announcedEntry i a (pc_ClientVersion c))) = Some (announcedEntry i a (pc_ClientVersion c))"
  shows "\<exists>handle rq pl sig blob. handleOf (pl_crypto P) i = Inr handle \<and> http rq \<noteq> None
     \<and> rq_Signed rq = Some (pl_payload P pl, sig) \<and> pl ''sealed'' = Some (JStr blob) \<and> pl ''handle'' = Some (JStr handle)
     \<and> (\<forall>http' g ans. servesEntry P http' g handle blob ans \<longrightarrow> lookupPeer P http' i g = (Inr (foundPeer i a ans), g))"
proof -
  let ?a = "a\<lparr>an_ProtocolVersion := atLeast1 (an_ProtocolVersion a)\<rparr>"
  obtain blob c1 rq c2 where s: "sealForClient P ?a c = (Inr blob, c1)"
    and b: "buildRequest P ''POST'' ''/v2/publish'' (Some [''sealed'' \<mapsto> JStr blob]) c1 = (Inr rq, c2)" and h: "http rq \<noteq> None"
    using assms(2) by (auto simp: registerEntry_def doRequest_def bindS_eq_Inr liftS_def split: option.splits)
  let ?e = "announcedEntry i a (pc_ClientVersion c)"
  have same: "announcedEntry i ?a v = announcedEntry i a v" for v by (simp add: announcedEntry_def atLeast1_def)
  obtain handle tape where hd: "handleOf (pl_crypto P) i = Inr handle" and se: "sealEntry P i handle ?e (pc_rand c) = (Inr blob, tape)"
    and c1: "c1 = c\<lparr>pc_rand := tape\<rparr>"
    using sealForClient_ok [OF s] assms(3) same by auto
  obtain k t sig where rq: "rq_Signed rq = Some (pl_payload P (signedPayload [''sealed'' \<mapsto> JStr blob] handle k t), sig)"
    using buildRequest_signed [OF b] c1 assms(3) hd by (auto simp: signedRequest_def)
  have e: "en_ID ?e = i" by (simp add: announcedEntry_def)
  have oe: "openEntry P i handle blob = Inr ?e" by (rule openEntry_sealEntry [OF assms(1) se assms(4) e])
  have "lookupPeer P http' i g = (Inr (foundPeer i a ans), g)" if "servesEntry P http' g handle blob ans" for http' g ans
    unfolding lookupPeer_Inr using that hd oe
    by (auto simp: servesEntry_def foundPeer_def announcedEntry_def split: option.splits)
  then show ?thesis using hd rq h
    by (intro exI [of _ handle] exI [of _ rq] exI [of _ "signedPayload [''sealed'' \<mapsto> JStr blob] handle k t"]
        exI [of _ sig] exI [of _ blob]) (simp add: signedPayload_def)
qed

text \<open>What a host publishes is what its friends find. When a registration succeeds, the request it sent
carries a sealed entry, and any client that looks the host's ID up on a directory that returns that entry gets
the announced candidates and protocol version and the fingerprint in lower case.\<close>

theorem published_is_found:
  assumes "xaead_law (pl_box P)" "registerEntry P http a c = (Inr r, c')" "i = idn_ID (pc_Identity c)"
    "pl_entryOf P (pl_entry P (announcedEntry i a (pc_ClientVersion c))) = Some (announcedEntry i a (pc_ClientVersion c))"
  shows "\<exists>handle rq pl sig blob. handleOf (pl_crypto P) i = Inr handle \<and> http rq \<noteq> None
     \<and> rq_Signed rq = Some (pl_payload P pl, sig) \<and> pl ''sealed'' = Some (JStr blob) \<and> pl ''handle'' = Some (JStr handle)
     \<and> (\<forall>http' g ans. servesEntry P http' g handle blob ans \<longrightarrow> lookupPeer P http' i g = (Inr (foundPeer i a ans), g))"
  by (rule published_facts [OF assms])

section \<open>What the directory is sent\<close>

definition cacheOk :: "crypto \<Rightarrow> pbClient \<Rightarrow> bool" where
  "cacheOk C c \<longleftrightarrow> (case pc_derivedWriteKey c of None \<Rightarrow> True | Some k \<Rightarrow> WriteKey C (Some (pc_Identity c)) = Inr k)"

lemma writeKey_derived: "cacheOk C c \<Longrightarrow> fst (writeKey C c) = WriteKey C (Some (pc_Identity c))"
  by (simp add: writeKey_def cacheOk_def split: option.splits sum.splits)

lemma WriteKey_verifies:
  assumes "sig_law C" "hash_lengths C" "WriteKey C (Some i) = Inr k"
  shows "c_verify C (privPublic k) m (c_sign C (privSeed k) m)"
  using assms by (auto simp: WriteKey_def newKeyFromSeed_def privPublic_def privSeed_def sig_law_def hash_lengths_def derive_def SeedSize_def
      split: if_splits)

text \<open>Every write a client sends carries a time later than every time it sent before, even when the clock
stands still or runs backwards, and a signature that verifies under the write key in its body for exactly its
verb, path, time and body; sending it leaves the client ready for the next. So a directory that demands all of
this never refuses the rightful writer.\<close>

theorem write_is_acceptable:
  assumes "sig_law (pl_crypto P)" "hash_lengths (pl_crypto P)" "cacheOk (pl_crypto P) c"
    "buildRequest P verb path (Some pl) c = (Inr rq, c')"
  shows "\<exists>handle k body sig. WriteKey (pl_crypto P) (Some (pc_Identity c)) = Inr k
     \<and> pc_lastIssuedAt c < pc_lastIssuedAt c' \<and> body = pl_payload P (signedPayload pl handle k (pc_lastIssuedAt c'))
     \<and> rq = \<lparr>rq_Method = verb, rq_URL = pc_BaseURL c @ path, rq_Signed = Some (body, base64Encode sig)\<rparr>
     \<and> c_verify (pl_crypto P) (privPublic k) (toBytes (requestMessage (pl_crypto P) verb path (pc_lastIssuedAt c') body)) sig
     \<and> cacheOk (pl_crypto P) c' \<and> pc_Identity c' = pc_Identity c"
proof -
  obtain handle k where k: "fst (writeKey (pl_crypto P) c) = Inr k"
    and rq: "rq = signedRequest P (pc_BaseURL c) verb path k (fst (nextIssuedAt c)) (pl_payload P (signedPayload pl handle k (fst (nextIssuedAt c))))"
    and c': "c' = (snd (nextIssuedAt c))\<lparr>pc_derivedWriteKey := Some k\<rparr>"
    using buildRequest_signed [OF assms(4)] by blast
  have w: "WriteKey (pl_crypto P) (Some (pc_Identity c)) = Inr k" using k writeKey_derived [OF assms(3)] by simp
  have t: "pc_lastIssuedAt c' = fst (nextIssuedAt c)" "pc_Identity c' = pc_Identity c"
    using nextIssuedAt_newer(2) [of c] by (simp_all add: c' nextIssuedAt_def Let_def)
  have "cacheOk (pl_crypto P) c'" using w t(2) by (simp add: cacheOk_def c')
  then show ?thesis using w t nextIssuedAt_newer(1) [of c] WriteKey_verifies [OF assms(1,2) w] unfolding rq signedRequest_def
    by (intro exI [of _ handle] exI [of _ k] exI) auto
qed

text \<open>What a write tells the directory about its sender is the handle and the write key and nothing else:
two clients that agree on those two, on the clock and on what they publish send byte for byte the same request,
however different their IDs, identity keys and versions are.\<close>

theorem directory_sees_handle_only:
  assumes "cacheOk (pl_crypto P) c" "cacheOk (pl_crypto P) d"
    "handleOf (pl_crypto P) (idn_ID (pc_Identity c)) = Inr h" "handleOf (pl_crypto P) (idn_ID (pc_Identity d)) = Inr h"
    "WriteKey (pl_crypto P) (Some (pc_Identity c)) = WriteKey (pl_crypto P) (Some (pc_Identity d))"
    "pc_BaseURL c = pc_BaseURL d" "pc_lastIssuedAt c = pc_lastIssuedAt d" "pc_clock c = pc_clock d"
  shows "fst (buildRequest P verb path (Some pl) c) = fst (buildRequest P verb path (Some pl) d)"
proof -
  have w: "fst (writeKey (pl_crypto P) c) = fst (writeKey (pl_crypto P) d)"
    using assms(1,2,5) by (simp add: writeKey_derived)
  have t: "fst (nextIssuedAt c) = fst (nextIssuedAt d)" using assms(7,8) by (simp add: nextIssuedAt_def Let_def)
  show ?thesis
  proof (cases "fst (writeKey (pl_crypto P) c)")
    case (Inl e)
    then show ?thesis using w assms(3,4)
      by (auto simp: buildRequest_def run_simps writePublicKey_def split: prod.splits)
  next
    case (Inr k)
    have fin: "\<exists>rq x'. buildRequest P verb path (Some pl) x = (Inr rq, x')"
      if "fst (writeKey (pl_crypto P) x) = Inr k" "handleOf (pl_crypto P) (idn_ID (pc_Identity x)) = Inr h" for x
      using that by (auto simp: buildRequest_def run_simps writePublicKey_def signRequest_def writeKey_def nextIssuedAt_def Let_def
          split: option.splits sum.splits)
    obtain rq c' rq' d' where b: "buildRequest P verb path (Some pl) c = (Inr rq, c')" "buildRequest P verb path (Some pl) d = (Inr rq', d')"
      using fin [of c] fin [of d] Inr w assms(3,4) by auto
    show ?thesis using buildRequest_signed [OF b(1)] buildRequest_signed [OF b(2)] b w t assms(3,4,6) by auto
  qed
qed

section \<open>What is published\<close>

lemma hostCandidate_priority: "cd_Priority (hostCandidate v6 port a) < cd_Priority (reflexiveCandidate ep)"
  by (simp add: hostCandidate_def reflexiveCandidate_def PriorityHostLAN_def PriorityHostRoutable_def PriorityServerReflexiv_def)

lemma sort_key_hd:
  assumes "r \<in> set xs" "\<And>x. x \<in> set xs \<Longrightarrow> x = r \<or> f r < (f x :: int)"
  shows "hd (sort_key f xs) = r"
proof -
  have ne: "sort_key f xs \<noteq> []" using assms(1) by (metis list.set(1) empty_iff set_sort)
  then have h: "hd (sort_key f xs) \<in> set xs" by (metis hd_in_set set_sort)
  have "sorted (map f (sort_key f xs))" by simp
  moreover have "f r \<in> set (map f (sort_key f xs))" using assms(1) by simp
  ultimately have "f (hd (sort_key f xs)) \<le> f r" using ne by (cases "sort_key f xs") (auto simp: le_less)
  then show ?thesis using assms(2) [OF h] by auto
qed

lemma sorted_descending: "sorted (map (\<lambda>c. - f c) xs) \<Longrightarrow> sorted_wrt (\<lambda>a b. f b \<le> (f a :: int)) xs"
  by (induction xs) auto

lemma sorted_wrt_take: "sorted_wrt R xs \<Longrightarrow> sorted_wrt R (take n xs)"
  by (metis append_take_drop_id sorted_wrt_append)

text \<open>A host publishes at most seven candidates, best first: no candidate it leaves out has a higher priority
than one it keeps, and a public address that STUN found always comes first. A STUN failure is handed on but
costs no other candidate.\<close>

theorem gathered_are_best:
  assumes "GatherCandidates v6 interfaces port stun = (cs, err)"
    "hosts = map (hostCandidate v6 port) (localAddresses interfaces)"
  shows "length cs \<le> 7 \<and> sorted_wrt (\<lambda>a b. cd_Priority b \<le> cd_Priority a) cs
     \<and> (\<forall>h \<in> set hosts. h \<in> set cs \<or> (\<forall>k \<in> set cs. cd_Priority h \<le> cd_Priority k))
     \<and> (\<forall>ep. stun = Some (Inr (Some ep)) \<and> ue_Address ep \<noteq> '''' \<longrightarrow> cs \<noteq> [] \<and> hd cs = reflexiveCandidate ep)
     \<and> err = (case stun of Some (Inl e) \<Rightarrow> Some e | _ \<Rightarrow> None)"
proof -
  define extra where "extra = (case stun of Some (Inr (Some ep)) \<Rightarrow> if ue_Address ep \<noteq> '''' then [reflexiveCandidate ep] else [] | _ \<Rightarrow> [])"
  let ?s = "sort_key (\<lambda>c. - cd_Priority c) (hosts @ extra)"
  have cs: "cs = take 7 ?s" and err: "err = (case stun of Some (Inl e) \<Rightarrow> Some e | _ \<Rightarrow> None)"
    using assms by (auto simp: GatherCandidates_def Let_def extra_def split: option.splits sum.splits if_splits)
  have sorted: "sorted_wrt (\<lambda>a b. cd_Priority b \<le> cd_Priority a) ?s" by (rule sorted_descending) simp
  have best: "h \<in> set cs \<or> (\<forall>k \<in> set cs. cd_Priority h \<le> cd_Priority k)" if "h \<in> set hosts" for h
  proof -
    have "h \<in> set (take 7 ?s @ drop 7 ?s)" using that by simp
    then have "h \<in> set (take 7 ?s) \<or> h \<in> set (drop 7 ?s)" by (metis Un_iff set_append)
    moreover have "sorted_wrt (\<lambda>a b. cd_Priority b \<le> cd_Priority a) (take 7 ?s @ drop 7 ?s)" using sorted by simp
    then have "\<forall>k \<in> set (take 7 ?s). \<forall>x \<in> set (drop 7 ?s). cd_Priority x \<le> cd_Priority k"
      by (simp only: sorted_wrt_append) blast
    ultimately show ?thesis unfolding cs by blast
  qed
  have first: "cs \<noteq> [] \<and> hd cs = reflexiveCandidate ep" if "stun = Some (Inr (Some ep))" "ue_Address ep \<noteq> ''''" for ep
  proof -
    have x: "extra = [reflexiveCandidate ep]" using that by (simp add: extra_def)
    have "hd ?s = reflexiveCandidate ep"
      unfolding x assms(2) by (rule sort_key_hd) (use hostCandidate_priority in auto)
    moreover have "?s \<noteq> []" unfolding x by (metis list.set(1) empty_iff set_sort in_set_conv_decomp)
    ultimately show ?thesis unfolding cs by (cases ?s) simp_all
  qed
  show ?thesis using sorted_wrt_take [OF sorted, of 7] best first err by (simp add: cs)
qed

section \<open>A directory that computes\<close>

definition sampleID :: string where "sampleID = ''cc-AAAAAAAAAAAAAAAA''"

definition sampleAnnouncement :: announcement where
  "sampleAnnouncement = \<lparr>an_Fingerprint = ''AB12'',
     an_Candidates = [\<lparr>cd_Kind = KindHost, cd_Transport = ''tcp'', cd_Address = ''192.0.2.1'', cd_Port = Some 4242, cd_Priority = 150\<rparr>], an_ProtocolVersion = 0\<rparr>"

definition sampleHost :: identity where
  "sampleHost = \<lparr>idn_PrivateKey = replicate 64 1, idn_PublicKey = replicate 32 1, idn_ID = sampleID\<rparr>"

definition sampleClient :: pbClient where
  "sampleClient = newClient sampleHost '''' (replicate 60 9) (\<lambda>k. 1000)"

definition samplePb :: "string \<Rightarrow> pbLib" where
  "samplePb blob = \<lparr>pl_crypto = plainCrypto, pl_box = plainX, pl_entry = (\<lambda>e. [1]),
     pl_entryOf = (\<lambda>b. if b = [1] then Some (announcedEntry sampleID sampleAnnouncement ''0.1.0'') else None),
     pl_payload = (\<lambda>p. [2]), pl_envelopeOf = (\<lambda>b. Some \<lparr>ev_OK = True, ev_Error = '''', ev_Message = ''''\<rparr>),
     pl_registrationOf = (\<lambda>b. Some \<lparr>rg_ID = '''', rg_ExpiresAt = 90, rg_TTL = 90, rg_HeartbeatInterval = 60, rg_ObservedIP = ''''\<rparr>),
     pl_lookupOf = (\<lambda>b. Some \<lparr>la_Sealed = blob, la_Online = True, la_LastSeen = 5, la_ExpiresAt = 90\<rparr>)\<rparr>"

definition sampleExchange :: exchange where "sampleExchange rq = Some (200, [3])"

lemma samplePb_simps [simp]:
  "pl_crypto (samplePb b) = plainCrypto" "pl_box (samplePb b) = plainX" "pl_entry (samplePb b) e = [1]"
  "pl_entryOf (samplePb b) [1] = Some (announcedEntry sampleID sampleAnnouncement ''0.1.0'')"
  "accepted (samplePb b) x" "pl_lookupOf (samplePb b) x = Some \<lparr>la_Sealed = b, la_Online = True, la_LastSeen = 5, la_ExpiresAt = 90\<rparr>"
  "pl_registrationOf (samplePb b) x = Some \<lparr>rg_ID = '''', rg_ExpiresAt = 90, rg_TTL = 90, rg_HeartbeatInterval = 60, rg_ObservedIP = ''''\<rparr>"
  by (simp_all add: samplePb_def accepted_def)

lemma sampleID_valid: "ValidID sampleID" by code_simp

lemma sampleClient_simps [simp]:
  "pc_Identity sampleClient = sampleHost" "pc_ClientVersion sampleClient = ''0.1.0''" "pc_rand sampleClient = replicate 60 9"
  "pc_derivedWriteKey sampleClient = None" "idn_ID sampleHost = sampleID" "length (idn_PrivateKey sampleHost) = 64"
  by (simp_all add: sampleClient_def newClient_def Let_def sampleHost_def)

lemma sample_handle: "\<exists>h. handleOf plainCrypto sampleID = Inr h"
  by (simp add: handleOf_def sampleID_valid)

lemma sample_registers:
  assumes a: "an_Candidates a \<noteq> []"
  shows "\<exists>r c'. registerEntry ((samplePb b)\<lparr>pl_entryOf := f\<rparr>) sampleExchange a sampleClient = (Inr r, c')"
proof -
  let ?P = "(samplePb b)\<lparr>pl_entryOf := f\<rparr>"
  obtain h where h: "handleOf plainCrypto sampleID = Inr h" using sample_handle by blast
  have s: "\<exists>t. sealForClient ?P a' sampleClient = (Inr t, sampleClient\<lparr>pc_rand := replicate 36 9\<rparr>)" for a'
    using h by (auto simp: sealForClient_def SealAnnouncement_def run_simps sealEntry_def NonceSizeX_def Let_def boxSeal_def plainX_def plainSeal_def
        MaxSealedBytes_def)
  have ac: "accepted ?P x" for x by (simp add: accepted_def samplePb_def)
  have q: "\<exists>d c'. doRequest ?P sampleExchange v p (Some pl) (sampleClient\<lparr>pc_rand := x\<rparr>) = (Inr d, c')" for v p pl x
    using h ac readAnswer_Inr [of ?P p 200 "[3]" "take maxResponseSize [3]"]
    by (auto simp: doRequest_def buildRequest_def run_simps writePublicKey_def signRequest_def writeKey_def WriteKey_def nextIssuedAt_def
        Let_def sampleExchange_def PrivateKeySize_def)
  let ?a = "a\<lparr>an_ProtocolVersion := atLeast1 (an_ProtocolVersion a)\<rparr>"
  obtain t where t: "sealForClient ?P ?a sampleClient = (Inr t, sampleClient\<lparr>pc_rand := replicate 36 9\<rparr>)"
    using s by blast
  obtain d c' where "doRequest ?P sampleExchange ''POST'' ''/v2/publish'' (Some [''sealed'' \<mapsto> JStr t])
      (sampleClient\<lparr>pc_rand := replicate 36 9\<rparr>) = (Inr d, c')" using q by blast
  then show ?thesis using t a by (simp add: registerEntry_def run_simps registrationFrom_def)
qed

lemma sample_register: "\<exists>r c'. registerEntry (samplePb b) sampleExchange sampleAnnouncement sampleClient = (Inr r, c')"
  using sample_registers [where a = sampleAnnouncement and b = b and f = "pl_entryOf (samplePb b)"] by (simp add: sampleAnnouncement_def)

theorem published_is_found_witness:
  "\<exists>handle rq pl sig blob. handleOf plainCrypto sampleID = Inr handle \<and> sampleExchange rq \<noteq> None
     \<and> rq_Signed rq = Some (pl_payload (samplePb '''') pl, sig) \<and> pl ''sealed'' = Some (JStr blob) \<and> pl ''handle'' = Some (JStr handle)
     \<and> (\<forall>http' g ans. servesEntry (samplePb '''') http' g handle blob ans
          \<longrightarrow> lookupPeer (samplePb '''') http' sampleID g = (Inr (foundPeer sampleID sampleAnnouncement ans), g))"
proof -
  obtain r c' where r: "registerEntry (samplePb '''') sampleExchange sampleAnnouncement sampleClient = (Inr r, c')"
    using sample_register by blast
  have "xaead_law (pl_box (samplePb ''''))" using plainX_law by simp
  from published_is_found [OF this r, of sampleID] show ?thesis by simp
qed

theorem lookup_only_own_entry_witness:
  "\<exists>blob p. lookupPeer (samplePb blob) sampleExchange sampleID sampleClient = (Inr p, sampleClient) \<and> pp_ID p = sampleID \<and> pp_Fingerprint p = ''ab12''"
proof -
  obtain h where h: "handleOf plainCrypto sampleID = Inr h" using sample_handle by blast
  let ?raw = "boxSeal plainX (entryKey plainCrypto sampleID) (replicate 24 0) [1] (associatedData h)"
  let ?e = "announcedEntry sampleID sampleAnnouncement ''0.1.0''"
  have law: "xaead_law (pl_box (samplePb b))" for b using plainX_law by simp
  have "en_ID ?e = sampleID" by (simp add: announcedEntry_def)
  then have "openEntry (samplePb b) sampleID h (base64Encode ?raw) = Inr ?e" for b
    unfolding openEntry_iff [OF law] by (intro exI [of _ "replicate 24 0"] exI [of _ "[1]"]) (simp add: NonceSizeX_def MaxSealedBytes_def)
  then obtain p where p: "lookupPeer (samplePb (base64Encode ?raw)) sampleExchange sampleID sampleClient = (Inr p, sampleClient)"
    "pp_Fingerprint p = en_Fingerprint ?e"
    unfolding lookupPeer_Inr using h by (auto simp: sampleExchange_def)
  moreover have "en_Fingerprint ?e = ''ab12''" by code_simp
  ultimately show ?thesis using lookup_only_own_entry [OF law p(1)] by metis
qed

theorem write_is_acceptable_witness:
  "\<exists>rq c' sig. buildRequest (samplePb '''') ''POST'' ''/v2/touch'' (Some Map.empty) sampleClient = (Inr rq, c') \<and> 0 < pc_lastIssuedAt c'
     \<and> rq_Signed rq = Some ([2], base64Encode sig)"
proof -
  have c: "cacheOk plainCrypto sampleClient" by (simp add: cacheOk_def)
  obtain h where h: "handleOf plainCrypto sampleID = Inr h" using sample_handle by blast
  obtain rq c' where b: "buildRequest (samplePb '''') ''POST'' ''/v2/touch'' (Some Map.empty) sampleClient = (Inr rq, c')"
    using h by (auto simp: buildRequest_def run_simps writePublicKey_def signRequest_def writeKey_def WriteKey_def nextIssuedAt_def Let_def PrivateKeySize_def)
  have "pc_lastIssuedAt sampleClient = 0" by (simp add: sampleClient_def newClient_def Let_def)
  moreover have "pl_payload (samplePb '''') p = [2]" for p by (simp add: samplePb_def)
  ultimately show ?thesis
    using write_is_acceptable [OF _ _ _ b] c b crypto_law_parts(1,5) [OF plainCrypto_law] by (auto simp: )
qed

definition otherHost :: identity where
  "otherHost = sampleHost\<lparr>idn_PublicKey := replicate 32 3\<rparr>"

theorem directory_sees_handle_only_witness:
  "idn_PublicKey (pc_Identity sampleClient) \<noteq> idn_PublicKey (pc_Identity (sampleClient\<lparr>pc_Identity := otherHost\<rparr>))
   \<and> fst (buildRequest (samplePb '''') ''POST'' ''/v2/touch'' (Some Map.empty) sampleClient)
     = fst (buildRequest (samplePb '''') ''POST'' ''/v2/touch'' (Some Map.empty) (sampleClient\<lparr>pc_Identity := otherHost, pc_ClientVersion := ''9''\<rparr>))"
proof -
  obtain h where h: "handleOf plainCrypto sampleID = Inr h" using sample_handle by blast
  have "replicate 32 (1 :: byte) \<noteq> replicate 32 3" by (simp add: replicate_eq_replicate)
  then have "idn_PublicKey sampleHost \<noteq> idn_PublicKey otherHost" by (simp add: otherHost_def sampleHost_def)
  moreover have "fst (buildRequest (samplePb '''') ''POST'' ''/v2/touch'' (Some Map.empty) sampleClient)
     = fst (buildRequest (samplePb '''') ''POST'' ''/v2/touch'' (Some Map.empty) (sampleClient\<lparr>pc_Identity := otherHost, pc_ClientVersion := ''9''\<rparr>))"
    by (rule directory_sees_handle_only [where h = h]) (simp_all add: cacheOk_def h otherHost_def WriteKey_def)
  ultimately show ?thesis by simp
qed

theorem gathered_are_best_witness:
  "\<exists>cs err. GatherCandidates (\<lambda>a. '''') (Some [\<lparr>if_up = True, if_loopback = False, if_addrs = Some [[192, 168, 0, 7], [127, 0, 0, 1]]\<rparr>]) 4242
       (Some (Inr (Some \<lparr>ue_Address = ''203.0.113.9'', ue_Port = 40000\<rparr>))) = (cs, err)
     \<and> length cs \<le> 7 \<and> hd cs = reflexiveCandidate \<lparr>ue_Address = ''203.0.113.9'', ue_Port = 40000\<rparr> \<and> err = None"
proof -
  let ?f = "Some [\<lparr>if_up = True, if_loopback = False, if_addrs = Some [[192, 168, 0, 7], [127, 0, 0, 1]]\<rparr>]"
  let ?s = "Some (Inr (Some \<lparr>ue_Address = ''203.0.113.9'', ue_Port = 40000\<rparr>))"
  obtain cs err where g: "GatherCandidates (\<lambda>a. '''') ?f 4242 ?s = (cs, err)" by (metis surj_pair)
  from gathered_are_best [OF g refl] show ?thesis using g by auto
qed

end
