(* ===== verification/WebSocket.thy ===== *)
theory WebSocket
  imports Base64 Wire GoUnicode
begin

text \<open>
  \<^verbatim>\<open>internal/relay/websocket.go\<close>: the client side of RFC 6455 that carries a chat through the relay. The
  raw connection is a reader and a writer of bytes; mask keys come from a random tape; URL parsing,
  the HTTP response reader and SHA-1 are the library's and parameters.
\<close>

definition wsGUID :: string where "wsGUID = ''258EAFA5-E914-47DA-95CA-C5AB0DC85B11''"

definition opContinuation :: byte where "opContinuation = 0"
definition opText :: byte where "opText = 1"
definition opBinary :: byte where "opBinary = 2"
definition opClose :: byte where "opClose = 8"
definition opPing :: byte where "opPing = 9"
definition opPong :: byte where "opPong = 10"

lemmas op_defs = opContinuation_def opText_def opBinary_def opClose_def opPing_def opPong_def

definition maxFrameBytes :: nat where "maxFrameBytes = 64 * 1024"

datatype wsErr =
    WsIO ioErr
  | WsFrameTooLarge int
  | WsMasked
  | WsOrphanContinuation
  | WsInterleaved
  | WsMessageTooLarge
  | WsCloseErr int string
  | WsRandom
  | WsBadURL
  | WsBadScheme string
  | WsDial
  | WsHeaderValue
  | WsHandshakeRead
  | WsHTTPError int string
  | WsAcceptMismatch

record wsConn =
  ws_in :: reader_st
  ws_out :: writer_st
  ws_rand :: bytes
  ws_pending :: bytes
  ws_control :: "bytes list"
  ws_closed :: bool

section \<open>Writing\<close>

definition wsLength :: "nat \<Rightarrow> bytes" where
  "wsLength n =
     (if n < 126 then [0x80 OR of_nat n]
      else if n \<le> 0xFFFF then [0x80 OR 126] @ be 2 n
      else [0x80 OR 127, 0, 0, 0, 0] @ be 4 n)"

definition maskBytes :: "bytes \<Rightarrow> bytes \<Rightarrow> bytes" where
  "maskBytes mk payload = map (\<lambda>i. (payload ! i) XOR (mk ! (i mod 4))) [0..<length payload]"

definition wsWriteFrame :: "byte \<Rightarrow> bytes \<Rightarrow> (wsConn, wsErr, unit) prog" where
  "wsWriteFrame opcode payload c =
     (if length (ws_rand c) < 4 then (Inl WsRandom, c)
      else let mk = take 4 (ws_rand c);
               frame = [0x80 OR opcode] @ wsLength (length payload) @ mk @ maskBytes mk payload
           in case writeBytes frame (ws_out c) of
                (r, o') \<Rightarrow> (mapErr WsIO r, c\<lparr>ws_rand := drop 4 (ws_rand c), ws_out := o'\<rparr>))"

function wsWrite :: "bytes \<Rightarrow> wsConn \<Rightarrow> nat \<times> wsErr option \<times> wsConn" where
  "wsWrite p c =
     (if p = [] then (0, None, c)
      else case wsWriteFrame opBinary (take maxFrameBytes p) c of
        (Inl e, c') \<Rightarrow> (0, Some e, c')
      | (Inr _, c') \<Rightarrow> (case wsWrite (drop maxFrameBytes p) c' of (n, e, c'') \<Rightarrow> (min maxFrameBytes (length p) + n, e, c'')))"
  by pat_completeness auto
termination
  by (relation "measure (\<lambda>(p, c). length p)") (auto simp: maxFrameBytes_def)

declare wsWrite.simps [simp del]

section \<open>Reading\<close>

definition wsFull :: "nat \<Rightarrow> (wsConn, wsErr, bytes) prog" where
  "wsFull k c = (case readFull k (ws_in c) of (r, i) \<Rightarrow> (mapErr WsIO r, c\<lparr>ws_in := i\<rparr>))"

text \<open>\<^verbatim>\<open>int64(binary.BigEndian.Uint64(ext))\<close>: the top bit makes the length negative.\<close>

definition int64Of :: "bytes \<Rightarrow> int" where
  "int64Of b = (let n = unbe 0 b in if n < 2 ^ 63 then int n else int n - 2 ^ 64)"

definition wsReadLength :: "nat \<Rightarrow> (wsConn, wsErr, int) prog" where
  "wsReadLength l =
     (if l = 126 then bindS (wsFull 2) (\<lambda>e. retS (int (unbe 0 e)))
      else if l = 127 then bindS (wsFull 8) (\<lambda>e. retS (int64Of e))
      else retS (int l))"

text \<open>One frame off the wire: its final bit, opcode and data.\<close>

definition wsFrameIn :: "(wsConn, wsErr, bool \<times> byte \<times> bytes) prog" where
  "wsFrameIn =
     bindS (wsFull 2) (\<lambda>h.
     let fin = (h ! 0 AND 0x80 \<noteq> 0); opcode = h ! 0 AND 0x0F; masked = (h ! 1 AND 0x80 \<noteq> 0)
     in bindS (wsReadLength (unat (h ! 1 AND 0x7F))) (\<lambda>len.
        if len < 0 \<or> len > int maxFrameBytes then failS (WsFrameTooLarge len)
        else if masked then failS WsMasked
        else bindS (wsFull (nat len)) (\<lambda>d. retS (fin, opcode, d))))"

definition parseClose :: "bytes \<Rightarrow> int \<times> string" where
  "parseClose d = (if length d < 2 then (1005, '''') else (int (unbe 0 (take 2 d)), ofBytes (drop 2 d)))"

definition rawClose :: "wsConn \<Rightarrow> wsConn" where
  "rawClose c = c\<lparr>ws_in := \<lparr>inBytes = [], inEnd = Broken\<rparr>, ws_out := (ws_out c)\<lparr>outRoom := Some 0\<rparr>\<rparr>"

lemma wsFull_Inr:
  "wsFull k c = (Inr b, c') \<longleftrightarrow> k \<le> length (inBytes (ws_in c)) \<and> b = take k (inBytes (ws_in c))
     \<and> c' = c\<lparr>ws_in := (ws_in c)\<lparr>inBytes := drop k (inBytes (ws_in c))\<rparr>\<rparr>"
  by (auto simp: wsFull_def)

lemma wsReadLength_shorter: "wsReadLength l c = (Inr n, c') \<Longrightarrow> length (inBytes (ws_in c')) \<le> length (inBytes (ws_in c))"
  by (auto simp: wsReadLength_def bindS_eq_Inr wsFull_Inr retS_def split: if_splits)

lemma wsFrameIn_shorter:
  assumes "wsFrameIn c = (Inr x, c')"
  shows "length (inBytes (ws_in c')) + 2 \<le> length (inBytes (ws_in c))"
proof -
  from assms obtain h c1 len c2 where "wsFull 2 c = (Inr h, c1)" "wsReadLength (unat (h ! 1 AND 0x7F)) c1 = (Inr len, c2)"
    "length (inBytes (ws_in c')) \<le> length (inBytes (ws_in c2))"
    by (auto simp: wsFrameIn_def bindS_eq_Inr Let_def wsFull_Inr retS_def failS_def split: if_splits)
  then show ?thesis using wsReadLength_shorter [of _ c1 len c2] by (fastforce simp: wsFull_Inr)
qed

lemma wsWriteFrame_in: "wsWriteFrame op d c = (r, c') \<Longrightarrow> ws_in c' = ws_in c"
  by (auto simp: wsWriteFrame_def Let_def split: if_splits prod.splits)

function wsReadLoop :: "byte \<Rightarrow> bytes \<Rightarrow> bool \<Rightarrow> (wsConn, wsErr, byte \<times> bytes) prog" where
  "wsReadLoop firstOpcode assembled fragmented c =
     (case wsFrameIn c of
        (Inl e, c1) \<Rightarrow> (Inl e, c1)
      | (Inr (fin, opcode, d), c1) \<Rightarrow>
          (if opcode = opPing then
             (case wsWriteFrame opPong d c1 of
                (Inl e, c2) \<Rightarrow> (Inl e, c2)
              | (Inr _, c2) \<Rightarrow> wsReadLoop firstOpcode assembled fragmented c2)
           else if opcode = opPong then wsReadLoop firstOpcode assembled fragmented c1
           else if opcode = opClose then
             (Inl (WsCloseErr (fst (parseClose d)) (snd (parseClose d))), rawClose (snd (wsWriteFrame opClose d c1)))
           else if opcode = opContinuation \<and> \<not> fragmented then (Inl WsOrphanContinuation, c1)
           else if opcode \<noteq> opContinuation \<and> fragmented then (Inl WsInterleaved, c1)
           else let first' = (if opcode = opContinuation then firstOpcode else opcode);
                    assembled' = assembled @ d
                in if length assembled' > maxFrameBytes then (Inl WsMessageTooLarge, c1)
                   else if fin then (Inr (first', assembled'), c1)
                   else wsReadLoop first' assembled' True c1))"
  by pat_completeness auto
termination
proof (relation "measure (\<lambda>(f, a, g, c). length (inBytes (ws_in c)))", goal_cases)
  case 1
  show ?case by simp
next
  case (2 f a g c x c1 p fin q opcode d y c2)
  then have "wsFrameIn c = (Inr p, c1)" "wsWriteFrame opPong d c1 = (y, c2)" by simp_all
  then show ?case using wsFrameIn_shorter [of c p c1] wsWriteFrame_in [of opPong d c1 y c2] by simp
next
  case (3 f a g c x c1 p fin q opcode d)
  then have "wsFrameIn c = (Inr p, c1)" by simp
  then show ?case using wsFrameIn_shorter [of c p c1] by simp
next
  case (4 f a g c x c1 p fin q opcode d)
  then have "wsFrameIn c = (Inr p, c1)" by simp
  then show ?case using wsFrameIn_shorter [of c p c1] by simp
qed

declare wsReadLoop.simps [simp del]

definition wsReadFrame :: "(wsConn, wsErr, byte \<times> bytes) prog" where
  "wsReadFrame = wsReadLoop 0 [] False"

lemma wsReadLoop_shorter:
  "wsReadLoop f a g c = (Inr m, c') \<Longrightarrow> length (inBytes (ws_in c')) < length (inBytes (ws_in c)) \<and> length (snd m) \<le> maxFrameBytes"
proof (induction "length (inBytes (ws_in c))" arbitrary: f a g c rule: less_induct)
  case less
  obtain r c1 where r: "wsFrameIn c = (r, c1)" by (metis surj_pair)
  show ?case
  proof (cases r)
    case (Inl e)
    then show ?thesis using less.prems r by (simp add: wsReadLoop.simps [of f a g c])
  next
    case (Inr x)
    obtain fin opcode d where x: "x = (fin, opcode, d)" by (cases x)
    note r' = r [unfolded Inr x]
    have l: "length (inBytes (ws_in c1)) < length (inBytes (ws_in c))" using wsFrameIn_shorter [OF r'] by simp
    obtain y c2 where w: "wsWriteFrame opPong d c1 = (y, c2)" by (metis surj_pair)
    have l2: "length (inBytes (ws_in c2)) < length (inBytes (ws_in c))" using l wsWriteFrame_in [OF w] by simp
    note e = less.prems [unfolded wsReadLoop.simps [of f a g c] r' prod.case sum.case]
    consider "opcode = opPing" | "opcode \<noteq> opPing" "opcode = opPong" | "opcode \<noteq> opPing" "opcode \<noteq> opPong" by blast
    then show ?thesis
    proof cases
      case 1
      then obtain u where "y = Inr u" and *: "wsReadLoop f a g c2 = (Inr m, c')" using e w by (cases y) simp_all
      from less.hyps [OF l2 *] l2 show ?thesis by simp
    next
      case 2
      then have "wsReadLoop f a g c1 = (Inr m, c')" using e by simp
      from less.hyps [OF l this] l show ?thesis by simp
    next
      case 3
      then show ?thesis using e less.hyps [OF l] l by (auto simp: Let_def split: if_splits dest: less.hyps [OF l])
    qed
  qed
qed

text \<open>\<^verbatim>\<open>Read\<close> into a buffer of \<^verbatim>\<open>k\<close> bytes: text frames go to the control channel, which holds eight.\<close>

function wsRead :: "nat \<Rightarrow> (wsConn, wsErr, bytes) prog" where
  "wsRead k c =
     (if ws_pending c \<noteq> [] then (Inr (take k (ws_pending c)), c\<lparr>ws_pending := drop k (ws_pending c)\<rparr>)
      else case wsReadFrame c of
        (Inl e, c1) \<Rightarrow> (Inl e, c1)
      | (Inr (opcode, payload), c1) \<Rightarrow>
          (if opcode = opText then
             wsRead k (if length (ws_control c1) < 8 then c1\<lparr>ws_control := ws_control c1 @ [payload]\<rparr> else c1)
           else wsRead k (c1\<lparr>ws_pending := payload\<rparr>)))"
  by pat_completeness auto
termination
proof (relation "measure (\<lambda>(k, c). length (inBytes (ws_in c)))", goal_cases)
  case 1
  show ?case by simp
next
  case (2 k c x c1 p opcode payload)
  then have "wsReadFrame c = (Inr p, c1)" by simp
  then show ?case using wsReadLoop_shorter [of 0 "[]" False c p c1] by (simp add: wsReadFrame_def)
next
  case (3 k c x c1 p opcode payload)
  then have "wsReadFrame c = (Inr p, c1)" by simp
  then show ?case using wsReadLoop_shorter [of 0 "[]" False c p c1] by (simp add: wsReadFrame_def)
qed

declare wsRead.simps [simp del]

function wsControlLoop :: "(wsConn, wsErr, bytes) prog" where
  "wsControlLoop c =
     (case wsReadFrame c of
        (Inl e, c1) \<Rightarrow> (Inl e, c1)
      | (Inr (opcode, payload), c1) \<Rightarrow>
          (if opcode = opText then (Inr payload, c1)
           else wsControlLoop (c1\<lparr>ws_pending := ws_pending c1 @ payload\<rparr>)))"
  by pat_completeness auto
termination
proof (relation "measure (\<lambda>c. length (inBytes (ws_in c)))", goal_cases)
  case 1
  show ?case by simp
next
  case (2 c x c1 p opcode payload)
  then have "wsReadFrame c = (Inr p, c1)" by simp
  then show ?case using wsReadLoop_shorter [of 0 "[]" False c p c1] by (simp add: wsReadFrame_def)
qed

declare wsControlLoop.simps [simp del]

definition nextControl :: "(wsConn, wsErr, bytes) prog" where
  "nextControl c =
     (case ws_control c of
        m # ms \<Rightarrow> (Inr m, c\<lparr>ws_control := ms\<rparr>)
      | [] \<Rightarrow> wsControlLoop c)"

definition wsClose :: "wsConn \<Rightarrow> wsConn" where
  "wsClose c = (if ws_closed c then c else rawClose (snd (wsWriteFrame opClose (be 2 1000) c))\<lparr>ws_closed := True\<rparr>)"

section \<open>The upgrade\<close>

record parsedURL =
  pu_Scheme :: string
  pu_Host :: string
  pu_RequestURI :: string

record httpResponse =
  hr_status :: int
  hr_accept :: string
  hr_body :: bytes

definition joinHostPort :: "string \<Rightarrow> string \<Rightarrow> string" where
  "joinHostPort host port = (if CHR '':'' \<in> set host then ''['' @ host @ '']:'' @ port else host @ '':'' @ port)"

definition withDefaultPort :: "(string \<Rightarrow> bool) \<Rightarrow> string \<Rightarrow> string \<Rightarrow> string" where
  "withDefaultPort splits host port = (if splits host then host else joinHostPort host port)"

definition wsTarget :: "(string \<Rightarrow> bool) \<Rightarrow> parsedURL \<Rightarrow> wsErr + (bool \<times> string)" where
  "wsTarget splits u =
     (if pu_Scheme u = ''wss'' \<or> pu_Scheme u = ''https'' then Inr (True, withDefaultPort splits (pu_Host u) ''443'')
      else if pu_Scheme u = ''ws'' \<or> pu_Scheme u = ''http'' then Inr (False, withDefaultPort splits (pu_Host u) ''80'')
      else Inl (WsBadScheme (pu_Scheme u)))"

definition crlf :: string where "crlf = [CHR 0x0D, CHR 0x0A]"

fun headerLines :: "(string \<times> string) list \<Rightarrow> string option" where
  "headerLines [] = Some []"
| "headerLines ((name, v) # hs) =
     (if CHR 0x0D \<in> set v \<or> CHR 0x0A \<in> set v then None
      else map_option (\<lambda>r. name @ '': '' @ v @ crlf @ r) (headerLines hs))"

definition upgradeRequest :: "parsedURL \<Rightarrow> string \<Rightarrow> (string \<times> string) list \<Rightarrow> string option" where
  "upgradeRequest u key headers =
     (let path = (if pu_RequestURI u = '''' then ''/'' else pu_RequestURI u)
      in map_option (\<lambda>hs. ''GET '' @ path @ '' HTTP/1.1'' @ crlf @ ''Host: '' @ pu_Host u @ crlf
            @ ''Upgrade: websocket'' @ crlf @ ''Connection: Upgrade'' @ crlf
            @ ''Sec-WebSocket-Key: '' @ key @ crlf @ ''Sec-WebSocket-Version: 13'' @ crlf @ hs @ crlf)
          (headerLines headers))"

definition wsAccept :: "(bytes \<Rightarrow> bytes) \<Rightarrow> string \<Rightarrow> string" where
  "wsAccept sha1 key = base64Encode (sha1 (toBytes (key @ wsGUID)))"

text \<open>
  What \<^verbatim>\<open>dialWebSocket\<close> takes from the libraries: \<^verbatim>\<open>url.Parse\<close>, whether \<^verbatim>\<open>net.SplitHostPort\<close> accepts a host,
  opening the connection (over TLS when the flag says so), SHA-1, and reading the response, which leaves
  the rest of the stream. The header order is a map's and arbitrary: a list.
\<close>

record wsLibrary =
  wl_parse :: "string \<Rightarrow> parsedURL option"
  wl_splits :: "string \<Rightarrow> bool"
  wl_dial :: "bool \<Rightarrow> string \<Rightarrow> wsConn option"
  wl_sha1 :: "bytes \<Rightarrow> bytes"
  wl_response :: "reader_st \<Rightarrow> (httpResponse \<times> reader_st) option"

definition dialWebSocket :: "wsLibrary \<Rightarrow> string \<Rightarrow> (string \<times> string) list \<Rightarrow> wsErr + wsConn" where
  "dialWebSocket L target headers =
     bindE (fromOption WsBadURL (wl_parse L target)) (\<lambda>u.
     bindE (wsTarget (wl_splits L) u) (\<lambda>(secure, host).
     bindE (fromOption WsDial (wl_dial L secure host)) (\<lambda>c.
     if length (ws_rand c) < 16 then Inl WsRandom
     else let key = base64Encode (take 16 (ws_rand c)) in
       case upgradeRequest u key headers of
         None \<Rightarrow> Inl WsHeaderValue
       | Some req \<Rightarrow>
           (case writeBytes (toBytes req) (ws_out c) of
              (Inl e, _) \<Rightarrow> Inl (WsIO e)
            | (Inr _, o') \<Rightarrow>
                (case wl_response L (ws_in c) of
                   None \<Rightarrow> Inl WsHandshakeRead
                 | Some (res, i') \<Rightarrow>
                     (if hr_status res \<noteq> 101 then Inl (WsHTTPError (hr_status res) (trimSpace (ofBytes (take 4096 (hr_body res)))))
                      else if hr_accept res \<noteq> wsAccept (wl_sha1 L) key then Inl WsAcceptMismatch
                      else Inr \<lparr>ws_in = i', ws_out = o', ws_rand = drop 16 (ws_rand c), ws_pending = [], ws_control = [], ws_closed = False\<rparr>))))))"

text \<open>The two errors the package formats itself.\<close>

definition httpErrorText :: "int \<Rightarrow> string \<Rightarrow> string" where
  "httpErrorText status body =
     (if body \<noteq> '''' then ''relay: HTTP '' @ decimalInt status @ '': '' @ body else ''relay: HTTP '' @ decimalInt status)"

definition closeErrorText :: "int \<Rightarrow> string \<Rightarrow> string" where
  "closeErrorText code reason =
     ''relay closed the session ('' @ decimalInt code @ '')'' @ (if reason \<noteq> '''' then '': '' @ reason else '''')"

end
