(* ===== verification/WebSocketRun.thy ===== *)
theory WebSocketRun
  imports WebSocket
begin

text \<open>
  The other end of \<^verbatim>\<open>internal/relay/websocket.go\<close>, from the standard: how a server reads the frames a
  client writes and what it may send back. Against it, what \<^verbatim>\<open>Write\<close> delivers and what \<^verbatim>\<open>readFrame\<close>
  assembles.
\<close>

section \<open>Header bytes\<close>

lemma len_small: "n < 128 \<Longrightarrow> unat ((0x80 OR (of_nat n :: byte)) AND 0x7F) = n \<and> (0x80 OR (of_nat n :: byte)) AND 0x80 \<noteq> 0"
proof -
  have "list_all (\<lambda>n. unat ((0x80 OR (of_nat n :: byte)) AND 0x7F) = n \<and> (0x80 OR (of_nat n :: byte)) AND 0x80 \<noteq> 0) [0..<128]"
    by code_simp
  then show "n < 128 \<Longrightarrow> ?thesis" by (simp add: list_all_iff)
qed

lemma len_small': "n < 128 \<Longrightarrow> unat ((of_nat n :: byte) AND 0x7F) = n \<and> (of_nat n :: byte) AND 0x80 = 0"
proof -
  have "list_all (\<lambda>n. unat ((of_nat n :: byte) AND 0x7F) = n \<and> (of_nat n :: byte) AND 0x80 = 0) [0..<128]"
    by code_simp
  then show "n < 128 \<Longrightarrow> ?thesis" by (simp add: list_all_iff)
qed

lemma op_nibble: "op < 16 \<Longrightarrow> (0x80 OR op) AND 0x0F = (op :: byte) \<and> op AND 0x0F = op \<and> (0x80 OR op) AND 0x80 \<noteq> 0 \<and> op AND 0x80 = 0"
proof -
  have *: "list_all (\<lambda>op. (0x80 OR op) AND 0x0F = (op :: byte) \<and> op AND 0x0F = op \<and> (0x80 OR op) AND 0x80 \<noteq> 0 \<and> op AND 0x80 = 0) (map of_nat [0..<16])"
    by code_simp
  assume "op < 16"
  then have "unat op < 16" by (simp add: word_less_nat_alt)
  then have "op \<in> set (map of_nat [0..<16])" by (auto intro!: image_eqI [of _ _ "unat op"])
  then show ?thesis using * unfolding list_all_iff by blast
qed

section \<open>The other end\<close>

text \<open>A server's reading of one client frame (RFC 6455, section 5.2): final, masked, any length form.\<close>

definition srvLength :: "nat \<Rightarrow> bytes \<Rightarrow> (nat \<times> bytes) option" where
  "srvLength l r =
     (if l < 126 then Some (l, r)
      else if l = 126 then (if length r < 2 then None else Some (unbe 0 (take 2 r), drop 2 r))
      else if length r < 8 then None else Some (unbe 0 (take 8 r), drop 8 r))"

definition srvFrame :: "bytes \<Rightarrow> ((byte \<times> bytes) \<times> bytes) option" where
  "srvFrame b =
     (if length b < 2 \<or> b ! 0 AND 0x80 = 0 \<or> b ! 1 AND 0x80 = 0 then None
      else case srvLength (unat (b ! 1 AND 0x7F)) (drop 2 b) of
        None \<Rightarrow> None
      | Some (n, r) \<Rightarrow>
          (if length r < 4 + n then None
           else Some ((b ! 0 AND 0x0F, maskBytes (take 4 r) (take n (drop 4 r))), drop (4 + n) r)))"

lemma srvFrame_shorter: "srvFrame b = Some (x, r) \<Longrightarrow> length r < length b"
  by (auto simp: srvFrame_def srvLength_def split: if_splits)

function srvFrames :: "bytes \<Rightarrow> (byte \<times> bytes) list option" where
  "srvFrames b =
     (if b = [] then Some []
      else case srvFrame b of
        None \<Rightarrow> None
      | Some (x, r) \<Rightarrow> map_option (\<lambda>xs. x # xs) (srvFrames r))"
  by pat_completeness auto
termination
  by (relation "measure length") (auto dest: srvFrame_shorter)

declare srvFrames.simps [simp del]

lemma srvFrames_Nil [simp]: "srvFrames [] = Some []"
  by (simp add: srvFrames.simps)

lemma maskBytes_length [simp]: "length (maskBytes k d) = length d"
  by (simp add: maskBytes_def)

lemma maskBytes_twice [simp]: "maskBytes k (maskBytes k d) = d"
  by (rule nth_equalityI) (simp_all add: maskBytes_def xor.assoc)

definition clientFrame :: "byte \<Rightarrow> bytes \<Rightarrow> bytes \<Rightarrow> bytes" where
  "clientFrame op k d = [0x80 OR op] @ wsLength (length d) @ k @ maskBytes k d"

lemma srvLength_wsLength:
  assumes "n < 2 ^ 32"
  obtains h t where "wsLength n = h # t" "h AND 0x80 \<noteq> 0" "srvLength (unat (h AND 0x7F)) (t @ r) = Some (n, r)"
proof -
  consider (a) "n < 126" | (b) "126 \<le> n" "n \<le> 0xFFFF" | (c) "n > 0xFFFF" by linarith
  then show thesis
  proof cases
    case a
    then show ?thesis using len_small [of n] by (intro that [of "0x80 OR of_nat n" "[]"]) (simp_all add: wsLength_def srvLength_def)
  next
    case b
    then show ?thesis using len_small [of 126]
      by (intro that [of "0x80 OR 126" "be 2 n"]) (simp_all add: wsLength_def srvLength_def unbe_be)
  next
    case c
    have z: "unbe 0 (0 # 0 # 0 # 0 # be 4 n) = n" using assms by (simp add: unbe_be)
    show ?thesis using c len_small [of 127] z
      by (intro that [of "0x80 OR 127" "[0, 0, 0, 0] @ be 4 n"]) (simp_all add: wsLength_def srvLength_def)
  qed
qed

lemma srvFrame_clientFrame:
  assumes "op < 16" "length k = 4" "length d < 2 ^ 32"
  shows "srvFrame (clientFrame op k d @ r) = Some ((op, d), r)"
proof -
  obtain h t where h: "wsLength (length d) = h # t" "h AND 0x80 \<noteq> 0"
    "srvLength (unat (h AND 0x7F)) (t @ k @ maskBytes k d @ r) = Some (length d, k @ maskBytes k d @ r)"
    using srvLength_wsLength [OF assms(3)] by metis
  show ?thesis using h assms(2) op_nibble [OF assms(1)] by (simp add: srvFrame_def clientFrame_def)
qed

lemma srvFrames_clientFrame:
  assumes "op < 16" "length k = 4" "length d < 2 ^ 32"
  shows "srvFrames (clientFrame op k d @ r) = map_option (\<lambda>xs. (op, d) # xs) (srvFrames r)"
  using srvFrame_clientFrame [OF assms, of r]
  by (subst srvFrames.simps) (simp add: clientFrame_def)

text \<open>A connection whose writes go through, with randomness for \<^verbatim>\<open>n\<close> more masks.\<close>

definition writable :: "nat \<Rightarrow> wsConn \<Rightarrow> bool" where
  "writable n c \<longleftrightarrow> outRoom (ws_out c) = None \<and> 4 * n \<le> length (ws_rand c)"

definition sentFrame :: "byte \<Rightarrow> bytes \<Rightarrow> wsConn \<Rightarrow> wsConn" where
  "sentFrame op d c =
     c\<lparr>ws_rand := drop 4 (ws_rand c), ws_out := (ws_out c)\<lparr>outBytes := outBytes (ws_out c) @ clientFrame op (take 4 (ws_rand c)) d\<rparr>\<rparr>"

lemma wsWriteFrame_ok:
  assumes "writable (Suc n) c"
  shows "wsWriteFrame op d c = (Inr (), sentFrame op d c)" "writable n (sentFrame op d c)"
  using assms by (auto simp: wsWriteFrame_def writable_def sentFrame_def clientFrame_def Let_def)

text \<open>What a writer gave up: the frames a server reads in the bytes added between two states.\<close>

definition frames_between :: "wsConn \<Rightarrow> wsConn \<Rightarrow> (byte \<times> bytes) list \<Rightarrow> bool" where
  "frames_between c c' fs \<longleftrightarrow>
     (\<exists>w. outBytes (ws_out c') = outBytes (ws_out c) @ w \<and> srvFrames w = Some fs)"

lemma srvLength_append: "srvLength l r = Some (n, q) \<Longrightarrow> srvLength l (r @ v) = Some (n, q @ v)"
  by (auto simp: srvLength_def split: if_splits)

lemma srvFrame_append:
  assumes "srvFrame b = Some (x, r)"
  shows "srvFrame (b @ v) = Some (x, r @ v)"
proof -
  obtain n q where b: "2 \<le> length b" "b ! 0 AND 0x80 \<noteq> 0" "b ! 1 AND 0x80 \<noteq> 0"
    "srvLength (unat (b ! 1 AND 0x7F)) (drop 2 b) = Some (n, q)" "4 + n \<le> length q"
    "x = (b ! 0 AND 0x0F, maskBytes (take 4 q) (take n (drop 4 q)))" "r = drop (4 + n) q"
    using assms by (auto simp: srvFrame_def split: if_splits option.splits)
  have "(b @ v) ! 0 = b ! 0" "(b @ v) ! 1 = b ! 1" "drop 2 (b @ v) = drop 2 b @ v"
    using b(1) by (auto simp: nth_append)
  then show ?thesis using b srvLength_append [OF b(4), of v] by (simp add: srvFrame_def)
qed

lemma srvFrames_append: "srvFrames b = Some xs \<Longrightarrow> srvFrames (b @ v) = map_option ((@) xs) (srvFrames v)"
proof (induction b arbitrary: xs rule: srvFrames.induct)
  case (1 b)
  show ?case
  proof (cases "b = []")
    case True
    then show ?thesis using "1.prems" by (simp add: option.map_ident)
  next
    case False
    then obtain x r ys where "srvFrame b = Some (x, r)" "srvFrames r = Some ys" "xs = x # ys"
      using "1.prems" by (subst (asm) srvFrames.simps) (auto split: option.splits)
    moreover from this have "srvFrames (r @ v) = map_option ((@) ys) (srvFrames v)"
      using "1.IH" False by blast
    ultimately show ?thesis using False
      by (subst srvFrames.simps) (cases "srvFrames v"; simp add: srvFrame_append)
  qed
qed

lemma frames_between_refl [intro]: "outBytes (ws_out c') = outBytes (ws_out c) \<Longrightarrow> frames_between c c' []"
  by (simp add: frames_between_def)

lemma frames_between_trans [trans]:
  assumes "frames_between c c1 fs" "frames_between c1 c2 gs"
  shows "frames_between c c2 (fs @ gs)"
proof -
  obtain w v where "outBytes (ws_out c1) = outBytes (ws_out c) @ w" "srvFrames w = Some fs"
    "outBytes (ws_out c2) = outBytes (ws_out c1) @ v" "srvFrames v = Some gs"
    using assms by (auto simp: frames_between_def)
  then show ?thesis unfolding frames_between_def by (intro exI [of _ "w @ v"]) (simp add: srvFrames_append)
qed

lemma frames_between_sent:
  assumes "writable (Suc n) c" "op < 16" "length d < 2 ^ 32"
  shows "frames_between c (sentFrame op d c) [(op, d)]"
  using assms srvFrames_clientFrame [of op "take 4 (ws_rand c)" d "[]"]
  by (auto simp: frames_between_def sentFrame_def writable_def)

lemma wsWrite_frames:
  assumes "writable n c" "length p \<le> n * maxFrameBytes"
  shows "\<exists>c' ps. wsWrite p c = (length p, None, c') \<and> frames_between c c' (map (Pair opBinary) ps) \<and> concat ps = p
     \<and> (\<forall>d \<in> set ps. d \<noteq> [] \<and> length d \<le> maxFrameBytes)"
  using assms
proof (induction p c arbitrary: n rule: wsWrite.induct)
  case (1 p c)
  show ?case
  proof (cases "p = []")
    case True
    then show ?thesis by (intro exI [of _ c] exI [of _ "[]"]) (auto simp: wsWrite.simps)
  next
    case False
    then obtain m where n: "n = Suc m" using "1.prems"(2) by (cases n) auto
    let ?d = "take maxFrameBytes p" and ?p = "drop maxFrameBytes p"
    let ?c = "sentFrame opBinary ?d c"
    note w = wsWriteFrame_ok [OF "1.prems"(1) [unfolded n], of opBinary ?d]
    have l: "length ?p \<le> m * maxFrameBytes" using "1.prems"(2) n by simp
    obtain c' ps where *: "wsWrite ?p ?c = (length ?p, None, c')" "frames_between ?c c' (map (Pair opBinary) ps)"
      "concat ps = ?p" "\<forall>d \<in> set ps. d \<noteq> [] \<and> length d \<le> maxFrameBytes"
      using "1.IH" [OF False w(1) [symmetric] refl w(2) l] by blast
    have "frames_between c ?c [(opBinary, ?d)]"
      using frames_between_sent [OF "1.prems"(1) [unfolded n]] by (simp add: opBinary_def maxFrameBytes_def)
    from frames_between_trans [OF this *(2)]
    have "frames_between c c' (map (Pair opBinary) (?d # ps))" by simp
    moreover have "wsWrite p c = (length p, None, c')"
      using False w(1) *(1) by (subst wsWrite.simps) simp
    moreover have "?d \<noteq> []" using False by (simp add: maxFrameBytes_def)
    ultimately show ?thesis using * by (intro exI [of _ c'] exI [of _ "?d # ps"]) simp
  qed
qed

section \<open>Reading what a server sends\<close>

definition wireLength :: "nat \<Rightarrow> bytes" where
  "wireLength n = (if n < 126 then [of_nat n] else if n \<le> 0xFFFF then 126 # be 2 n else 127 # be 8 n)"

definition serverFrame :: "bool \<Rightarrow> byte \<Rightarrow> bytes \<Rightarrow> bytes" where
  "serverFrame fin op d = [if fin then 0x80 OR op else op] @ wireLength (length d) @ d"

definition inputOf :: "wsConn \<Rightarrow> bytes" where "inputOf c = inBytes (ws_in c)"

definition withInput :: "bytes \<Rightarrow> wsConn \<Rightarrow> wsConn" where
  "withInput r c = c\<lparr>ws_in := (ws_in c)\<lparr>inBytes := r\<rparr>\<rparr>"

lemma withInput_simps [simp]:
  "inputOf (withInput r c) = r" "withInput r (withInput q c) = withInput r c"
  "ws_out (withInput r c) = ws_out c" "ws_rand (withInput r c) = ws_rand c"
  "ws_pending (withInput r c) = ws_pending c" "ws_control (withInput r c) = ws_control c"
  "writable n (withInput r c) = writable n c"
  by (simp_all add: inputOf_def withInput_def writable_def)

lemma wsFull_take: "inputOf c = b @ r \<Longrightarrow> length b = k \<Longrightarrow> wsFull k c = (Inr b, withInput r c)"
  by (auto simp: wsFull_def inputOf_def withInput_def)

lemma wsReadLength_ok:
  assumes "n \<le> maxFrameBytes" "inputOf c = t @ r" "wireLength n = h # t"
  shows "wsReadLength (unat (h AND 0x7F)) c = (Inr (int n), withInput r c)" "h AND 0x80 = 0"
proof -
  have n: "n < 2 ^ 32" using assms(1) by (simp add: maxFrameBytes_def)
  consider (a) "n < 126" | (b) "126 \<le> n" "n \<le> 0xFFFF" | (c) "n > 0xFFFF" by linarith
  then have "wsReadLength (unat (h AND 0x7F)) c = (Inr (int n), withInput r c) \<and> h AND 0x80 = 0"
  proof cases
    case a
    moreover from a have "h = of_nat n" "t = []" using assms(3) by (simp_all add: wireLength_def)
    ultimately show ?thesis using len_small' [of n] assms(2)
      by (simp add: wsReadLength_def retS_def withInput_def inputOf_def)
  next
    case b
    then have t: "t = be 2 n" "h = 126" using assms(3) by (simp_all add: wireLength_def)
    have "wsFull 2 c = (Inr t, withInput r c)" using wsFull_take [OF assms(2)] t by simp
    then show ?thesis using b t by (simp add: wsReadLength_def run_simps unbe_be)
  next
    case c
    then have t: "t = be 8 n" "h = 127" using assms(3) by (simp_all add: wireLength_def)
    have f: "wsFull 8 c = (Inr t, withInput r c)" using wsFull_take [OF assms(2)] t by simp
    have "int64Of t = int n" using t n by (simp add: int64Of_def unbe_be)
    then show ?thesis using c t f by (simp add: wsReadLength_def run_simps)
  qed
  then show "wsReadLength (unat (h AND 0x7F)) c = (Inr (int n), withInput r c)" "h AND 0x80 = 0" by simp_all
qed

lemma wireLength_Cons: obtains h t where "wireLength n = h # t"
  by (cases "n < 126"; cases "n \<le> 0xFFFF") (simp_all add: wireLength_def)

lemma wsFrameIn_serverFrame:
  assumes "op < 16" "length d \<le> maxFrameBytes" "inputOf c = serverFrame fin op d @ r"
  shows "wsFrameIn c = (Inr (fin, op, d), withInput r c)"
proof -
  obtain h t where ht: "wireLength (length d) = h # t" by (rule wireLength_Cons)
  let ?b = "if fin then 0x80 OR op else op"
  have 1: "wsFull 2 c = (Inr [?b, h], withInput (t @ d @ r) c)"
    using assms(3) ht by (intro wsFull_take) (simp_all add: serverFrame_def)
  have 2: "wsReadLength (unat (h AND 0x7F)) (withInput (t @ d @ r) c) = (Inr (int (length d)), withInput (d @ r) c)" "h AND 0x80 = 0"
    using wsReadLength_ok [OF assms(2) _ ht, of "withInput (t @ d @ r) c" "d @ r"] by simp_all
  have 3: "wsFull (length d) (withInput (d @ r) c) = (Inr d, withInput r c)"
    using wsFull_take [of "withInput (d @ r) c" d r] by simp
  have b: "?b AND 0x0F = op" "(?b AND 0x80 \<noteq> 0) = fin" using op_nibble [OF assms(1)] by simp_all
  show ?thesis unfolding wsFrameIn_def using 1 2 3 b assms(2)
    by (simp add: run_simps Let_def)
qed

text \<open>Pings and pongs (\<^verbatim>\<open>True\<close>: a ping) a server may put in front of any fragment of a message.\<close>

type_synonym noise = "(bool \<times> bytes) list"

definition controlFrames :: "noise \<Rightarrow> bytes" where
  "controlFrames cs = concat (map (\<lambda>(ping, d). serverFrame True (if ping then opPing else opPong) d) cs)"

definition pingsOf :: "noise \<Rightarrow> bytes list" where "pingsOf cs = map snd (filter fst cs)"

fun serverMessage :: "byte \<Rightarrow> (noise \<times> bytes) list \<Rightarrow> bytes" where
  "serverMessage op [] = []"
| "serverMessage op ((cs, d) # fs) = controlFrames cs @ serverFrame (fs = []) op d @ serverMessage opContinuation fs"

text \<open>How a connection moves while frames are read: pings answered, the rest of its state as it was.\<close>

definition answered :: "wsConn \<Rightarrow> bytes list \<Rightarrow> wsConn \<Rightarrow> bool" where
  "answered c ps c' \<longleftrightarrow> frames_between c c' (map (Pair opPong) ps)
     \<and> ws_pending c' = ws_pending c \<and> ws_control c' = ws_control c \<and> ws_closed c' = ws_closed c"

lemma answered_trans: "answered c ps c1 \<Longrightarrow> answered c1 qs c2 \<Longrightarrow> answered c (ps @ qs) c2"
  using frames_between_trans by (fastforce simp: answered_def)

lemma answered_input [simp]: "answered c [] (withInput r c)"
  by (auto simp: answered_def withInput_def)

lemma answered_sent:
  assumes "writable (Suc n) c" "length d < 2 ^ 32"
  shows "answered c [d] (sentFrame opPong d c)"
  using frames_between_sent [OF assms(1) _ assms(2), of opPong]
  by (simp add: answered_def sentFrame_def opPong_def)

lemma wsReadLoop_noise:
  assumes "inputOf c = controlFrames cs @ r" "\<forall>x \<in> set cs. length (snd x) \<le> maxFrameBytes"
    "writable (length (pingsOf cs) + n) c"
  shows "\<exists>c'. wsReadLoop f a g c = wsReadLoop f a g c' \<and> inputOf c' = r \<and> answered c (pingsOf cs) c' \<and> writable n c'"
  using assms
proof (induction cs arbitrary: c)
  case Nil
  then show ?case by (intro exI [of _ c]) (auto simp: controlFrames_def pingsOf_def answered_def)
next
  case (Cons x cs)
  obtain ping d where x: "x = (ping, d)" by (cases x)
  let ?op = "if ping then opPing else opPong"
  let ?c = "withInput (controlFrames cs @ r) c"
  have d: "length d \<le> maxFrameBytes" using Cons.prems(2) x by simp
  have fr: "wsFrameIn c = (Inr (True, ?op, d), ?c)"
    using Cons.prems(1) x d by (intro wsFrameIn_serverFrame) (simp_all add: controlFrames_def op_defs)
  show ?case
  proof (cases ping)
    case True
    have w: "writable (Suc (length (pingsOf cs) + n)) ?c" using Cons.prems(3) x True by (simp add: pingsOf_def)
    note s = wsWriteFrame_ok [OF w, of opPong d]
    have "inputOf (sentFrame opPong d ?c) = controlFrames cs @ r" by (simp add: sentFrame_def inputOf_def withInput_def)
    from Cons.IH [OF this _ s(2)] Cons.prems(2) obtain c'
      where c': "wsReadLoop f a g (sentFrame opPong d ?c) = wsReadLoop f a g c'" "inputOf c' = r"
        "answered (sentFrame opPong d ?c) (pingsOf cs) c'" "writable n c'" by auto
    have d32: "length d < 2 ^ 32" using d by (simp add: maxFrameBytes_def)
    have "answered c [d] (sentFrame opPong d ?c)"
      using answered_trans [OF answered_input answered_sent [OF w d32]] by simp
    from answered_trans [OF this c'(3)] have "answered c (pingsOf (x # cs)) c'" using x True by (simp add: pingsOf_def)
    moreover have "wsReadLoop f a g c = wsReadLoop f a g c'"
      using fr True s(1) c'(1) by (subst wsReadLoop.simps) simp
    ultimately show ?thesis using c' by blast
  next
    case False
    then have w: "writable (length (pingsOf cs) + n) ?c" using Cons.prems(3) x by (simp add: pingsOf_def)
    from Cons.IH [OF _ _ w] Cons.prems(2) obtain c'
      where c': "wsReadLoop f a g ?c = wsReadLoop f a g c'" "inputOf c' = r"
        "answered ?c (pingsOf cs) c'" "writable n c'" by auto
    from answered_trans [OF answered_input c'(3)] have "answered c (pingsOf (x # cs)) c'"
      using x False by (simp add: pingsOf_def)
    moreover have "wsReadLoop f a g c = wsReadLoop f a g c'"
      using fr False c'(1) by (subst wsReadLoop.simps) (simp add: op_defs)
    ultimately show ?thesis using c' by blast
  qed
qed

definition dataOpcode :: "byte \<Rightarrow> bool" where
  "dataOpcode op \<longleftrightarrow> op < 16 \<and> op \<noteq> opContinuation \<and> op \<noteq> opClose \<and> op \<noteq> opPing \<and> op \<noteq> opPong"

definition messagePings :: "(noise \<times> bytes) list \<Rightarrow> bytes list" where
  "messagePings fs = concat (map (\<lambda>(cs, d). pingsOf cs) fs)"

definition messageText :: "(noise \<times> bytes) list \<Rightarrow> bytes" where
  "messageText fs = concat (map snd fs)"

definition noiseFits :: "(noise \<times> bytes) list \<Rightarrow> bool" where
  "noiseFits fs \<longleftrightarrow> (\<forall>(cs, d) \<in> set fs. \<forall>x \<in> set cs. length (snd x) \<le> maxFrameBytes)"

lemma wsReadLoop_message:
  assumes "fs \<noteq> []" "inputOf c = serverMessage op fs @ r" "noiseFits fs"
    "length a + length (messageText fs) \<le> maxFrameBytes" "writable (length (messagePings fs) + n) c"
    "if g then op = opContinuation else dataOpcode op"
  shows "\<exists>c'. wsReadLoop f a g c = (Inr (if g then f else op, a @ messageText fs), c') \<and> inputOf c' = r
     \<and> answered c (messagePings fs) c' \<and> writable n c'"
  using assms
proof (induction fs arbitrary: op f a g c)
  case Nil
  then show ?case by simp
next
  case (Cons x fs)
  obtain cs d where x: "x = (cs, d)" by (cases x)
  let ?r = "serverMessage opContinuation fs @ r"
  have i: "inputOf c = controlFrames cs @ serverFrame (fs = []) op d @ ?r" using Cons.prems(2) x by simp
  have "\<forall>y \<in> set cs. length (snd y) \<le> maxFrameBytes" using Cons.prems(3) x by (auto simp: noiseFits_def)
  moreover have "writable (length (pingsOf cs) + (length (messagePings fs) + n)) c"
    using Cons.prems(5) x by (simp add: messagePings_def add.assoc)
  ultimately obtain c1 where c1: "wsReadLoop f a g c = wsReadLoop f a g c1" "inputOf c1 = serverFrame (fs = []) op d @ ?r"
    "answered c (pingsOf cs) c1" "writable (length (messagePings fs) + n) c1"
    using wsReadLoop_noise [OF i] by blast
  let ?c = "withInput ?r c1"
  have op: "op < 16" "op \<noteq> opPing" "op \<noteq> opPong" "op \<noteq> opClose" "op = opContinuation \<longleftrightarrow> g"
    using Cons.prems(6) by (auto simp: dataOpcode_def op_defs split: if_splits)
  have l: "length d \<le> maxFrameBytes" "length (a @ d) \<le> maxFrameBytes" "length (a @ d) + length (messageText fs) \<le> maxFrameBytes"
    using Cons.prems(4) x by (simp_all add: messageText_def)
  let ?f = "if g then f else op"
  note fr = wsFrameIn_serverFrame [OF op(1) l(1) c1(2)]
  have step: "wsReadLoop f a g c1 = (if fs = [] then (Inr (?f, a @ d), ?c) else wsReadLoop ?f (a @ d) True ?c)"
    using fr op l(2) by (subst wsReadLoop.simps) (auto simp: Let_def)
  have ans: "answered c (pingsOf cs) ?c" using answered_trans [OF c1(3) answered_input] by simp
  show ?case
  proof (cases "fs = []")
    case True
    then show ?thesis using step c1(1,4) ans x by (intro exI [of _ ?c]) (simp add: messageText_def messagePings_def)
  next
    case False
    have "\<exists>c'. wsReadLoop ?f (a @ d) True ?c = (Inr (if True then ?f else opContinuation, (a @ d) @ messageText fs), c') \<and> inputOf c' = r
       \<and> answered ?c (messagePings fs) c' \<and> writable n c'"
      using Cons.prems(3) l(3) c1(4) by (intro Cons.IH [OF False]) (auto simp: noiseFits_def)
    then obtain c' where c': "wsReadLoop ?f (a @ d) True ?c = (Inr (?f, (a @ d) @ messageText fs), c')" "inputOf c' = r"
       "answered ?c (messagePings fs) c'" "writable n c'" by auto
    from answered_trans [OF ans c'(3)] have "answered c (messagePings (x # fs)) c'" using x by (simp add: messagePings_def)
    moreover have "wsReadLoop f a g c = (Inr (?f, a @ messageText (x # fs)), c')"
      using step False c1(1) c'(1) x by (simp add: messageText_def)
    ultimately show ?thesis using c' by blast
  qed
qed

section \<open>What crosses the connection\<close>

text \<open>Whatever a program writes to a relayed connection that accepts its bytes is reported as written in
full and reaches the server as masked binary frames which, unmasked, are non-empty pieces of at most 64 KB
that concatenate to exactly the data written.\<close>

theorem ws_write_delivers:
  assumes "writable n c" "length p \<le> n * maxFrameBytes"
  shows "\<exists>c' ps. wsWrite p c = (length p, None, c') \<and> frames_between c c' (map (Pair opBinary) ps) \<and> concat ps = p
     \<and> (\<forall>d \<in> set ps. d \<noteq> [] \<and> length d \<le> maxFrameBytes)"
  by (rule wsWrite_frames [OF assms])

definition sampleConn :: "bytes \<Rightarrow> wsConn" where
  "sampleConn i = \<lparr>ws_in = \<lparr>inBytes = i, inEnd = EOF\<rparr>, ws_out = \<lparr>outBytes = [], outRoom = None\<rparr>,
     ws_rand = [1, 2, 3, 4, 5, 6, 7, 8], ws_pending = [], ws_control = [], ws_closed = False\<rparr>"

theorem ws_write_delivers_witness:
  "\<exists>c' ps. wsWrite [10, 20, 30] (sampleConn []) = (length [10 :: byte, 20, 30], None, c') \<and> frames_between (sampleConn []) c' (map (Pair opBinary) ps)
     \<and> concat ps = [10, 20, 30] \<and> (\<forall>d \<in> set ps. d \<noteq> [] \<and> length d \<le> maxFrameBytes)"
proof -
  have "writable 1 (sampleConn [])" by (simp add: writable_def sampleConn_def)
  moreover have "length [10 :: byte, 20, 30] \<le> 1 * maxFrameBytes" by (simp add: maxFrameBytes_def)
  ultimately show ?thesis by (rule ws_write_delivers)
qed

text \<open>A message the server sends in any number of fragments, with pings and pongs in between, is
assembled by the frame reader into the concatenation of its fragments under the opcode of the first one, as
long as it is at most 64 KB: every ping has been answered by a pong with its data, in order, nothing else of
the connection has changed and exactly the bytes behind the message are left. The opcode may be any of the
non-control ones, reserved ones included.\<close>

theorem ws_reads_message:
  assumes "fs \<noteq> []" "inputOf c = serverMessage op fs @ r" "noiseFits fs" "dataOpcode op"
    "length (messageText fs) \<le> maxFrameBytes" "writable (length (messagePings fs)) c"
  shows "\<exists>c'. wsReadFrame c = (Inr (op, messageText fs), c') \<and> inputOf c' = r \<and> answered c (messagePings fs) c'"
  using wsReadLoop_message [OF assms(1-3), of "[]" 0 False] assms(4-6) by (auto simp: wsReadFrame_def)

definition sampleFragments :: "(noise \<times> bytes) list" where
  "sampleFragments = [([], [1, 2]), ([(True, [9]), (False, [])], [3])]"

theorem ws_reads_message_witness:
  "\<exists>c'. wsReadFrame (sampleConn (serverMessage 3 sampleFragments @ [77])) = (Inr (3, [1, 2, 3]), c') \<and> inputOf c' = [77]
     \<and> answered (sampleConn (serverMessage 3 sampleFragments @ [77])) [[9]] c'"
proof -
  have *: "messageText sampleFragments = [1, 2, 3]" "messagePings sampleFragments = [[9]]"
    by (simp_all add: sampleFragments_def messageText_def messagePings_def pingsOf_def)
  have "noiseFits sampleFragments" by (simp add: noiseFits_def sampleFragments_def maxFrameBytes_def)
  moreover have "dataOpcode 3" by (simp add: dataOpcode_def op_defs)
  ultimately show ?thesis
    using ws_reads_message [of sampleFragments "sampleConn (serverMessage 3 sampleFragments @ [77])" 3 "[77]"] *
    by (simp add: writable_def sampleConn_def inputOf_def maxFrameBytes_def sampleFragments_def)
qed

end
