(* ===== verification/Relay.thy ===== *)
theory Relay
  imports WebSocketRun Identity
begin

text \<open>
  \<^verbatim>\<open>internal/relay/relay.go\<close>: naming a session on the relay, proving who asks for it, and waiting for the
  other side. The decoder of control messages is \<^verbatim>\<open>encoding/json\<close>'s and a parameter, as is the clock: the
  times \<^verbatim>\<open>time.Now\<close> returns, one per turn of the waiting loop.
\<close>

section \<open>Where and as whom\<close>

definition DefaultBaseURL :: string where
  "DefaultBaseURL = ''https://cmd-chat-relay.cmd-chat.workers.dev''"

definition signingPrefix :: string where "signingPrefix = ''cmd-chat-relay/v1''"

definition pairTimeout :: int where "pairTimeout = 20000"

datatype relayErr =
    ErrNoHost
  | ErrSessionBusy
  | ErrWaitTimeout
  | RelayRefused string string
  | RelayWs wsErr

definition baseURL :: "string \<Rightarrow> string" where
  "baseURL env = (let v = trimSpace env in if v \<noteq> '''' then v else DefaultBaseURL)"

definition trimSlashes :: "string \<Rightarrow> string" where
  "trimSlashes s = rev (dropWhile (\<lambda>c. c = CHR ''/'') (rev s))"

definition websocketURL :: "string \<Rightarrow> string \<Rightarrow> string" where
  "websocketURL base session =
     (let t = trimSlashes base;
          t' = (if hasPrefix t ''https://'' then ''wss://'' @ drop 8 t
                else if hasPrefix t ''http://'' then ''ws://'' @ drop 7 t else t)
      in t' @ ''/relay/'' @ session)"

text \<open>\<^verbatim>\<open>strings.Join\<close> of the five fields with line breaks.\<close>

definition nl :: char where "nl = CHR 0x0A"

definition authMessage :: "string \<Rightarrow> string \<Rightarrow> string \<Rightarrow> int \<Rightarrow> string" where
  "authMessage role session ident issuedAt =
     signingPrefix @ [nl] @ role @ [nl] @ session @ [nl] @ ident @ [nl] @ decimalInt issuedAt"

text \<open>The header map, under the canonical names \<^verbatim>\<open>Header.Set\<close> stores.\<close>

definition authHeaders :: "crypto \<Rightarrow> identity \<Rightarrow> string \<Rightarrow> string \<Rightarrow> int \<Rightarrow> (string \<times> string) list" where
  "authHeaders C ident role session issuedAt =
     [(''X-Cmdchat-Role'', role), (''X-Cmdchat-Id'', idn_ID ident),
      (''X-Cmdchat-Publickey'', base64Encode (idn_PublicKey ident)),
      (''X-Cmdchat-Issuedat'', decimalInt issuedAt),
      (''X-Cmdchat-Signature'', base64Encode (sign C ident (toBytes (authMessage role session (idn_ID ident) issuedAt))))]"

definition translateDialError :: "wsErr \<Rightarrow> relayErr" where
  "translateDialError e =
     (case e of
        WsHTTPError status body \<Rightarrow>
          (if containsStr body (CHR 0x22 # ''no_host'' @ [CHR 0x22]) then ErrNoHost
           else if containsStr body (CHR 0x22 # ''session_busy'' @ [CHR 0x22]) then ErrSessionBusy
           else RelayWs e)
      | _ \<Rightarrow> RelayWs e)"

section \<open>Waiting for the peer\<close>

record control =
  ct_Type :: string
  ct_Peer :: string
  ct_Code :: string
  ct_Message :: string

text \<open>\<^verbatim>\<open>nextControl\<close> consumes a queued message or bytes of the stream, so the loop ends.\<close>

lemma wsFull_queue: "ws_control (snd (wsFull k c)) = ws_control c"
  by (simp add: wsFull_def split: prod.splits)

lemma wsFrameIn_queue:
  assumes "wsFrameIn c = (r, c1)"
  shows "ws_control c1 = ws_control c"
proof -
  have f: "wsFull k d = (x, d') \<Longrightarrow> ws_control d' = ws_control d" for k d x d'
    using wsFull_queue [of k d] by simp
  then have l: "wsReadLength n d = (x, d') \<Longrightarrow> ws_control d' = ws_control d" for n d x d'
    by (auto simp: wsReadLength_def run_simps split: if_splits prod.splits sum.splits)
  show ?thesis using assms
    by (auto simp: wsFrameIn_def run_simps Let_def split: prod.splits sum.splits if_splits dest!: f l)
qed

lemma wsWriteFrame_queue: "wsWriteFrame op d c = (r, c') \<Longrightarrow> ws_control c' = ws_control c"
  by (auto simp: wsWriteFrame_def Let_def split: if_splits prod.splits)

lemma wsReadLoop_queue: "wsReadLoop f a g c = (Inr m, c') \<Longrightarrow> ws_control c' = ws_control c"
proof (induction f a g c rule: wsReadLoop.induct)
  case (1 f a g c)
  obtain r c1 where r: "wsFrameIn c = (r, c1)" by (metis surj_pair)
  show ?case
  proof (cases r)
    case (Inl e)
    then show ?thesis using "1.prems" r by (simp add: wsReadLoop.simps [of f a g c])
  next
    case (Inr x)
    obtain fin opcode d where x: "x = (fin, opcode, d)" by (cases x)
    note r' = r [unfolded Inr x]
    obtain y c2 where w: "wsWriteFrame opPong d c1 = (y, c2)" by (metis surj_pair)
    note e = "1.prems" [unfolded wsReadLoop.simps [of f a g c] r' prod.case sum.case]
    note q = wsFrameIn_queue [OF r'] wsWriteFrame_queue [OF w]
    note ih = "1.IH" [OF r' [symmetric] refl refl refl]
    consider "opcode = opPing" | "opcode \<noteq> opPing" "opcode = opPong" | "opcode \<noteq> opPing" "opcode \<noteq> opPong" by blast
    then show ?thesis
    proof cases
      case 1
      then obtain u where y: "y = Inr u" and *: "wsReadLoop f a g c2 = (Inr m, c')" using e w by (cases y) simp_all
      show ?thesis using ih(1) [OF 1 w [symmetric] y *] q by simp
    next
      case 2
      then have "wsReadLoop f a g c1 = (Inr m, c')" using e by simp
      then show ?thesis using ih(2) [OF 2] q by simp
    next
      case 3
      then show ?thesis using e ih(3) [OF 3] q by (auto simp: Let_def split: if_splits)
    qed
  qed
qed

lemma wsControlLoop_shorter:
  "wsControlLoop c = (Inr m, c') \<Longrightarrow> length (inBytes (ws_in c')) < length (inBytes (ws_in c)) \<and> ws_control c' = ws_control c"
proof (induction c rule: wsControlLoop.induct)
  case (1 c)
  obtain x c1 where r: "wsReadFrame c = (x, c1)" by (metis surj_pair)
  from "1.prems" r obtain op p where x: "x = Inr (op, p)"
    by (cases x) (auto simp: wsControlLoop.simps [of c])
  have l: "length (inBytes (ws_in c1)) < length (inBytes (ws_in c))" "ws_control c1 = ws_control c"
    using r x wsReadLoop_shorter [of 0 "[]" False c "(op, p)" c1] wsReadLoop_queue [of 0 "[]" False c "(op, p)" c1]
    by (simp_all add: wsReadFrame_def)
  show ?case
  proof (cases "op = opText")
    case True
    then show ?thesis using "1.prems" r x l by (simp add: wsControlLoop.simps [of c])
  next
    case False
    then have *: "wsControlLoop (c1\<lparr>ws_pending := ws_pending c1 @ p\<rparr>) = (Inr m, c')"
      using "1.prems" r x by (simp add: wsControlLoop.simps [of c])
    show ?thesis using "1.IH" [OF r [symmetric] x refl False *] l by simp
  qed
qed

definition waitingFor :: "wsConn \<Rightarrow> nat" where
  "waitingFor c = length (ws_control c) + length (inBytes (ws_in c))"

lemma nextControl_shorter: "nextControl c = (Inr m, c') \<Longrightarrow> waitingFor c' < waitingFor c"
  using wsControlLoop_shorter [of c m c'] by (auto simp: nextControl_def waitingFor_def split: list.splits)

function awaitPeerLoop ::
  "(bytes \<Rightarrow> control option) \<Rightarrow> (nat \<Rightarrow> int) \<Rightarrow> int \<Rightarrow> nat \<Rightarrow> (wsConn, relayErr, string) prog" where
  "awaitPeerLoop decode now deadline i c =
     (if deadline - now i \<le> 0 then (Inl ErrWaitTimeout, c)
      else case nextControl c of
        (Inl e, c1) \<Rightarrow> (Inl (if e = WsIO Timeout then ErrWaitTimeout else RelayWs e), c1)
      | (Inr raw, c1) \<Rightarrow>
          (case decode raw of
             None \<Rightarrow> awaitPeerLoop decode now deadline (Suc i) c1
           | Some msg \<Rightarrow>
               (if ct_Type msg = ''paired'' then (Inr (ct_Peer msg), c1)
                else if ct_Type msg = ''error'' then (Inl (RelayRefused (ct_Message msg) (ct_Code msg)), c1)
                else awaitPeerLoop decode now deadline (Suc i) c1)))"
  by pat_completeness auto
termination
proof (relation "measure (\<lambda>(d, n, l, i, c). waitingFor c)", goal_cases)
  case 1
  show ?case by simp
next
  case (2 d n l i c x c1 raw)
  then show ?case using nextControl_shorter [of c raw c1] by simp
next
  case (3 d n l i c x c1 raw msg)
  then show ?case using nextControl_shorter [of c raw c1] by simp
qed

declare awaitPeerLoop.simps [simp del]

text \<open>The clock's reading \<^verbatim>\<open>now 0\<close> sets the deadline; the loop's turns read it from \<^verbatim>\<open>now 1\<close> on.\<close>

definition awaitPeer :: "(bytes \<Rightarrow> control option) \<Rightarrow> (nat \<Rightarrow> int) \<Rightarrow> int \<Rightarrow> (wsConn, relayErr, string) prog" where
  "awaitPeer decode now wait = awaitPeerLoop decode now (now 0 + wait) 1"

section \<open>Sessions\<close>

record relaySession =
  rs_Conn :: wsConn
  rs_PeerID :: string

text \<open>The second component is a connection that was opened and closed again on the way to an error.\<close>

definition relayOpen ::
  "wsLibrary \<Rightarrow> (bytes \<Rightarrow> control option) \<Rightarrow> (nat \<Rightarrow> int) \<Rightarrow> int \<Rightarrow> string \<Rightarrow> (string \<times> string) list
     \<Rightarrow> (relayErr + relaySession) \<times> wsConn option" where
  "relayOpen L decode now wait url headers =
     (case dialWebSocket L url headers of
        Inl e \<Rightarrow> (Inl (translateDialError e), None)
      | Inr conn \<Rightarrow>
          (case awaitPeer decode now wait conn of
             (Inl e, conn') \<Rightarrow> (Inl e, Some (wsClose conn'))
           | (Inr peer, conn') \<Rightarrow> (Inr \<lparr>rs_Conn = conn', rs_PeerID = peer\<rparr>, None)))"

definition relayListen ::
  "crypto \<Rightarrow> wsLibrary \<Rightarrow> (bytes \<Rightarrow> control option) \<Rightarrow> int \<Rightarrow> (nat \<Rightarrow> int) \<Rightarrow> string \<Rightarrow> identity \<Rightarrow> int
     \<Rightarrow> (relayErr + relaySession) \<times> wsConn option" where
  "relayListen C L decode issuedAt now base ident wait =
     relayOpen L decode now wait (websocketURL base (idn_ID ident)) (authHeaders C ident ''host'' (idn_ID ident) issuedAt)"

definition relayDial ::
  "crypto \<Rightarrow> wsLibrary \<Rightarrow> (bytes \<Rightarrow> control option) \<Rightarrow> int \<Rightarrow> (nat \<Rightarrow> int) \<Rightarrow> string \<Rightarrow> string \<Rightarrow> identity
     \<Rightarrow> (relayErr + relaySession) \<times> wsConn option" where
  "relayDial C L decode issuedAt now base host ident =
     relayOpen L decode now pairTimeout (websocketURL base host) (authHeaders C ident ''guest'' host issuedAt)"

definition relaySessionClose :: "relaySession \<Rightarrow> relaySession" where
  "relaySessionClose s = s\<lparr>rs_Conn := wsClose (rs_Conn s)\<rparr>"

section \<open>What the relay may send before and at the pairing\<close>

type_synonym relayItem = "byte \<times> (noise \<times> bytes) list"

definition itemOk :: "relayItem \<Rightarrow> bool" where
  "itemOk x \<longleftrightarrow> dataOpcode (fst x) \<and> snd x \<noteq> [] \<and> noiseFits (snd x) \<and> length (messageText (snd x)) \<le> maxFrameBytes"

definition itemsBytes :: "relayItem list \<Rightarrow> bytes" where
  "itemsBytes xs = concat (map (\<lambda>(op, fs). serverMessage op fs) xs)"

definition itemsPings :: "relayItem list \<Rightarrow> nat" where
  "itemsPings xs = sum_list (map (\<lambda>(op, fs). length (messagePings fs)) xs)"

definition earlyData :: "relayItem list \<Rightarrow> bytes" where
  "earlyData xs = concat (map (\<lambda>(op, fs). if op = opText then [] else messageText fs) xs)"

definition isText :: "relayItem \<Rightarrow> bool" where "isText x \<longleftrightarrow> fst x = opText"

definition passedOver :: "(bytes \<Rightarrow> control option) \<Rightarrow> bytes \<Rightarrow> bool" where
  "passedOver decode raw \<longleftrightarrow> (case decode raw of None \<Rightarrow> True | Some m \<Rightarrow> ct_Type m \<notin> {''paired'', ''error''})"

lemma wsReadFrame_item:
  assumes "itemOk (op, fs)" "inputOf c = serverMessage op fs @ r" "writable (length (messagePings fs) + n) c"
  shows "\<exists>c'. wsReadFrame c = (Inr (op, messageText fs), c') \<and> inputOf c' = r
     \<and> ws_pending c' = ws_pending c \<and> ws_control c' = ws_control c \<and> writable n c'"
  using wsReadLoop_message [of fs c op r "[]" n False 0] assms
  by (auto simp: wsReadFrame_def itemOk_def answered_def)

lemma awaitPeerLoop_stream:
  assumes "\<forall>x \<in> set xs. itemOk x" "itemOk (opText, fs)"
    "inputOf c = itemsBytes xs @ serverMessage opText fs @ r"
    "writable (itemsPings xs + length (messagePings fs)) c" "ws_control c = []"
    "\<forall>x \<in> set xs. isText x \<longrightarrow> passedOver decode (messageText (snd x))"
    "decode (messageText fs) = Some m" "ct_Type m = ''paired''" "\<And>k. now k < deadline"
  shows "\<exists>c'. awaitPeerLoop decode now deadline i c = (Inr (ct_Peer m), c') \<and> inputOf c' = r
     \<and> ws_pending c' = ws_pending c @ earlyData xs"
  using assms
proof (induction xs arbitrary: c i)
  case Nil
  obtain c' where c': "wsReadFrame c = (Inr (opText, messageText fs), c')" "inputOf c' = r" "ws_pending c' = ws_pending c"
    using wsReadFrame_item [OF Nil.prems(2), of c r 0] Nil.prems by (auto simp: itemsBytes_def itemsPings_def)
  then have "nextControl c = (Inr (messageText fs), c')"
    using Nil.prems(5) by (simp add: nextControl_def wsControlLoop.simps [of c])
  then show ?case using Nil.prems(7-9) c'
    by (intro exI [of _ c']) (simp add: awaitPeerLoop.simps [of decode now deadline i c] earlyData_def not_le)
next
  case (Cons x xs)
  obtain op gs where x: "x = (op, gs)" by (cases x)
  let ?r = "itemsBytes xs @ serverMessage opText fs @ r"
  let ?n = "itemsPings xs + length (messagePings fs)"
  have "itemOk (op, gs)" "inputOf c = serverMessage op gs @ ?r" "writable (length (messagePings gs) + ?n) c"
    using Cons.prems(1,3,4) x by (simp_all add: itemsBytes_def itemsPings_def add.assoc)
  from wsReadFrame_item [OF this] obtain c1 where c1: "wsReadFrame c = (Inr (op, messageText gs), c1)" "inputOf c1 = ?r"
    "ws_pending c1 = ws_pending c" "ws_control c1 = []" "writable ?n c1" using Cons.prems(5) by auto
  show ?case
  proof (cases "op = opText")
    case True
    then have "nextControl c = (Inr (messageText gs), c1)"
      using Cons.prems(5) c1 by (simp add: nextControl_def wsControlLoop.simps [of c])
    moreover have "passedOver decode (messageText gs)" using Cons.prems(6) x True by (simp add: isText_def)
    ultimately have "awaitPeerLoop decode now deadline i c = awaitPeerLoop decode now deadline (Suc i) c1"
      using Cons.prems(9) [of i]
      by (subst awaitPeerLoop.simps) (auto simp: passedOver_def not_le split: option.splits)
    moreover obtain c' where "awaitPeerLoop decode now deadline (Suc i) c1 = (Inr (ct_Peer m), c')" "inputOf c' = r"
      "ws_pending c' = ws_pending c1 @ earlyData xs"
      using Cons.IH [of c1 "Suc i"] Cons.prems c1 by auto
    ultimately show ?thesis using True x c1(3) by (simp add: earlyData_def)
  next
    case False
    let ?c = "c1\<lparr>ws_pending := ws_pending c1 @ messageText gs\<rparr>"
    have "nextControl c = nextControl ?c"
      using Cons.prems(5) c1 False by (simp add: nextControl_def wsControlLoop.simps [of c])
    then have "awaitPeerLoop decode now deadline i c = awaitPeerLoop decode now deadline i ?c"
      using Cons.prems(9) [of i] by (simp add: awaitPeerLoop.simps [of _ _ _ i] not_le)
    moreover have "writable ?n ?c" "inputOf ?c = ?r" "ws_control ?c = []"
      using c1 by (simp_all add: writable_def inputOf_def)
    then obtain c' where "awaitPeerLoop decode now deadline i ?c = (Inr (ct_Peer m), c')" "inputOf c' = r"
      "ws_pending c' = ws_pending ?c @ earlyData xs"
      using Cons.IH [of ?c i] Cons.prems by auto
    ultimately show ?thesis using False x c1(3) by (simp add: earlyData_def)
  qed
qed

section \<open>What a signature is good for\<close>

fun decimalVal :: "nat \<Rightarrow> string \<Rightarrow> nat" where
  "decimalVal a [] = a"
| "decimalVal a (c # s) = decimalVal (10 * a + (of_char c - 48)) s"

lemma decimalVal_append: "decimalVal a (s @ t) = decimalVal (decimalVal a s) t"
  by (induction s arbitrary: a) simp_all

lemma decimalVal_decimalNat: "decimalVal 0 (decimalNat n) = n"
proof (induction n rule: decimalNat.induct)
  case (1 n)
  have d: "of_char (char_of (48 + k :: nat)) = (48 + k :: nat)" if "k < 10" for k using that by simp
  show ?case
  proof (cases "n < 10")
    case True
    then have "decimalNat n = [char_of (48 + n)]" by (simp add: decimalNat.simps [of n])
    then show ?thesis using d [OF True] by (simp del: of_char_of decimalNat.simps)
  next
    case False
    then show ?thesis using 1 [OF False] d [of "n mod 10"]
      by (simp del: of_char_of decimalNat.simps add: decimalVal_append decimalNat.simps [of n])
  qed
qed

lemma decimalNat_chars: "c \<in> set (decimalNat n) \<Longrightarrow> 48 \<le> (of_char c :: nat) \<and> (of_char c :: nat) < 58"
proof (induction n arbitrary: c rule: decimalNat.induct)
  case (1 n)
  show ?case
  proof (cases "n < 10")
    case True
    then have "c = char_of (48 + n)" using "1.prems" by (simp add: decimalNat.simps [of n])
    then show ?thesis using True by simp
  next
    case False
    then have "c \<in> set (decimalNat (n div 10)) \<or> c = char_of (48 + n mod 10)"
      using "1.prems" by (auto simp: decimalNat.simps [of n])
    moreover have "48 + n mod 10 < 256" "48 + n mod 10 < 58" by auto
    ultimately show ?thesis using "1.IH" [OF False] by auto
  qed
qed

lemma decimalNat_nonempty: "decimalNat n \<noteq> []"
  by (simp add: decimalNat.simps [of n])

lemma decimalInt_inject: "decimalInt i = decimalInt j \<Longrightarrow> i = j"
proof -
  assume e: "decimalInt i = decimalInt j"
  have h: "CHR ''-'' \<notin> set (decimalNat n)" for n using decimalNat_chars [of "CHR ''-''" n] by auto
  then have "hd (decimalNat n) \<noteq> CHR ''-''" for n using decimalNat_nonempty [of n] hd_in_set by metis
  then have x: "CHR ''-'' # s \<noteq> decimalNat n" for s n by (metis list.sel(1))
  have "decimalNat m = decimalNat n \<Longrightarrow> m = n" for m n using decimalVal_decimalNat by metis
  then show "i = j" using e x x [symmetric]
    by (auto simp: decimalInt_def nat_eq_iff split: if_splits dest: \<open>\<And>m n. decimalNat m = decimalNat n \<Longrightarrow> m = n\<close>)
qed

lemma line_split:
  assumes "a @ nl # b = a' @ nl # b'" "nl \<notin> set a" "nl \<notin> set a'"
  shows "a = a' \<and> b = b'"
proof -
  have "takeWhile (\<lambda>c. c \<noteq> nl) (x @ nl # y) = x" if "nl \<notin> set x" for x y
    using that by (subst takeWhile_append2) auto
  then have "a = a'" using assms by metis
  then show ?thesis using assms(1) by simp
qed

lemma authMessage_inject:
  assumes "authMessage r s i t = authMessage r' s' i' t'"
    "\<forall>x \<in> {r, s, i, r', s', i'}. nl \<notin> set x"
  shows "r = r' \<and> s = s' \<and> i = i' \<and> t = t'"
proof -
  have "r @ nl # s @ nl # i @ nl # decimalInt t = r' @ nl # s' @ nl # i' @ nl # decimalInt t'"
    using assms(1) by (simp add: authMessage_def)
  from line_split [OF this] assms(2)
  have r: "r = r'" and "s @ nl # i @ nl # decimalInt t = s' @ nl # i' @ nl # decimalInt t'" by auto
  from line_split [OF this(2)] assms(2)
  have s: "s = s'" and "i @ nl # decimalInt t = i' @ nl # decimalInt t'" by auto
  from line_split [OF this(2)] assms(2)
  have i: "i = i'" and "decimalInt t = decimalInt t'" by auto
  from r s i decimalInt_inject [OF this(2)] show ?thesis by simp
qed

text \<open>The signature header of a relay request decodes to a signature that verifies, under the public key
of the request, for the message naming its role, session, ID and time. Where that signature verifies for no
second message, it verifies for no other role, session, ID or time: a captured request can neither be turned
from guest to host nor moved to another session.\<close>

theorem relay_signature_binds:
  assumes "sig_law C" "c_edpub C (privSeed (idn_PrivateKey me)) = idn_PublicKey me"
    "\<And>m. verify C (idn_PublicKey me) m (sign C me (toBytes (authMessage role session (idn_ID me) t)))
       \<Longrightarrow> m = toBytes (authMessage role session (idn_ID me) t)"
    "nl \<notin> set role" "nl \<notin> set session" "nl \<notin> set (idn_ID me)"
    "nl \<notin> set role'" "nl \<notin> set session'" "nl \<notin> set ident'"
  shows "\<exists>sig. map_of (authHeaders C me role session t) ''X-Cmdchat-Signature'' = Some (base64Encode sig)
     \<and> base64Decode (base64Encode sig) = Some sig
     \<and> (verify C (idn_PublicKey me) (toBytes (authMessage role' session' ident' t')) sig
          \<longleftrightarrow> role' = role \<and> session' = session \<and> ident' = idn_ID me \<and> t' = t)"
proof -
  let ?m = "toBytes (authMessage role session (idn_ID me) t)"
  have "verify C (idn_PublicKey me) ?m (sign C me ?m)"
    using assms(1,2) by (metis sig_law_def verify_def sign_def)
  moreover have "verify C (idn_PublicKey me) (toBytes (authMessage role' session' ident' t')) (sign C me ?m)
      \<Longrightarrow> role' = role \<and> session' = session \<and> ident' = idn_ID me \<and> t' = t"
  proof -
    assume "verify C (idn_PublicKey me) (toBytes (authMessage role' session' ident' t')) (sign C me ?m)"
    then have "authMessage role' session' ident' t' = authMessage role session (idn_ID me) t" using assms(3) by fastforce
    from authMessage_inject [OF this] assms(4-9) show ?thesis by simp
  qed
  ultimately show ?thesis
    by (intro exI [of _ "sign C me ?m"]) (auto simp: authHeaders_def base64_roundtrip)
qed

definition bindingCrypto :: crypto where
  "bindingCrypto = plainCrypto\<lparr>c_sign := (\<lambda>s m. fill 32 s @ replicate 32 (if m = toBytes (authMessage ''guest'' ''cc-ho'' ''cc-me'' 5) then 1 else 0)),
     c_verify := (\<lambda>p m s. s = fill 32 p @ replicate 32 (if m = toBytes (authMessage ''guest'' ''cc-ho'' ''cc-me'' 5) then 1 else 0))\<rparr>"

definition bindingMe :: identity where
  "bindingMe = \<lparr>idn_PrivateKey = replicate 64 1, idn_PublicKey = replicate 32 1, idn_ID = ''cc-me''\<rparr>"

theorem relay_signature_binds_witness:
  "\<exists>sig. map_of (authHeaders bindingCrypto bindingMe ''guest'' ''cc-ho'' 5) ''X-Cmdchat-Signature'' = Some (base64Encode sig)
     \<and> base64Decode (base64Encode sig) = Some sig
     \<and> (verify bindingCrypto (replicate 32 1) (toBytes (authMessage ''host'' ''cc-me'' ''cc-me'' 5)) sig
          \<longleftrightarrow> ''host'' = ''guest'' \<and> ''cc-me'' = ''cc-ho'' \<and> ''cc-me'' = ''cc-me'' \<and> (5 :: int) = 5)"
proof -
  have 1: "sig_law bindingCrypto" by (simp add: sig_law_def bindingCrypto_def plainCrypto_def fill_fill)
  have 2: "c_edpub bindingCrypto (privSeed (idn_PrivateKey bindingMe)) = idn_PublicKey bindingMe"
    by (simp add: bindingCrypto_def bindingMe_def plainCrypto_def privSeed_def fill_def)
  have 3: "m = toBytes (authMessage ''guest'' ''cc-ho'' (idn_ID bindingMe) 5)"
    if "verify bindingCrypto (idn_PublicKey bindingMe) m (sign bindingCrypto bindingMe (toBytes (authMessage ''guest'' ''cc-ho'' (idn_ID bindingMe) 5)))" for m
    using that by (simp add: verify_def sign_def bindingCrypto_def bindingMe_def split: if_splits)
  have 4: "nl \<notin> set ''guest''" "nl \<notin> set ''cc-ho''" "nl \<notin> set (idn_ID bindingMe)" "nl \<notin> set ''host''" "nl \<notin> set ''cc-me''"
    by (simp_all add: nl_def bindingMe_def)
  have 5: "idn_PublicKey bindingMe = replicate 32 1" "idn_ID bindingMe = ''cc-me''" by (simp_all only: bindingMe_def identity.simps)
  show ?thesis
    using relay_signature_binds [where t' = 5, OF 1 2 3 4(1-4) 4(5) 4(5)] unfolding 5 .
qed

text \<open>While the clock is before the deadline, a client waiting for its peer passes over control messages
it cannot decode or that announce neither a pairing nor an error, answers pings, and returns the peer the
first pairing message names. The connection is then at exactly the byte behind that message, and every byte
of data that arrived before the pairing is kept, in order, for the reads that follow.\<close>

theorem relay_awaits_pairing:
  assumes "\<forall>x \<in> set xs. itemOk x" "itemOk (opText, fs)"
    "inputOf c = itemsBytes xs @ serverMessage opText fs @ r"
    "writable (itemsPings xs + length (messagePings fs)) c" "ws_control c = []"
    "\<forall>x \<in> set xs. isText x \<longrightarrow> passedOver decode (messageText (snd x))"
    "decode (messageText fs) = Some m" "ct_Type m = ''paired''" "\<And>k. now k < now 0 + wait"
  shows "\<exists>c'. awaitPeer decode now wait c = (Inr (ct_Peer m), c') \<and> inputOf c' = r
     \<and> ws_pending c' = ws_pending c @ earlyData xs"
  using awaitPeerLoop_stream [OF assms(1-8), of now "now 0 + wait" 1] assms(9) by (simp add: awaitPeer_def)

definition sampleDecode :: "bytes \<Rightarrow> control option" where
  "sampleDecode raw =
     (if raw = [1] then Some \<lparr>ct_Type = ''waiting'', ct_Peer = '''', ct_Code = '''', ct_Message = ''''\<rparr>
      else if raw = [2] then Some \<lparr>ct_Type = ''paired'', ct_Peer = ''cc-bo'', ct_Code = '''', ct_Message = ''''\<rparr>
      else None)"

definition sampleItems :: "relayItem list" where
  "sampleItems = [(opText, [([], [1])]), (opBinary, [([(True, [9])], [50]), ([], [51])]), (opText, [([], [7, 7])])]"

definition samplePairing :: wsConn where
  "samplePairing = sampleConn (itemsBytes sampleItems @ serverMessage opText [([], [2])] @ [60, 61])"

theorem relay_awaits_pairing_witness:
  "\<exists>c'. awaitPeer sampleDecode (\<lambda>k. 100) 20000 samplePairing = (Inr ''cc-bo'', c') \<and> inputOf c' = [60, 61]
     \<and> ws_pending c' = [50, 51]"
proof -
  let ?m = "\<lparr>ct_Type = ''paired'', ct_Peer = ''cc-bo'', ct_Code = '''', ct_Message = ''''\<rparr>"
  have "\<forall>x \<in> set sampleItems. itemOk x" "itemOk (opText, [([], [2])])"
    by (auto simp: sampleItems_def itemOk_def dataOpcode_def op_defs noiseFits_def messageText_def maxFrameBytes_def)
  moreover have "writable (itemsPings sampleItems + length (messagePings [([], [2 :: byte])])) samplePairing"
    by (simp add: writable_def samplePairing_def sampleConn_def itemsPings_def sampleItems_def messagePings_def pingsOf_def)
  moreover have "\<forall>x \<in> set sampleItems. isText x \<longrightarrow> passedOver sampleDecode (messageText (snd x))"
    by (auto simp: sampleItems_def isText_def passedOver_def messageText_def sampleDecode_def op_defs)
  moreover have "sampleDecode (messageText [([], [2])]) = Some ?m" by (simp add: sampleDecode_def messageText_def)
  moreover have "ws_control samplePairing = []" "ws_pending samplePairing = []"
    "inputOf samplePairing = itemsBytes sampleItems @ serverMessage opText [([], [2])] @ [60, 61]"
    by (simp_all add: samplePairing_def sampleConn_def inputOf_def)
  moreover have "earlyData sampleItems = [50, 51]" by (simp add: sampleItems_def earlyData_def messageText_def op_defs)
  ultimately show ?thesis
    using relay_awaits_pairing [of sampleItems "[([], [2])]" samplePairing "[60, 61]" sampleDecode ?m "\<lambda>k. 100" 20000] by simp
qed

end
