(* ===== verification/Connect.thy ===== *)
theory Connect
  imports Discovery Phonebook Relay "HOL-Library.Multiset"
begin

text \<open>
  \<^verbatim>\<open>internal/connect\<close>: how a guest reaches a host, by LAN discovery, directly or through the relay, and how a
  host stays reachable through the relay. The networks are parameters: what the local network answers, what a TCP
  dial gives, in which order the dials of a race end. A TCP connection is a value of a type of its own; times are in
  milliseconds. What the code sends to the debug log is left out, the lines of the progress log are kept.
\<close>

section \<open>Options and results\<close>

definition RelayProtocolVersion :: int where "RelayProtocolVersion = 2"

definition DefaultLANTimeout :: int where "DefaultLANTimeout = 3000"
definition DefaultDirectTimeout :: int where "DefaultDirectTimeout = 8000"
definition DefaultRelayTimeout :: int where "DefaultRelayTimeout = 25000"
definition DialTimeout :: int where "DialTimeout = 8000"

text \<open>The paths are strings, the empty one standing for no preference.\<close>

definition PathLAN :: string where "PathLAN = ''lan''"
definition PathDirect :: string where "PathDirect = ''direct''"
definition PathRelay :: string where "PathRelay = ''relay''"

lemma paths_distinct [simp]: "PathLAN \<noteq> PathDirect" "PathDirect \<noteq> PathLAN" "PathLAN \<noteq> PathRelay" "PathRelay \<noteq> PathLAN"
  "PathDirect \<noteq> PathRelay" "PathRelay \<noteq> PathDirect" "PathLAN \<noteq> ''''" "PathDirect \<noteq> ''''" "PathRelay \<noteq> ''''"
  by (simp_all add: PathLAN_def PathDirect_def PathRelay_def)

lemma no_path [simp]: "'''' \<noteq> PathLAN" "'''' \<noteq> PathDirect" "'''' \<noteq> PathRelay"
  by (simp_all add: PathLAN_def PathDirect_def PathRelay_def)

datatype 'c transport = OverTCP 'c | OverRelay wsConn

record 'c joinResult =
  jr_Conn :: "'c transport"
  jr_Path :: string
  jr_Detail :: string
  jr_HostID :: string
  jr_Fingerprint :: string

record joinOptions =
  jo_Identity :: identity
  jo_PhonebookURL :: string
  jo_RelayURL :: string
  jo_LANTimeout :: int
  jo_DirectTimeout :: int
  jo_RelayTimeout :: int
  jo_Force :: string

definition applyDefaults :: "joinOptions \<Rightarrow> joinOptions" where
  "applyDefaults opts = opts\<lparr>
     jo_LANTimeout := (if jo_LANTimeout opts = 0 then DefaultLANTimeout else jo_LANTimeout opts),
     jo_DirectTimeout := (if jo_DirectTimeout opts = 0 then DefaultDirectTimeout else jo_DirectTimeout opts),
     jo_RelayTimeout := (if jo_RelayTimeout opts = 0 then DefaultRelayTimeout else jo_RelayTimeout opts)\<rparr>"

definition ForceFromEnv :: "string \<Rightarrow> string" where
  "ForceFromEnv env =
     (let v = toLower (trimSpace env)
      in if v = ''lan'' then PathLAN else if v = ''direct'' then PathDirect else if v = ''relay'' then PathRelay else '''')"

datatype joinErr =
    NotOnLAN
  | NoDirectPath
  | PredatesRelay
  | RelayFailed relayErr
  | LookupFailed pbErr

text \<open>\<^verbatim>\<open>errors.Is(err, ErrUnreachable)\<close>.\<close>

definition isUnreachable :: "joinErr \<Rightarrow> bool" where
  "isUnreachable e = (case e of LookupFailed _ \<Rightarrow> False | _ \<Rightarrow> True)"

section \<open>The race of the direct candidates\<close>

text \<open>How one dial ended: the endpoint, with the error or the connection. The deadline is the timer's.\<close>

type_synonym 'c dialOutcome = "string \<times> (string + 'c)"

datatype 'c raceEvent = Answered "'c dialOutcome" | DeadlinePassed

record 'c race =
  ra_winner :: "('c \<times> string) option"
  ra_lastErr :: "string option"
  ra_remaining :: nat
  ra_closed :: "'c list"

definition newRace :: "nat \<Rightarrow> 'c race" where
  "newRace n = \<lparr>ra_winner = None, ra_lastErr = None, ra_remaining = n, ra_closed = []\<rparr>"

text \<open>
  The loop, over the events its \<^verbatim>\<open>select\<close> receives: whether it has been left, its variables, and what it has not
  received. The \<^verbatim>\<open>continue\<close> of the first success goes back to the loop's condition, past the test behind the
  \<^verbatim>\<open>select\<close>.
\<close>

fun raceLoop :: "'c raceEvent list \<Rightarrow> 'c race \<Rightarrow> bool \<times> 'c race \<times> 'c raceEvent list" where
  "raceLoop [] r = (ra_remaining r = 0, r, [])"
| "raceLoop (ev # evs) r =
     (if ra_remaining r = 0 then (True, r, ev # evs)
      else case ev of
        DeadlinePassed \<Rightarrow> (True, r\<lparr>ra_remaining := 0\<rparr>, evs)
      | Answered (ep, out) \<Rightarrow>
          (let r1 = r\<lparr>ra_remaining := ra_remaining r - 1\<rparr> in
           case out of
             Inl e \<Rightarrow> raceLoop evs (r1\<lparr>ra_lastErr := Some e\<rparr>)
           | Inr c \<Rightarrow>
               (case ra_winner r1 of
                  None \<Rightarrow> raceLoop evs (r1\<lparr>ra_winner := Some (c, ep)\<rparr>)
                | Some _ \<Rightarrow> (True, r1\<lparr>ra_closed := ra_closed r1 @ [c]\<rparr>, evs))))"

text \<open>The goroutine that receives the stragglers.\<close>

fun drainRace :: "('c \<times> string) option \<Rightarrow> 'c raceEvent list \<Rightarrow> 'c list" where
  "drainRace w [] = []"
| "drainRace w (ev # evs) =
     (case ev of
        Answered (ep, Inr c) \<Rightarrow> (if map_option fst w \<noteq> Some c then c # drainRace w evs else drainRace w evs)
      | _ \<Rightarrow> drainRace w evs)"

text \<open>The outcomes that come before the timer fires, and those after it; the result, and the connections closed.\<close>

definition dialFastest ::
  "string list \<Rightarrow> 'c dialOutcome list \<Rightarrow> 'c dialOutcome list \<Rightarrow> (string + 'c \<times> string) \<times> 'c list" where
  "dialFastest endpoints early late =
     (case raceLoop (map Answered early @ DeadlinePassed # map Answered late) (newRace (length endpoints)) of
        (_, r, rest) \<Rightarrow>
          (case ra_winner r of
             Some w \<Rightarrow> Inr w
           | None \<Rightarrow> Inl (case ra_lastErr r of Some e \<Rightarrow> e | None \<Rightarrow> ''no candidate answered in time''),
           ra_closed r @ drainRace (ra_winner r) rest))"

definition perDial :: "int \<Rightarrow> int" where
  "perDial budget = (if budget > DialTimeout then DialTimeout else budget)"

section \<open>The three paths\<close>

definition addressFamily :: "(string \<Rightarrow> ip option) \<Rightarrow> string \<Rightarrow> string" where
  "addressFamily v6 endpoint =
     (case splitHostPort endpoint of
        Inl _ \<Rightarrow> ''direct''
      | Inr (host, _) \<Rightarrow>
          (case parseIP v6 host of
             None \<Rightarrow> ''direct''
           | Some a \<Rightarrow> if to4 a \<noteq> None \<and> isPrivate a then ''IPv4, private''
                       else if to4 a \<noteq> None then ''IPv4'' else ''IPv6''))"

text \<open>What a join meets: the local network, the directory, the dials, the relay.\<close>

record 'c joinWorld =
  jw_lanJson :: lanJson
  jw_lan :: lanNet
  jw_pb :: pbLib
  jw_http :: exchange
  jw_pbRand :: bytes
  jw_pbClock :: "nat \<Rightarrow> int"
  jw_dial :: "string \<Rightarrow> int \<Rightarrow> 'c option"
  jw_early :: "string list \<Rightarrow> int \<Rightarrow> int \<Rightarrow> 'c dialOutcome list"
  jw_late :: "string list \<Rightarrow> int \<Rightarrow> int \<Rightarrow> 'c dialOutcome list"
  jw_v6 :: "string \<Rightarrow> ip option"
  jw_crypto :: crypto
  jw_ws :: wsLibrary
  jw_control :: "bytes \<Rightarrow> control option"
  jw_issuedAt :: int
  jw_now :: "nat \<Rightarrow> int"

type_synonym ('a) logged = "string list \<Rightarrow> 'a \<times> string list"

definition logf :: "string \<Rightarrow> string list \<Rightarrow> string list" where "logf line log = log @ [line]"

definition tryLAN :: "'c joinWorld \<Rightarrow> string \<Rightarrow> joinOptions \<Rightarrow> ('c joinResult option) logged" where
  "tryLAN W target opts log =
     (let log = logf ''[network] searching the local network'' log in
      case findLAN (jw_lanJson W) (jw_lan W) target (jo_LANTimeout opts) of
        Inl _ \<Rightarrow> (None, log)
      | Inr [] \<Rightarrow> (None, logf ''[network] not found on the local network'' log)
      | Inr (a # _) \<Rightarrow>
          (case jw_dial W (lan_Endpoint a) DialTimeout of
             None \<Rightarrow> (None, logf ''[network] local network host did not answer'' log)
           | Some c \<Rightarrow>
               (Some \<lparr>jr_Conn = OverTCP c, jr_Path = PathLAN, jr_Detail = ''LAN'', jr_HostID = target,
                      jr_Fingerprint = lan_Fingerprint a\<rparr>,
                logf ''[network] connected over the local network'' log)))"

definition lookupTarget :: "'c joinWorld \<Rightarrow> string \<Rightarrow> joinOptions \<Rightarrow> (joinErr + pbPeer) logged" where
  "lookupTarget W target opts log =
     (let log = logf ''[network] looking up the peer in the phonebook'' log;
          client = newClient (jo_Identity opts) (jo_PhonebookURL opts) (jw_pbRand W) (jw_pbClock W) in
      case fst (lookupPeer (jw_pb W) (jw_http W) target client) of
        Inl e \<Rightarrow>
          (Inl (LookupFailed e),
           logf (if e = PbNotFound then ''[network] that ID has never been listed in the phonebook''
                 else if e = PbOffline then ''[network] peer is listed but not currently online''
                 else ''[network] phonebook lookup failed'') log)
      | Inr peer \<Rightarrow>
          (Inr peer, logf (''[network] peer found ('' @ decimalNat (length (pp_Candidates peer)) @ '' address candidate(s))'') log))"

definition tryDirect :: "'c joinWorld \<Rightarrow> string \<Rightarrow> pbPeer \<Rightarrow> joinOptions \<Rightarrow> ('c joinResult option) logged" where
  "tryDirect W target peer opts log =
     (let endpoints = TCPEndpoints (pp_Candidates peer) in
      if endpoints = [] then (None, logf ''[network] no direct address available for this peer'' log)
      else let log = logf ''[network] attempting direct connection'' log;
               budget = jo_DirectTimeout opts in
        case fst (dialFastest endpoints (jw_early W endpoints (perDial budget) budget) (jw_late W endpoints (perDial budget) budget)) of
          Inl _ \<Rightarrow> (None, logf ''[network] direct connection failed'' log)
        | Inr (c, endpoint) \<Rightarrow>
            (let family = addressFamily (jw_v6 W) endpoint in
             (Some \<lparr>jr_Conn = OverTCP c, jr_Path = PathDirect, jr_Detail = family, jr_HostID = target,
                    jr_Fingerprint = pp_Fingerprint peer\<rparr>,
              logf (''[network] direct connection succeeded ('' @ family @ '')'') log)))"

definition tryRelay :: "'c joinWorld \<Rightarrow> string \<Rightarrow> pbPeer \<Rightarrow> joinOptions \<Rightarrow> (joinErr + 'c joinResult) logged" where
  "tryRelay W target peer opts log =
     (if pp_Version peer < RelayProtocolVersion then
        (Inl PredatesRelay, logf (''[network] peer'' @ CHR 0x27 # ''s client does not support the relay'') log)
      else let log = logf ''[network] attempting relay'' log in
        case fst (relayDial (jw_crypto W) (jw_ws W) (jw_control W) (jw_issuedAt W) (jw_now W) (jo_RelayURL opts) (pp_ID peer)
               (jo_Identity opts)) of
          Inl e \<Rightarrow>
            (Inl (RelayFailed e),
             logf (if e = ErrNoHost then ''[network] peer is not waiting on the relay''
                   else if e = ErrSessionBusy then ''[network] peer is already in another chat''
                   else ''[network] relay connection failed'') log)
        | Inr session \<Rightarrow>
            (Inr \<lparr>jr_Conn = OverRelay (rs_Conn session), jr_Path = PathRelay, jr_Detail = ''relay'', jr_HostID = target,
                  jr_Fingerprint = pp_Fingerprint peer\<rparr>,
             logf ''[network] relay connection established'' log))"

text \<open>\<^verbatim>\<open>%q\<close>, for text of printable characters.\<close>

definition quoteText :: "string \<Rightarrow> string" where
  "quoteText s = CHR 0x22 # concat (map (\<lambda>c. if c = CHR 0x22 \<or> c = CHR 0x5C then [CHR 0x5C, c] else [c]) s) @ [CHR 0x22]"

definition joinHost :: "'c joinWorld \<Rightarrow> string \<Rightarrow> joinOptions \<Rightarrow> (joinErr + 'c joinResult) logged" where
  "joinHost W target opts0 log =
     (let opts = applyDefaults opts0; force = jo_Force opts;
          log = (if force \<noteq> '''' then logf (''[network] transport pinned to '' @ quoteText force @ '' by configuration'') log else log);
          (lan, log) = (if force = '''' \<or> force = PathLAN then tryLAN W target opts log else (None, log))
      in case lan of
        Some r \<Rightarrow> (Inr r, log)
      | None \<Rightarrow>
          (if force = PathLAN then (Inl NotOnLAN, log)
           else case lookupTarget W target opts log of
             (Inl e, log) \<Rightarrow> (Inl e, log)
           | (Inr peer, log) \<Rightarrow>
               (let (direct, log) = (if force = '''' \<or> force = PathDirect then tryDirect W target peer opts log else (None, log))
                in case direct of
                  Some r \<Rightarrow> (Inr r, log)
                | None \<Rightarrow> (if force = PathDirect then (Inl NoDirectPath, log) else tryRelay W target peer opts log))))"

section \<open>What the race keeps and closes\<close>

fun connected :: "'c dialOutcome list \<Rightarrow> ('c \<times> string) list" where
  "connected [] = []"
| "connected ((ep, Inl e) # outs) = connected outs"
| "connected ((ep, Inr c) # outs) = (c, ep) # connected outs"

fun failures :: "'c dialOutcome list \<Rightarrow> string list" where
  "failures [] = []"
| "failures ((ep, Inl e) # outs) = e # failures outs"
| "failures ((ep, Inr c) # outs) = failures outs"

fun outcomesOf :: "'c raceEvent list \<Rightarrow> 'c dialOutcome list" where
  "outcomesOf [] = []"
| "outcomesOf (Answered a # evs) = a # outcomesOf evs"
| "outcomesOf (DeadlinePassed # evs) = outcomesOf evs"

lemma outcomesOf_simps [simp]: "outcomesOf (map Answered outs @ evs) = outs @ outcomesOf evs"
  "outcomesOf (map Answered outs) = outs"
proof -
  show a: "outcomesOf (map Answered outs @ evs) = outs @ outcomesOf evs" for evs by (induction outs) auto
  show "outcomesOf (map Answered outs) = outs" using a [of "[]"] by simp
qed

lemma connected_append [simp]: "connected (xs @ ys) = connected xs @ connected ys"
  by (induction xs rule: connected.induct) auto

definition held :: "('c \<times> string) option \<Rightarrow> 'c multiset" where
  "held w = (case w of None \<Rightarrow> {#} | Some (c, ep) \<Rightarrow> {#c#})"

text \<open>No connection is lost: each is the winner, closed, or still to be received.\<close>

lemma raceLoop_conserves:
  "raceLoop evs r = (b, r', rest) \<Longrightarrow>
     mset (ra_closed r') + held (ra_winner r') + mset (map fst (connected (outcomesOf rest)))
     = mset (ra_closed r) + held (ra_winner r) + mset (map fst (connected (outcomesOf evs)))"
proof (induction evs arbitrary: r)
  case Nil
  then show ?case by simp
next
  case (Cons ev evs)
  show ?case
  proof (cases "ra_remaining r = 0")
    case True
    then show ?thesis using Cons.prems by simp
  next
    case False
    show ?thesis
    proof (cases ev)
      case DeadlinePassed
      then show ?thesis using Cons.prems False by auto
    next
      case (Answered a)
      obtain ep out where a: "a = (ep, out)" by (cases a)
      show ?thesis
      proof (cases out)
        case (Inl e)
        then show ?thesis using Cons.prems Cons.IH False Answered a by fastforce
      next
        case (Inr c)
        then show ?thesis using Cons.prems Cons.IH False Answered a
          by (cases "ra_winner r") (fastforce simp: held_def)+
      qed
    qed
  qed
qed

lemma raceLoop_winner_kept:
  "raceLoop evs r = (b, r', rest) \<Longrightarrow> ra_winner r = Some w \<Longrightarrow> ra_winner r' = Some w"
proof (induction evs arbitrary: r)
  case (Cons ev evs)
  then show ?case
    by (auto simp: Let_def split: if_splits raceEvent.splits prod.splits sum.splits option.splits)
qed simp

lemma raceLoop_ends: "DeadlinePassed \<in> set evs \<Longrightarrow> fst (raceLoop evs r)"
proof (induction evs arbitrary: r)
  case (Cons ev evs)
  show ?case
  proof (cases ev)
    case DeadlinePassed
    then show ?thesis by simp
  next
    case (Answered a)
    then show ?thesis using Cons
      by (cases a; cases "snd a"; cases "ra_winner r") (auto simp: Let_def)
  qed
qed simp

text \<open>The loop until the timer fires, when no more outcomes come before it than there are dials.\<close>

lemma raceLoop_early:
  assumes "raceLoop (map Answered early @ DeadlinePassed # evs) r = (b, r', rest)" "length early \<le> ra_remaining r" "ra_winner r = None"
  shows "b \<and> ra_winner r' = (case connected early of [] \<Rightarrow> None | w # _ \<Rightarrow> Some w)
    \<and> (connected early = [] \<longrightarrow> ra_lastErr r' = (if failures early = [] then ra_lastErr r else Some (last (failures early))))"
  using assms
proof (induction early arbitrary: r)
  case Nil
  then show ?case by (auto split: if_splits)
next
  case (Cons a early)
  obtain ep out where a: "a = (ep, out)" by (cases a)
  have r: "ra_remaining r \<noteq> 0" using Cons.prems by auto
  show ?case
  proof (cases out)
    case (Inl e)
    let ?r = "r\<lparr>ra_remaining := ra_remaining r - 1, ra_lastErr := Some e\<rparr>"
    have "raceLoop (map Answered early @ DeadlinePassed # evs) ?r = (b, r', rest)"
      using Cons.prems(1) r Inl a by simp
    then show ?thesis using Cons.IH [of ?r] Cons.prems Inl a by (auto split: list.splits)
  next
    case (Inr c)
    let ?r = "r\<lparr>ra_remaining := ra_remaining r - 1, ra_winner := Some (c, ep)\<rparr>"
    have l: "raceLoop (map Answered early @ DeadlinePassed # evs) ?r = (b, r', rest)"
      using Cons.prems(1,3) r Inr a by simp
    have "b" using raceLoop_ends [of "map Answered early @ DeadlinePassed # evs" ?r] l by simp
    then show ?thesis using raceLoop_winner_kept [OF l] Inr a by simp
  qed
qed

lemma drainRace_all: "drainRace None evs = map fst (connected (outcomesOf evs))"
proof (induction evs)
  case (Cons ev evs)
  then show ?case by (cases ev) (auto split: sum.splits)
qed simp

lemma drainRace_rest:
  assumes "c \<notin> fst ` set (connected (outcomesOf evs))"
  shows "drainRace (Some (c, ep)) evs = map fst (connected (outcomesOf evs))"
  using assms
proof (induction evs)
  case (Cons ev evs)
  then show ?case by (cases ev) (auto split: sum.splits)
qed simp

lemma dialFastest_facts:
  assumes "length early \<le> length endpoints" "distinct (map fst (connected (early @ late)))"
  shows "fst (dialFastest endpoints early late)
      = (case connected early of
           w # _ \<Rightarrow> Inr w
         | [] \<Rightarrow> Inl (if failures early = [] then ''no candidate answered in time'' else last (failures early)))"
    and "mset (snd (dialFastest endpoints early late)) + held (case connected early of [] \<Rightarrow> None | w # _ \<Rightarrow> Some w)
      = mset (map fst (connected (early @ late)))"
proof -
  let ?r = "newRace (length endpoints) :: 'a race"
  obtain b r rest where l: "raceLoop (map Answered early @ DeadlinePassed # map Answered late) ?r = (b, r, rest)"
    by (metis prod_cases3)
  have w: "ra_winner r = (case connected early of [] \<Rightarrow> None | w # _ \<Rightarrow> Some w)"
    and e: "connected early = [] \<longrightarrow> ra_lastErr r = (if failures early = [] then None else Some (last (failures early)))"
    using raceLoop_early [OF l] assms(1) by (simp_all add: newRace_def)
  have m: "mset (ra_closed r) + held (ra_winner r) + mset (map fst (connected (outcomesOf rest))) = mset (map fst (connected (early @ late)))"
    using raceLoop_conserves [OF l] by (simp add: newRace_def held_def)
  have d: "drainRace (ra_winner r) rest = map fst (connected (outcomesOf rest))"
  proof (cases "ra_winner r")
    case None
    then show ?thesis by (simp add: drainRace_all)
  next
    case (Some v)
    obtain c ep where v: "v = (c, ep)" by (cases v)
    have t: "mset (map fst (connected (early @ late))) = {#c#} + mset (ra_closed r) + mset (map fst (connected (outcomesOf rest)))"
      using m Some v by (simp add: held_def)
    have "count (mset (map fst (connected (early @ late)))) c \<le> 1"
      using assms(2) by (metis distinct_count_atmost_1 le_refl zero_le)
    then have "c \<notin># mset (map fst (connected (outcomesOf rest)))"
      unfolding t by (simp add: count_eq_zero_iff)
    then show ?thesis using Some v drainRace_rest by fastforce
  qed
  show "fst (dialFastest endpoints early late)
      = (case connected early of
           w # _ \<Rightarrow> Inr w
         | [] \<Rightarrow> Inl (if failures early = [] then ''no candidate answered in time'' else last (failures early)))"
    unfolding dialFastest_def l using w e by (auto split: list.splits)
  show "mset (snd (dialFastest endpoints early late)) + held (case connected early of [] \<Rightarrow> None | w # _ \<Rightarrow> Some w)
      = mset (map fst (connected (early @ late)))"
    unfolding dialFastest_def l using m d w by (simp add: ac_simps)
qed

text \<open>After the first success the loop stays in its \<^verbatim>\<open>select\<close> while only failures come in.\<close>

lemma raceLoop_waits:
  assumes "ra_winner r = Some w" "length outs < ra_remaining r" "connected outs = []"
  shows "\<not> fst (raceLoop (map Answered outs) r)"
  using assms
proof (induction outs arbitrary: r)
  case (Cons a outs)
  obtain ep e where a: "a = (ep, Inl e)" using Cons.prems(3) by (cases a; cases "snd a") auto
  then show ?case using Cons by simp
qed simp

lemma connected_fails [simp]: "connected (map (\<lambda>(ep, e). (ep, Inl e)) fs) = []"
  by (induction fs) auto

section \<open>What a join returns\<close>

text \<open>Where a result may come from.\<close>

definition onLAN :: "'c joinWorld \<Rightarrow> string \<Rightarrow> joinOptions \<Rightarrow> (lanAnnouncement \<times> 'c) option" where
  "onLAN W target opts =
     (case findLAN (jw_lanJson W) (jw_lan W) target (jo_LANTimeout (applyDefaults opts)) of
        Inr (a # _) \<Rightarrow> map_option (Pair a) (jw_dial W (lan_Endpoint a) DialTimeout)
      | _ \<Rightarrow> None)"

definition inDirectory :: "'c joinWorld \<Rightarrow> string \<Rightarrow> joinOptions \<Rightarrow> pbErr + pbPeer" where
  "inDirectory W target opts =
     fst (lookupPeer (jw_pb W) (jw_http W) target (newClient (jo_Identity opts) (jo_PhonebookURL opts) (jw_pbRand W) (jw_pbClock W)))"

definition answeringDirectly :: "'c joinWorld \<Rightarrow> pbPeer \<Rightarrow> joinOptions \<Rightarrow> ('c \<times> string) option" where
  "answeringDirectly W peer opts =
     (let endpoints = TCPEndpoints (pp_Candidates peer); budget = jo_DirectTimeout (applyDefaults opts)
      in if endpoints = [] then None
         else case fst (dialFastest endpoints (jw_early W endpoints (perDial budget) budget) (jw_late W endpoints (perDial budget) budget)) of
           Inl _ \<Rightarrow> None | Inr w \<Rightarrow> Some w)"

definition onRelay :: "'c joinWorld \<Rightarrow> pbPeer \<Rightarrow> joinOptions \<Rightarrow> relayErr + relaySession" where
  "onRelay W peer opts =
     fst (relayDial (jw_crypto W) (jw_ws W) (jw_control W) (jw_issuedAt W) (jw_now W) (jo_RelayURL opts) (pp_ID peer) (jo_Identity opts))"

lemma applyDefaults_keeps [simp]: "jo_Force (applyDefaults o1) = jo_Force o1" "jo_Identity (applyDefaults o1) = jo_Identity o1"
  "jo_PhonebookURL (applyDefaults o1) = jo_PhonebookURL o1" "jo_RelayURL (applyDefaults o1) = jo_RelayURL o1"
  by (simp_all add: applyDefaults_def)

lemma tryLAN_eq:
  "fst (tryLAN W target (applyDefaults opts) log) =
     map_option (\<lambda>(a, c). \<lparr>jr_Conn = OverTCP c, jr_Path = PathLAN, jr_Detail = ''LAN'', jr_HostID = target,
        jr_Fingerprint = lan_Fingerprint a\<rparr>) (onLAN W target opts)"
  by (auto simp: tryLAN_def onLAN_def Let_def split: sum.splits list.splits option.splits)

lemma lookupTarget_eq: "fst (lookupTarget W target (applyDefaults opts) log) = map_sum LookupFailed id (inDirectory W target opts)"
  by (auto simp: lookupTarget_def inDirectory_def Let_def split: sum.splits)

lemma tryDirect_eq:
  "fst (tryDirect W target peer (applyDefaults opts) log) =
     map_option (\<lambda>(c, endpoint). \<lparr>jr_Conn = OverTCP c, jr_Path = PathDirect, jr_Detail = addressFamily (jw_v6 W) endpoint,
        jr_HostID = target, jr_Fingerprint = pp_Fingerprint peer\<rparr>) (answeringDirectly W peer opts)"
  by (auto simp: tryDirect_def answeringDirectly_def Let_def split: sum.splits)

lemma tryRelay_eq:
  "fst (tryRelay W target peer (applyDefaults opts) log) =
     (if pp_Version peer < RelayProtocolVersion then Inl PredatesRelay
      else map_sum RelayFailed (\<lambda>s. \<lparr>jr_Conn = OverRelay (rs_Conn s), jr_Path = PathRelay, jr_Detail = ''relay'',
             jr_HostID = target, jr_Fingerprint = pp_Fingerprint peer\<rparr>) (onRelay W peer opts))"
  by (auto simp: tryRelay_def onRelay_def Let_def split: sum.splits)

lemma joinHost_eq:
  "fst (joinHost W target opts log) =
     (let force = jo_Force opts;
          lan = (if force = '''' \<or> force = PathLAN then fst (tryLAN W target (applyDefaults opts) []) else None)
      in case lan of
        Some r \<Rightarrow> Inr r
      | None \<Rightarrow>
          (if force = PathLAN then Inl NotOnLAN
           else case fst (lookupTarget W target (applyDefaults opts) []) of
             Inl e \<Rightarrow> Inl e
           | Inr peer \<Rightarrow>
               (case (if force = '''' \<or> force = PathDirect then fst (tryDirect W target peer (applyDefaults opts) []) else None) of
                  Some r \<Rightarrow> Inr r
                | None \<Rightarrow> (if force = PathDirect then Inl NoDirectPath else fst (tryRelay W target peer (applyDefaults opts) [])))))"
proof -
  have l: "fst (tryLAN W target (applyDefaults opts) lg) = fst (tryLAN W target (applyDefaults opts) [])" for lg
    by (simp add: tryLAN_eq)
  have k: "fst (lookupTarget W target (applyDefaults opts) lg) = fst (lookupTarget W target (applyDefaults opts) [])" for lg
    by (simp add: lookupTarget_eq)
  have d: "fst (tryDirect W target p (applyDefaults opts) lg) = fst (tryDirect W target p (applyDefaults opts) [])" for p lg
    by (simp add: tryDirect_eq)
  have y: "fst (tryRelay W target p (applyDefaults opts) lg) = fst (tryRelay W target p (applyDefaults opts) [])" for p lg
    by (simp add: tryRelay_eq)
  note * = l k d y
  let ?l0 = "if jo_Force opts \<noteq> '''' then logf (''[network] transport pinned to '' @ quoteText (jo_Force opts) @ '' by configuration'') log else log"
  obtain lan log1 where 1: "(if jo_Force opts = '''' \<or> jo_Force opts = PathLAN then tryLAN W target (applyDefaults opts) ?l0 else (None, ?l0)) = (lan, log1)"
    by fastforce
  have f1: "lan = (if jo_Force opts = '''' \<or> jo_Force opts = PathLAN then fst (tryLAN W target (applyDefaults opts) []) else None)"
    using 1 l [of ?l0] by (auto split: if_splits)
  obtain look log2 where 2: "lookupTarget W target (applyDefaults opts) log1 = (look, log2)" by fastforce
  have f2: "look = fst (lookupTarget W target (applyDefaults opts) [])" using 2 k [of log1] by simp
  have 3: "fst (case (if jo_Force opts = '''' \<or> jo_Force opts = PathDirect then tryDirect W target p (applyDefaults opts) lg else (None, lg)) of
       (direct, log) \<Rightarrow> (case direct of Some r \<Rightarrow> (Inr r, log)
         | None \<Rightarrow> (if jo_Force opts = PathDirect then (Inl NoDirectPath, log) else tryRelay W target p (applyDefaults opts) log)))
     = (case (if jo_Force opts = '''' \<or> jo_Force opts = PathDirect then fst (tryDirect W target p (applyDefaults opts) []) else None) of
          Some r \<Rightarrow> Inr r | None \<Rightarrow> (if jo_Force opts = PathDirect then Inl NoDirectPath else fst (tryRelay W target p (applyDefaults opts) [])))"
    for p lg
    using d [of p lg] y [of p] by (auto split: prod.splits option.splits if_splits)
  show ?thesis unfolding joinHost_def Let_def applyDefaults_keeps 1 prod.case 2 f1 [symmetric] f2 [symmetric]
    by (cases lan; cases look) (simp_all add: 3)
qed

definition lanResult :: "string \<Rightarrow> lanAnnouncement \<Rightarrow> 'c \<Rightarrow> 'c joinResult" where
  "lanResult target a c = \<lparr>jr_Conn = OverTCP c, jr_Path = PathLAN, jr_Detail = ''LAN'', jr_HostID = target,
     jr_Fingerprint = lan_Fingerprint a\<rparr>"

definition directResult :: "(string \<Rightarrow> ip option) \<Rightarrow> string \<Rightarrow> pbPeer \<Rightarrow> 'c \<Rightarrow> string \<Rightarrow> 'c joinResult" where
  "directResult v6 target peer c endpoint = \<lparr>jr_Conn = OverTCP c, jr_Path = PathDirect, jr_Detail = addressFamily v6 endpoint,
     jr_HostID = target, jr_Fingerprint = pp_Fingerprint peer\<rparr>"

definition relayResult :: "string \<Rightarrow> pbPeer \<Rightarrow> relaySession \<Rightarrow> 'c joinResult" where
  "relayResult target peer s = \<lparr>jr_Conn = OverRelay (rs_Conn s), jr_Path = PathRelay, jr_Detail = ''relay'',
     jr_HostID = target, jr_Fingerprint = pp_Fingerprint peer\<rparr>"

lemma joinHost_cases:
  "fst (joinHost W target opts log) =
     (let force = jo_Force opts in
      case (if force = '''' \<or> force = PathLAN then onLAN W target opts else None) of
        Some (a, c) \<Rightarrow> Inr (lanResult target a c)
      | None \<Rightarrow>
          (if force = PathLAN then Inl NotOnLAN
           else case inDirectory W target opts of
             Inl e \<Rightarrow> Inl (LookupFailed e)
           | Inr peer \<Rightarrow>
               (case (if force = '''' \<or> force = PathDirect then answeringDirectly W peer opts else None) of
                  Some (c, ep) \<Rightarrow> Inr (directResult (jw_v6 W) target peer c ep)
                | None \<Rightarrow>
                    (if force = PathDirect then Inl NoDirectPath
                     else if pp_Version peer < RelayProtocolVersion then Inl PredatesRelay
                     else case onRelay W peer opts of Inl e \<Rightarrow> Inl (RelayFailed e) | Inr s \<Rightarrow> Inr (relayResult target peer s)))))"
proof -
  have l: "fst (tryLAN W target (applyDefaults opts) []) = map_option (\<lambda>(a, c). lanResult target a c) (onLAN W target opts)"
    by (simp add: tryLAN_eq lanResult_def)
  have d: "fst (tryDirect W target peer (applyDefaults opts) []) =
      map_option (\<lambda>(c, ep). directResult (jw_v6 W) target peer c ep) (answeringDirectly W peer opts)" for peer
    by (simp add: tryDirect_eq directResult_def)
  have y: "fst (tryRelay W target peer (applyDefaults opts) []) =
      (if pp_Version peer < RelayProtocolVersion then Inl PredatesRelay
       else case onRelay W peer opts of Inl e \<Rightarrow> Inl (RelayFailed e) | Inr s \<Rightarrow> Inr (relayResult target peer s))" for peer
    by (auto simp: tryRelay_eq relayResult_def split: sum.splits)
  show ?thesis unfolding joinHost_eq l lookupTarget_eq d y Let_def
    by (cases "onLAN W target opts"; cases "inDirectory W target opts")
       (auto simp: option.case_eq_if split: prod.split)
qed

lemma joinHost_Inr:
  assumes "fst (joinHost W target opts log) = Inr r"
  obtains
    (lan) a c where "onLAN W target opts = Some (a, c)" "jo_Force opts = '''' \<or> jo_Force opts = PathLAN" "r = lanResult target a c"
  | (direct) peer c ep where "jo_Force opts = '''' \<longrightarrow> onLAN W target opts = None" "jo_Force opts = '''' \<or> jo_Force opts = PathDirect"
      "inDirectory W target opts = Inr peer" "answeringDirectly W peer opts = Some (c, ep)" "r = directResult (jw_v6 W) target peer c ep"
  | (relay) peer s where "jo_Force opts = '''' \<longrightarrow> onLAN W target opts = None" "jo_Force opts \<noteq> PathLAN" "jo_Force opts \<noteq> PathDirect"
      "inDirectory W target opts = Inr peer" "jo_Force opts = '''' \<longrightarrow> answeringDirectly W peer opts = None"
      "RelayProtocolVersion \<le> pp_Version peer" "onRelay W peer opts = Inr s" "r = relayResult target peer s"
proof (cases "if jo_Force opts = '''' \<or> jo_Force opts = PathLAN then onLAN W target opts else None")
  case (Some x)
  then show ?thesis using assms lan by (cases x) (auto simp: joinHost_cases Let_def split: if_splits)
next
  case None
  note eq = assms [unfolded joinHost_cases Let_def None option.case]
  have nl: "jo_Force opts \<noteq> PathLAN" using eq by (auto split: if_splits)
  then obtain peer where p: "inDirectory W target opts = Inr peer" using eq by (cases "inDirectory W target opts") auto
  note eq = eq [unfolded p sum.case]
  show ?thesis
  proof (cases "if jo_Force opts = '''' \<or> jo_Force opts = PathDirect then answeringDirectly W peer opts else None")
    case (Some x)
    obtain c ep where x: "x = (c, ep)" by (cases x)
    have "r = directResult (jw_v6 W) target peer c ep" using eq nl by (simp only: Some option.case x prod.case if_False) simp
    then show ?thesis using direct [of peer c ep] None Some x p by (auto split: if_splits)
  next
    case n2: None
    note eq = eq [unfolded n2 option.case]
    have nd: "jo_Force opts \<noteq> PathDirect" using eq nl by (auto split: if_splits)
    then obtain s where "RelayProtocolVersion \<le> pp_Version peer" "onRelay W peer opts = Inr s" "r = relayResult target peer s"
      using eq nl by (cases "onRelay W peer opts") (auto split: if_splits)
    then show ?thesis using relay [of peer s] None n2 nl nd p by (auto split: if_splits)
  qed
qed

lemma results_simps [simp]: "jr_HostID (lanResult t a c) = t" "jr_HostID (directResult v6 t p c ep) = t" "jr_HostID (relayResult t p s) = t"
  "jr_Path (lanResult t a c) = PathLAN" "jr_Path (directResult v6 t p c ep) = PathDirect" "jr_Path (relayResult t p s) = PathRelay"
  "jr_Fingerprint (directResult v6 t p c ep) = pp_Fingerprint p" "jr_Fingerprint (relayResult t p s) = pp_Fingerprint p"
  by (simp_all add: lanResult_def directResult_def relayResult_def)

section \<open>Staying reachable through the relay (\<open>serve.go\<close>)\<close>

definition relayWaitWindow :: int where "relayWaitWindow = 240000"
definition relayRetryMin :: int where "relayRetryMin = 3000"
definition relayRetryMax :: int where "relayRetryMax = 60000"

definition isWaitTimeout :: "relayErr \<Rightarrow> bool" where
  "isWaitTimeout e = (case e of ErrWaitTimeout \<Rightarrow> True | RelayWs (WsCloseErr _ _) \<Rightarrow> True | _ \<Rightarrow> False)"

text \<open>What one turn of the loop meets: whether the stop channel is closed at each of the three places it is looked
  at, and the network and clock \<^verbatim>\<open>relay.Listen\<close> runs on.\<close>

record relayTurn =
  rt_stop :: bool
  rt_ws :: wsLibrary
  rt_issuedAt :: int
  rt_now :: "nat \<Rightarrow> int"
  rt_stopAfter :: bool
  rt_stopWaiting :: bool

text \<open>The variables of the loop, the lines it logged, the delays it made and the sessions it handed to the host.\<close>

record standby =
  sb_backoff :: int
  sb_announced :: bool
  sb_log :: "string list"
  sb_waits :: "int list"
  sb_served :: "relaySession list"

definition newStandby :: standby where
  "newStandby = \<lparr>sb_backoff = relayRetryMin, sb_announced = False, sb_log = [], sb_waits = [], sb_served = []\<rparr>"

definition relayUnavailable :: string where
  "relayUnavailable = ''[network] relay unavailable; only direct connections will work''"

definition relayConnected :: string where "relayConnected = ''[network] peer connected through the relay''"

definition nextBackoff :: "int \<Rightarrow> int" where
  "nextBackoff b = (let d = b * 2 in if d > relayRetryMax then relayRetryMax else d)"

definition turnListen ::
  "crypto \<Rightarrow> (bytes \<Rightarrow> control option) \<Rightarrow> string \<Rightarrow> identity \<Rightarrow> relayTurn \<Rightarrow> relayErr + relaySession" where
  "turnListen C decode url ident t = fst (relayListen C (rt_ws t) decode (rt_issuedAt t) (rt_now t) url ident relayWaitWindow)"

text \<open>One turn: whether the function returns, and its variables.\<close>

definition serveTurn ::
  "crypto \<Rightarrow> (bytes \<Rightarrow> control option) \<Rightarrow> string \<Rightarrow> identity \<Rightarrow> relayTurn \<Rightarrow> standby \<Rightarrow> bool \<times> standby" where
  "serveTurn C decode url ident t s =
     (if rt_stop t then (True, s)
      else case turnListen C decode url ident t of
        Inl e \<Rightarrow>
          (if isWaitTimeout e then (False, s\<lparr>sb_backoff := relayRetryMin\<rparr>)
           else if rt_stopAfter t then (True, s)
           else
             let s1 = (if \<not> sb_announced s then s\<lparr>sb_log := sb_log s @ [relayUnavailable], sb_announced := True\<rparr> else s)
             in if rt_stopWaiting t then (True, s1)
                else (False, s1\<lparr>sb_waits := sb_waits s1 @ [sb_backoff s1], sb_backoff := nextBackoff (sb_backoff s1)\<rparr>))
      | Inr session \<Rightarrow>
          (False, s\<lparr>sb_backoff := relayRetryMin, sb_announced := False, sb_log := sb_log s @ [relayConnected],
                    sb_served := sb_served s @ [session]\<rparr>))"

fun serveRelay ::
  "crypto \<Rightarrow> (bytes \<Rightarrow> control option) \<Rightarrow> string \<Rightarrow> identity \<Rightarrow> relayTurn list \<Rightarrow> standby \<Rightarrow> bool \<times> standby" where
  "serveRelay C decode url ident [] s = (False, s)"
| "serveRelay C decode url ident (t # ts) s =
     (case serveTurn C decode url ident t s of
        (True, s') \<Rightarrow> (True, s')
      | (False, s') \<Rightarrow> serveRelay C decode url ident ts s')"

text \<open>What holds of the variables at every moment.\<close>

definition standbyOk :: "standby \<Rightarrow> bool" where
  "standbyOk s \<longleftrightarrow> relayRetryMin \<le> sb_backoff s \<and> sb_backoff s \<le> relayRetryMax
     \<and> (\<forall>w \<in> set (sb_waits s). relayRetryMin \<le> w \<and> w \<le> relayRetryMax)
     \<and> count (mset (sb_log s)) relayUnavailable \<le> length (sb_served s) + (if sb_announced s then 1 else 0)
     \<and> count (mset (sb_log s)) relayConnected = length (sb_served s)"

lemma standby_lines [simp]: "relayUnavailable \<noteq> relayConnected" "relayConnected \<noteq> relayUnavailable"
  by (simp_all add: relayUnavailable_def relayConnected_def)

lemma standbyOk_new: "standbyOk newStandby"
  by (simp add: standbyOk_def newStandby_def relayRetryMin_def relayRetryMax_def)

lemma nextBackoff_bounds:
  "relayRetryMin \<le> b \<Longrightarrow> b \<le> relayRetryMax \<Longrightarrow> relayRetryMin \<le> nextBackoff b \<and> nextBackoff b \<le> relayRetryMax"
  by (simp add: nextBackoff_def relayRetryMin_def relayRetryMax_def Let_def)

lemma serveTurn_ok:
  assumes "standbyOk s"
  shows "standbyOk (snd (serveTurn C decode url ident t s))"
proof -
  note b = nextBackoff_bounds [of "sb_backoff s"]
  show ?thesis using assms b
    by (auto simp: serveTurn_def standbyOk_def Let_def relayRetryMin_def relayRetryMax_def split: sum.splits)
qed

lemma serveRelay_ok: "standbyOk s \<Longrightarrow> standbyOk (snd (serveRelay C decode url ident ts s))"
proof (induction ts arbitrary: s)
  case (Cons t ts)
  then show ?case using serveTurn_ok [OF Cons.prems, of C decode url ident t]
    by (auto split: prod.splits bool.splits)
qed simp

text \<open>A turn of an unreachable relay, and one of a relay that ends the wait by closing.\<close>

definition failingTurn :: "crypto \<Rightarrow> (bytes \<Rightarrow> control option) \<Rightarrow> string \<Rightarrow> identity \<Rightarrow> relayTurn \<Rightarrow> bool" where
  "failingTurn C decode url ident t \<longleftrightarrow> \<not> rt_stop t \<and> \<not> rt_stopAfter t \<and> \<not> rt_stopWaiting t
     \<and> (\<exists>e. turnListen C decode url ident t = Inl e \<and> \<not> isWaitTimeout e)"

definition closedTurn :: "crypto \<Rightarrow> (bytes \<Rightarrow> control option) \<Rightarrow> string \<Rightarrow> identity \<Rightarrow> relayTurn \<Rightarrow> bool" where
  "closedTurn C decode url ident t \<longleftrightarrow> \<not> rt_stop t
     \<and> (\<exists>code reason. turnListen C decode url ident t = Inl (RelayWs (WsCloseErr code reason)))"

definition schedule :: "nat \<Rightarrow> int" where "schedule k = min relayRetryMax (relayRetryMin * 2 ^ k)"

lemma schedule_Suc: "nextBackoff (schedule k) = schedule (Suc k)"
  by (simp add: nextBackoff_def schedule_def relayRetryMin_def relayRetryMax_def Let_def min_def)

lemma failing_run:
  assumes "\<forall>t \<in> set ts. failingTurn C decode url ident t" "sb_backoff s = schedule k"
  shows "fst (serveRelay C decode url ident ts s) = False
    \<and> sb_waits (snd (serveRelay C decode url ident ts s)) = sb_waits s @ map schedule [k..<k + length ts]
    \<and> sb_log (snd (serveRelay C decode url ident ts s)) = sb_log s @ (if ts = [] \<or> sb_announced s then [] else [relayUnavailable])"
  using assms
proof (induction ts arbitrary: s k)
  case (Cons t ts)
  have "\<exists>s1. serveTurn C decode url ident t s = (False, s1) \<and> sb_backoff s1 = schedule (Suc k)
    \<and> sb_waits s1 = sb_waits s @ [schedule k] \<and> sb_announced s1
    \<and> sb_log s1 = sb_log s @ (if sb_announced s then [] else [relayUnavailable])"
    using Cons.prems schedule_Suc [of k] by (auto simp: serveTurn_def failingTurn_def Let_def)
  then obtain s1 where 1: "serveTurn C decode url ident t s = (False, s1)" "sb_backoff s1 = schedule (Suc k)"
    "sb_waits s1 = sb_waits s @ [schedule k]" "sb_announced s1"
    "sb_log s1 = sb_log s @ (if sb_announced s then [] else [relayUnavailable])" by blast
  have "\<forall>t \<in> set ts. failingTurn C decode url ident t" using Cons.prems by simp
  note ih = Cons.IH [OF this 1(2)]
  have "map schedule [k..<k + length (t # ts)] = schedule k # map schedule [Suc k..<Suc k + length ts]"
    by (simp add: upt_conv_Cons del: upt_Suc)
  moreover have "serveRelay C decode url ident (t # ts) s = serveRelay C decode url ident ts s1"
    by (simp add: 1(1))
  ultimately show ?case using ih 1 by simp
qed simp

lemma closed_run:
  assumes "\<forall>t \<in> set ts. closedTurn C decode url ident t"
  shows "serveRelay C decode url ident ts s = (False, if ts = [] then s else s\<lparr>sb_backoff := relayRetryMin\<rparr>)"
  using assms
proof (induction ts arbitrary: s)
  case (Cons t ts)
  have "serveTurn C decode url ident t s = (False, s\<lparr>sb_backoff := relayRetryMin\<rparr>)"
    using Cons.prems by (auto simp: serveTurn_def closedTurn_def isWaitTimeout_def)
  then show ?case using Cons by auto
qed simp

section \<open>Properties\<close>

text \<open>Whatever the local network, the directory and the relay answer, a connection a join returns is to be
  proved by the ID the user typed; a pinned transport is the only one used; a direct path is only taken when the
  local network had none, and the relay only when no candidate of the peer's entry answered either.\<close>

theorem join_pins_target:
  assumes "fst (joinHost W target opts log) = Inr r"
  shows "jr_HostID r = target \<and> (jo_Force opts \<in> {PathLAN, PathDirect, PathRelay} \<longrightarrow> jr_Path r = jo_Force opts)
    \<and> (jo_Force opts = '''' \<and> jr_Path r \<noteq> PathLAN \<longrightarrow> onLAN W target opts = None)
    \<and> (jr_Path r \<noteq> PathLAN \<longrightarrow> (\<exists>peer. inDirectory W target opts = Inr peer \<and> jr_Fingerprint r = pp_Fingerprint peer
         \<and> (jo_Force opts = '''' \<and> jr_Path r = PathRelay \<longrightarrow> answeringDirectly W peer opts = None)))"
  using assms by (cases rule: joinHost_Inr) auto

text \<open>C35: without a pinned transport a join succeeds exactly when one of the three paths leads to the peer: it
  answers on the local network, or the directory knows it and either one of its candidates answers in time or it
  supports the relay and the relay pairs with it.\<close>

theorem join_falls_back:
  assumes "jo_Force opts = ''''"
  shows "(\<exists>r. fst (joinHost W target opts log) = Inr r) \<longleftrightarrow>
     onLAN W target opts \<noteq> None
     \<or> (\<exists>peer. inDirectory W target opts = Inr peer
          \<and> (answeringDirectly W peer opts \<noteq> None
             \<or> RelayProtocolVersion \<le> pp_Version peer \<and> (\<exists>s. onRelay W peer opts = Inr s)))"
proof (cases "onLAN W target opts")
  case (Some x)
  then show ?thesis using assms by (cases x) (simp add: joinHost_cases)
next
  case None
  show ?thesis
  proof (cases "inDirectory W target opts")
    case (Inl e)
    then show ?thesis using assms None by (simp add: joinHost_cases)
  next
    case (Inr peer)
    note eq = joinHost_cases [of W target opts log, unfolded Let_def assms None Inr option.case sum.case, simplified]
    show ?thesis
    proof (cases "answeringDirectly W peer opts")
      case (Some x)
      then show ?thesis using Inr by (cases x) (simp add: eq)
    next
      case none: None
      show ?thesis
        by (cases "onRelay W peer opts"; cases "pp_Version peer < RelayProtocolVersion") (simp_all add: eq none None Inr)
    qed
  qed
qed

text \<open>C36: the race of the direct candidates keeps the first connection that comes before the deadline and closes
  every other one exactly once, those that come after it has returned included; without any it returns the last
  error.\<close>

theorem dial_keeps_first:
  assumes "length early \<le> length endpoints" "distinct (map fst (connected (early @ late)))"
  shows "(case connected early of
      w # _ \<Rightarrow> fst (dialFastest endpoints early late) = Inr w
        \<and> mset (fst w # snd (dialFastest endpoints early late)) = mset (map fst (connected (early @ late)))
    | [] \<Rightarrow> fst (dialFastest endpoints early late) = Inl (if failures early = [] then ''no candidate answered in time'' else last (failures early))
        \<and> mset (snd (dialFastest endpoints early late)) = mset (map fst (connected late)))"
  using dialFastest_facts [OF assms] by (auto simp: held_def split: list.splits)

text \<open>C28: a candidate that has connected does not end the race: while the others neither connect nor all fail,
  the loop goes on waiting for them, until the timer fires.\<close>

theorem race_waits_for_stragglers:
  assumes "length fs + 1 < n"
  shows "\<not> fst (raceLoop (map Answered ((ep, Inr c) # map (\<lambda>(p, e). (p, Inl e)) fs)) (newRace n))
    \<and> fst (raceLoop (map Answered ((ep, Inr c) # map (\<lambda>(p, e). (p, Inl e)) fs) @ [DeadlinePassed]) (newRace n))"
proof
  let ?r = "(newRace n)\<lparr>ra_remaining := n - 1, ra_winner := Some (c, ep)\<rparr>"
  have "\<not> fst (raceLoop (map Answered (map (\<lambda>(p, e). (p, Inl e)) fs)) ?r)"
    using raceLoop_waits [of ?r "(c, ep)" "map (\<lambda>(p, e). (p, Inl e)) fs"] assms by simp
  then show "\<not> fst (raceLoop (map Answered ((ep, Inr c) # map (\<lambda>(p, e). (p, Inl e)) fs)) (newRace n))"
    using assms by (simp add: newRace_def)
  show "fst (raceLoop (map Answered ((ep, Inr c) # map (\<lambda>(p, e). (p, Inl e)) fs) @ [DeadlinePassed]) (newRace n))"
    by (intro raceLoop_ends) simp
qed


text \<open>C29: a relay that answers every wait by closing the connection is asked again at once, for ever: no delay is
  made and nothing is reported.\<close>

theorem closing_relay_hammered:
  assumes "\<forall>t \<in> set ts. closedTurn C decode url ident t"
  shows "fst (serveRelay C decode url ident ts newStandby) = False
    \<and> sb_waits (snd (serveRelay C decode url ident ts newStandby)) = []
    \<and> sb_log (snd (serveRelay C decode url ident ts newStandby)) = []"
  using closed_run [OF assms] by (simp add: newStandby_def)

section \<open>Samples\<close>

definition sampleLanJson :: lanJson where
  "sampleLanJson = \<lparr>lj_marshal = (\<lambda>p. []), lj_unmarshal = (\<lambda>b. None)\<rparr>"

definition quietLan :: lanNet where
  "quietLan = \<lparr>ln_socketOk = True, ln_sendOk = True, ln_replies = (\<lambda>q t. [])\<rparr>"

definition deadWs :: wsLibrary where
  "deadWs = \<lparr>wl_parse = (\<lambda>s. None), wl_splits = (\<lambda>s. False), wl_dial = (\<lambda>b s. None), wl_sha1 = (\<lambda>b. []), wl_response = (\<lambda>r. None)\<rparr>"

definition sampleBlob :: string where
  "sampleBlob = (case handleOf plainCrypto sampleID of
     Inr h \<Rightarrow> base64Encode (boxSeal plainX (entryKey plainCrypto sampleID) (replicate 24 0) [1] (associatedData h)) | Inl _ \<Rightarrow> '''')"

definition sampleJoin :: "nat joinWorld" where
  "sampleJoin = \<lparr>jw_lanJson = sampleLanJson, jw_lan = quietLan, jw_pb = samplePb sampleBlob, jw_http = sampleExchange,
     jw_pbRand = [], jw_pbClock = (\<lambda>k. 1000), jw_dial = (\<lambda>ep t. None),
     jw_early = (\<lambda>eps p b. [(hd eps, Inr 7)]), jw_late = (\<lambda>eps p b. []), jw_v6 = (\<lambda>s. None),
     jw_crypto = plainCrypto, jw_ws = deadWs, jw_control = (\<lambda>b. None), jw_issuedAt = 0, jw_now = (\<lambda>k. 0)\<rparr>"

definition sampleOptions :: joinOptions where
  "sampleOptions = \<lparr>jo_Identity = sampleHost, jo_PhonebookURL = '''', jo_RelayURL = '''', jo_LANTimeout = 0, jo_DirectTimeout = 0,
     jo_RelayTimeout = 0, jo_Force = ''''\<rparr>"

lemma sampleJoin_lan: "onLAN sampleJoin sampleID sampleOptions = None"
  by (simp add: onLAN_def findLAN_def sampleJoin_def quietLan_def)

lemma sampleJoin_directory:
  "\<exists>peer. inDirectory sampleJoin sampleID sampleOptions = Inr peer \<and> pp_Candidates peer = an_Candidates sampleAnnouncement"
proof -
  obtain h where h: "handleOf plainCrypto sampleID = Inr h" using sample_handle by blast
  let ?raw = "boxSeal plainX (entryKey plainCrypto sampleID) (replicate 24 0) [1] (associatedData h)"
  let ?e = "announcedEntry sampleID sampleAnnouncement ''0.1.0''"
  let ?c = "newClient sampleHost '''' [] (\<lambda>k. 1000)"
  have law: "xaead_law (pl_box (samplePb b))" for b using plainX_law by simp
  have "en_ID ?e = sampleID" by (simp add: announcedEntry_def)
  then have "openEntry (samplePb b) sampleID h (base64Encode ?raw) = Inr ?e" for b
    unfolding openEntry_iff [OF law] by (intro exI [of _ "replicate 24 0"] exI [of _ "[1]"]) (simp add: NonceSizeX_def MaxSealedBytes_def)
  then obtain p where "lookupPeer (samplePb (base64Encode ?raw)) sampleExchange sampleID ?c = (Inr p, ?c)"
    "pp_Candidates p = en_Candidates ?e"
    unfolding lookupPeer_Inr using h by (auto simp: sampleExchange_def)
  then show ?thesis
    by (auto simp: inDirectory_def sampleJoin_def sampleOptions_def sampleBlob_def h announcedEntry_def)
qed

lemma sampleJoin_direct:
  assumes "pp_Candidates peer = an_Candidates sampleAnnouncement"
  shows "answeringDirectly sampleJoin peer sampleOptions = Some (7, ''192.0.2.1:4242'')"
proof -
  have "TCPEndpoints (an_Candidates sampleAnnouncement) = [''192.0.2.1:4242'']" by code_simp
  then show ?thesis
    by (simp add: answeringDirectly_def assms Let_def dialFastest_def newRace_def sampleJoin_def)
qed

lemma sampleJoin_result: "\<exists>r. fst (joinHost sampleJoin sampleID sampleOptions []) = Inr r \<and> jr_Path r = PathDirect"
proof -
  obtain peer where p: "inDirectory sampleJoin sampleID sampleOptions = Inr peer" "pp_Candidates peer = an_Candidates sampleAnnouncement"
    using sampleJoin_directory by blast
  have "jo_Force sampleOptions = ''''" by (simp add: sampleOptions_def)
  then show ?thesis using p sampleJoin_lan sampleJoin_direct [OF p(2)] by (simp add: joinHost_cases)
qed

theorem join_pins_target_witness:
  "\<exists>r. fst (joinHost sampleJoin sampleID sampleOptions []) = Inr r \<and> jr_HostID r = sampleID \<and> jr_Path r \<noteq> PathRelay"
proof -
  obtain r where r: "fst (joinHost sampleJoin sampleID sampleOptions []) = Inr r" "jr_Path r = PathDirect"
    using sampleJoin_result by blast
  with join_pins_target [OF r(1)] show ?thesis by auto
qed

theorem join_falls_back_witness: "\<exists>r. fst (joinHost sampleJoin sampleID sampleOptions []) = Inr r"
proof -
  obtain peer where "inDirectory sampleJoin sampleID sampleOptions = Inr peer" "pp_Candidates peer = an_Candidates sampleAnnouncement"
    using sampleJoin_directory by blast
  then show ?thesis using join_falls_back [of sampleOptions sampleJoin sampleID "[]"] sampleJoin_direct [of peer]
    by (auto simp: sampleOptions_def)
qed

theorem dial_keeps_first_witness:
  "dialFastest [''a'', ''b'', ''c''] [(''b'', Inl ''refused''), (''c'', Inr (3 :: nat))] [(''a'', Inr 1)] = (Inr (3, ''c''), [1])
   \<and> fst (dialFastest [''a'', ''b'', ''c''] [(''b'', Inl ''refused''), (''c'', Inr (3 :: nat))] [(''a'', Inr 1)]) = Inr (3, ''c'')"
  using dial_keeps_first [of "[(''b'', Inl ''refused''), (''c'', Inr (3 :: nat))]" "[''a'', ''b'', ''c'']" "[(''a'', Inr 1)]"]
  by (simp add: dialFastest_def newRace_def)

theorem race_waits_for_stragglers_witness:
  "\<not> fst (raceLoop (map Answered [(''a'', Inr (7 :: nat)), (''b'', Inl ''refused'')]) (newRace 3))"
  using race_waits_for_stragglers [of "[(''b'', ''refused'')]" 3 "''a''" "7 :: nat"] by simp

definition deadTurn :: relayTurn where
  "deadTurn = \<lparr>rt_stop = False, rt_ws = deadWs, rt_issuedAt = 0, rt_now = (\<lambda>k. 0), rt_stopAfter = False, rt_stopWaiting = False\<rparr>"


text \<open>A relay that pairs with nobody: it closes the connection as soon as it is open, as it does with a standby that
  another one of the same ID replaces.\<close>

definition closingWs :: wsLibrary where
  "closingWs = \<lparr>wl_parse = (\<lambda>s. Some \<lparr>pu_Scheme = ''wss'', pu_Host = ''r'', pu_RequestURI = ''''\<rparr>), wl_splits = (\<lambda>s. True),
     wl_dial = (\<lambda>b s. Some \<lparr>ws_in = \<lparr>inBytes = [], inEnd = EOF\<rparr>, ws_out = \<lparr>outBytes = [], outRoom = None\<rparr>,
        ws_rand = replicate 32 0, ws_pending = [], ws_control = [], ws_closed = False\<rparr>),
     wl_sha1 = (\<lambda>b. []),
     wl_response = (\<lambda>r. Some (\<lparr>hr_status = 101, hr_accept = '''', hr_body = []\<rparr>, \<lparr>inBytes = [0x88, 2, 0x0F, 0xA3], inEnd = EOF\<rparr>))\<rparr>"

definition closingTurn :: relayTurn where
  "closingTurn = deadTurn\<lparr>rt_ws := closingWs\<rparr>"

lemma closingTurn_headers:
  "\<exists>hs. headerLines (authHeaders plainCrypto sampleHost ''host'' sampleID 0) = Some hs"
proof -
  have "headerLines (authHeaders plainCrypto sampleHost ''host'' sampleID 0) \<noteq> None" by code_simp
  then show ?thesis by blast
qed

lemma closing_control:
  assumes "inBytes (ws_in c) = [0x88, 2, 0x0F, 0xA3]" "ws_control c = []"
  shows "fst (nextControl c) = Inl (WsCloseErr 4003 '''')"
proof -
  have u: "unat ((2 :: byte) AND 0x7F) = 2" "(0x88 :: byte) AND 0x0F = opClose" "opClose \<noteq> opPing" "opClose \<noteq> opPong"
    "parseClose [0x0F, 0xA3] = (4003, '''')" "(2 :: byte) AND 0x80 = 0"
    by code_simp+
  obtain i where c: "ws_in c = \<lparr>inBytes = [0x88, 2, 0x0F, 0xA3], inEnd = i\<rparr>"
    using assms(1) by (cases "ws_in c") simp
  have "\<exists>c1. wsFrameIn c = (Inr (True, opClose, [0x0F, 0xA3]), c1)"
    by (simp add: wsFrameIn_def wsReadLength_def wsFull_def bindS_def retS_def c u maxFrameBytes_def Let_def opClose_def)
  then show ?thesis using assms(2) u
    by (auto simp: nextControl_def wsControlLoop.simps [of c] wsReadFrame_def wsReadLoop.simps [of 0 "[]" False c])
qed

lemma closingTurn_closed: "closedTurn plainCrypto (\<lambda>b. None) '''' sampleHost closingTurn"
proof -
  obtain hs where h: "headerLines (authHeaders plainCrypto sampleHost ''host'' sampleID 0) = Some hs"
    using closingTurn_headers by blast
  obtain c where d: "dialWebSocket closingWs url (authHeaders plainCrypto sampleHost ''host'' sampleID 0) = Inr c"
    and c: "inBytes (ws_in c) = [0x88, 2, 0x0F, 0xA3]" "ws_control c = []" for url
  proof -
    have "\<exists>c. (\<forall>url. dialWebSocket closingWs url (authHeaders plainCrypto sampleHost ''host'' sampleID 0) = Inr c)
        \<and> inBytes (ws_in c) = [0x88, 2, 0x0F, 0xA3] \<and> ws_control c = []"
      by (simp add: dialWebSocket_def closingWs_def bindE_def fromOption_def wsTarget_def withDefaultPort_def upgradeRequest_def h
          wsAccept_def Let_def)
    then show ?thesis using that by blast
  qed
  have "fst (awaitPeerLoop (\<lambda>b. None) (\<lambda>k. 0) relayWaitWindow 1 c) = Inl (RelayWs (WsCloseErr 4003 ''''))"
    using closing_control [OF c] by (cases "nextControl c") (simp add: awaitPeerLoop.simps [of _ _ _ _ c] relayWaitWindow_def)
  then obtain c' where "awaitPeerLoop (\<lambda>b. None) (\<lambda>k. 0) relayWaitWindow 1 c = (Inl (RelayWs (WsCloseErr 4003 '''')), c')"
    by (metis fst_conv surj_pair)
  then show ?thesis
    by (simp add: closedTurn_def closingTurn_def deadTurn_def turnListen_def relayListen_def relayOpen_def d awaitPeer_def)
qed

theorem closing_relay_hammered_witness:
  "sb_waits (snd (serveRelay plainCrypto (\<lambda>b. None) '''' sampleHost (replicate 1000 closingTurn) newStandby)) = []"
  using closing_relay_hammered [of "replicate 1000 closingTurn" plainCrypto "\<lambda>b. None" "''''" sampleHost] closingTurn_closed by simp

end
