(* ===== verification/Update.thy ===== *)
theory Update
  imports Profile
begin

text \<open>
  \<^verbatim>\<open>internal/update/update.go\<close>: reading release versions, comparing them, and the check against the
  latest release. The HTTP client and the JSON decoder are parameters.
\<close>

section \<open>Versions\<close>

definition trimPrefix :: "string \<Rightarrow> string \<Rightarrow> string" where
  "trimPrefix s p = (if take (length p) s = p then drop (length p) s else s)"

fun splitOn :: "char \<Rightarrow> string \<Rightarrow> string list" where
  "splitOn d [] = [[]]"
| "splitOn d (c # s) = (if c = d then [] # splitOn d s else (case splitOn d s of f # fs \<Rightarrow> (c # f) # fs | [] \<Rightarrow> [[c]]))"

definition digitVal :: "char \<Rightarrow> nat option" where
  "digitVal c = (let x = of_char c :: nat in if 48 \<le> x \<and> x \<le> 57 then Some (x - 48) else None)"

fun digitsVal :: "nat \<Rightarrow> string \<Rightarrow> nat option" where
  "digitsVal a [] = Some a"
| "digitsVal a (c # s) = (case digitVal c of None \<Rightarrow> None | Some d \<Rightarrow> digitsVal (10 * a + d) s)"

text \<open>\<^verbatim>\<open>strconv.Atoi\<close> with a 64-bit int: an optional sign, at least one digit, and the range.\<close>

definition atoi :: "string \<Rightarrow> int option" where
  "atoi s =
     (case s of
        [] \<Rightarrow> None
      | c # t \<Rightarrow>
          (let neg = (c = CHR ''-''); body = (if c = CHR ''-'' \<or> c = CHR ''+'' then t else s)
           in if body = [] then None
              else case digitsVal 0 body of
                None \<Rightarrow> None
              | Some n \<Rightarrow> (if neg then (if n \<le> 2 ^ 63 then Some (- int n) else None)
                            else if n < 2 ^ 63 then Some (int n) else None)))"

fun parseFields :: "string list \<Rightarrow> int list option" where
  "parseFields [] = Some []"
| "parseFields (f # fs) =
     (case atoi f of
        None \<Rightarrow> None
      | Some n \<Rightarrow> if n < 0 then None else map_option ((#) n) (parseFields fs))"

definition parseVersion :: "string \<Rightarrow> int list option" where
  "parseVersion version =
     (let v0 = trimPrefix (trimSpace version) ''v'';
          v = takeWhile (\<lambda>c. c \<noteq> CHR ''-'' \<and> c \<noteq> CHR ''+'') v0
      in if v = '''' then None
         else let fs = splitOn CHR ''.'' v in if length fs \<noteq> 3 then None else parseFields fs)"

fun newerFields :: "int list \<Rightarrow> int list \<Rightarrow> bool" where
  "newerFields (l # ls) (c # cs) = (if l \<noteq> c then l > c else newerFields ls cs)"
| "newerFields _ _ = False"

definition newer :: "string \<Rightarrow> string \<Rightarrow> bool" where
  "newer latest current =
     (case parseVersion latest of
        None \<Rightarrow> False
      | Some l \<Rightarrow> (case parseVersion current of None \<Rightarrow> False | Some c \<Rightarrow> newerFields l c))"

section \<open>The check\<close>

record release =
  rl_Version :: string
  rl_URL :: string
  rl_Name :: string

record httpAnswer =
  ha_status :: int
  ha_body :: bytes

datatype updateErr = NotARelease | UpdateNetwork | UpdateStatus int | UpdateBody

definition updateRepo :: string where "updateRepo = ''ESP32-S3/CMD-Chat''"

definition trimRightSlash :: "string \<Rightarrow> string" where
  "trimRightSlash s = rev (dropWhile (\<lambda>c. c = CHR ''/'') (rev s))"

definition updateDisabled :: "string \<Rightarrow> bool" where
  "updateDisabled env \<longleftrightarrow> trimSpace env \<noteq> ''''"

definition updateURL :: "string \<Rightarrow> string" where
  "updateURL base = trimRightSlash base @ ''/repos/'' @ updateRepo @ ''/releases/latest''"

definition checkUpdate ::
  "(string \<Rightarrow> (string \<times> string) list \<Rightarrow> httpAnswer option) \<Rightarrow> (bytes \<Rightarrow> release option) \<Rightarrow> string \<Rightarrow> string \<Rightarrow> string
     \<Rightarrow> updateErr + release option" where
  "checkUpdate http decode base env current =
     (if updateDisabled env then Inr None
      else if parseVersion current = None then Inl NotARelease
      else case http (updateURL base) [(''Accept'', ''application/vnd.github+json''), (''User-Agent'', ''cmd-chat/'' @ current)] of
        None \<Rightarrow> Inl UpdateNetwork
      | Some a \<Rightarrow>
          (if ha_status a \<noteq> 200 then Inl (UpdateStatus (ha_status a))
           else case decode (ha_body a) of
             None \<Rightarrow> Inl UpdateBody
           | Some latest \<Rightarrow> if \<not> newer (rl_Version latest) current then Inr None else Inr (Some latest)))"

section \<open>Reading what releases are called\<close>

lemma runes_ascii: "\<forall>b \<in> set bs. unat b < 0x80 \<Longrightarrow> runes bs = map unat bs"
  by (induction bs) (simp_all add: decodeRune_def Let_def)

lemma utf8_ascii: "\<forall>b \<in> set bs. unat b < 0x80 \<Longrightarrow> utf8 (map unat bs) = bs"
  by (induction bs) (simp_all add: utf8_Cons runeBytes_def, simp add: utf8_def)

lemma isSpaceRune_small: "isSpaceRune n \<Longrightarrow> n \<le> 0x20 \<or> 0x85 \<le> n"
  by (auto simp: isSpaceRune_def)

lemma decimalNat_digits: "c \<in> set (decimalNat n) \<Longrightarrow> \<exists>k<10. c = char_of (48 + k :: nat)"
proof (induction n rule: decimalNat.induct)
  case (1 n)
  show ?case
  proof (cases "n < 10")
    case True
    then show ?thesis using "1.prems" by (auto simp: decimalNat.simps [of n])
  next
    case False
    then have "c \<in> set (decimalNat (n div 10)) \<or> c = char_of (48 + n mod 10 :: nat)"
      using "1.prems" by (auto simp: decimalNat.simps [of n])
    then show ?thesis using "1.IH" [OF False] by (metis mod_less_divisor zero_less_numeral)
  qed
qed

lemma decimalNat_ne [simp]: "decimalNat n \<noteq> []"
  by (simp add: decimalNat.simps [of n])

lemma digitVal_digit: "k < 10 \<Longrightarrow> digitVal (char_of (48 + k :: nat)) = Some k"
  by (simp add: digitVal_def)

lemma digitsVal_append: "digitsVal a (s @ t) = (case digitsVal a s of None \<Rightarrow> None | Some b \<Rightarrow> digitsVal b t)"
  by (induction s arbitrary: a) (simp_all split: option.split)

lemma digitsVal_decimal: "digitsVal 0 (decimalNat n) = Some n"
proof (induction n rule: decimalNat.induct)
  case (1 n)
  show ?case
  proof (cases "n < 10")
    case True
    then show ?thesis by (simp add: decimalNat.simps [of n] digitVal_digit)
  next
    case False
    then show ?thesis using "1.IH" [OF False] digitVal_digit [of "n mod 10"]
      by (simp add: decimalNat.simps [of n] digitsVal_append)
  qed
qed

definition plainDigit :: "nat \<Rightarrow> bool" where
  "plainDigit k \<longleftrightarrow> (let c = char_of (48 + k) in c \<noteq> CHR ''-'' \<and> c \<noteq> CHR ''+'' \<and> c \<noteq> CHR ''.'' \<and> c \<noteq> CHR ''v''
     \<and> 0x20 < unat (byteOf c) \<and> unat (byteOf c) < 0x80)"

lemma decimal_plain:
  assumes "c \<in> set (decimalNat n)"
  shows "c \<noteq> CHR ''-''" "c \<noteq> CHR ''+''" "c \<noteq> CHR ''.''" "c \<noteq> CHR ''v''" "0x20 < unat (byteOf c)" "unat (byteOf c) < 0x80"
proof -
  have a: "list_all plainDigit [0..<10]" by code_simp
  from decimalNat_digits [OF assms] obtain k where "k < 10" and c: "c = char_of (48 + k :: nat)" by blast
  then have "plainDigit k" using a unfolding list_all_iff by simp
  then show "c \<noteq> CHR ''-''" "c \<noteq> CHR ''+''" "c \<noteq> CHR ''.''" "c \<noteq> CHR ''v''" "0x20 < unat (byteOf c)" "unat (byteOf c) < 0x80"
    unfolding plainDigit_def c Let_def by blast+
qed

lemma atoi_decimal: "n < 2 ^ 63 \<Longrightarrow> atoi (decimalNat n) = Some (int n)"
proof -
  assume n: "n < 2 ^ 63"
  obtain c t where ct: "decimalNat n = c # t" by (cases "decimalNat n") simp_all
  then have "c \<noteq> CHR ''-''" "c \<noteq> CHR ''+''" using decimal_plain [of c n] by simp_all
  then show ?thesis using n ct digitsVal_decimal [of n] by (simp add: atoi_def)
qed

lemma splitOn_word: "d \<notin> set w \<Longrightarrow> splitOn d w = [w]"
  by (induction w) auto

lemma splitOn_append: "d \<notin> set w \<Longrightarrow> splitOn d (w @ d # s) = w # splitOn d s"
  by (induction w) auto

definition releaseText :: "nat \<Rightarrow> nat \<Rightarrow> nat \<Rightarrow> string" where
  "releaseText a b c = decimalNat a @ CHR ''.'' # decimalNat b @ CHR ''.'' # decimalNat c"

lemma releaseText_chars:
  assumes "x \<in> set (releaseText a b c)"
  shows "x \<noteq> CHR ''-''" "x \<noteq> CHR ''+''" "x \<noteq> CHR ''v''" "0x20 < unat (byteOf x)" "unat (byteOf x) < 0x80"
proof -
  have dot: "plainDot" if "plainDot \<longleftrightarrow> 0x20 < unat (byteOf CHR ''.'') \<and> unat (byteOf CHR ''.'') < 0x80" for plainDot
    unfolding that by code_simp
  from assms have "x = CHR ''.'' \<or> (\<exists>n. x \<in> set (decimalNat n))" by (auto simp: releaseText_def)
  then show "x \<noteq> CHR ''-''" "x \<noteq> CHR ''+''" "x \<noteq> CHR ''v''" "0x20 < unat (byteOf x)" "unat (byteOf x) < 0x80"
    using decimal_plain(1,2,4,5,6) [of x] dot [OF refl] by blast+
qed

definition letterV :: bool where
  "letterV \<longleftrightarrow> 0x20 < unat (byteOf CHR ''v'') \<and> unat (byteOf CHR ''v'') < 0x80"

lemma parse_release:
  assumes "a < 2 ^ 63" "b < 2 ^ 63" "c < 2 ^ 63"
  shows "parseVersion (''v'' @ releaseText a b c) = Some [int a, int b, int c]"
    "parseVersion (releaseText a b c) = Some [int a, int b, int c]"
proof -
  let ?r = "releaseText a b c"
  have ne: "?r \<noteq> []" by (simp add: releaseText_def)
  have "letterV" by code_simp
  then have v: "0x20 < unat (byteOf CHR ''v'')" "unat (byteOf CHR ''v'') < 0x80" by (simp_all add: letterV_def)
  have lastr: "last ?r \<in> set ?r" "hd ?r \<in> set ?r" using ne by simp_all
  have t1: "trimSpace (''v'' @ ?r) = ''v'' @ ?r"
    using releaseText_chars(4,5) [of _ a b c] v ne lastr releaseText_chars(4) [OF lastr(1)] by (intro trimSpace_none) (auto simp: toBytes_def last_map hd_map)
  have t2: "trimSpace ?r = ?r"
    using releaseText_chars(4,5) [of _ a b c] ne releaseText_chars(4) [OF lastr(1)] releaseText_chars(4) [OF lastr(2)]
    by (intro trimSpace_none) (auto simp: toBytes_def last_map hd_map)
  have hd: "hd ?r \<noteq> CHR ''v''" using lastr releaseText_chars by blast
  have p1: "trimPrefix (''v'' @ ?r) ''v'' = ?r" by (simp add: trimPrefix_def)
  have p2: "trimPrefix ?r ''v'' = ?r" using hd ne by (cases ?r) (simp_all add: trimPrefix_def)
  have w: "takeWhile (\<lambda>c. c \<noteq> CHR ''-'' \<and> c \<noteq> CHR ''+'') ?r = ?r" using releaseText_chars(1,2) by (auto simp: takeWhile_eq_all_conv)
  have d: "CHR ''.'' \<notin> set (decimalNat n)" for n using decimal_plain(3) by blast
  have "splitOn CHR ''.'' ?r = [decimalNat a, decimalNat b, decimalNat c]"
    by (simp add: releaseText_def splitOn_append [OF d] splitOn_word [OF d])
  moreover have "parseFields [decimalNat a, decimalNat b, decimalNat c] = Some [int a, int b, int c]"
    by (simp add: atoi_decimal [OF assms(1)] atoi_decimal [OF assms(2)] atoi_decimal [OF assms(3)])
  ultimately show "parseVersion (''v'' @ ?r) = Some [int a, int b, int c]" "parseVersion ?r = Some [int a, int b, int c]"
    unfolding parseVersion_def t1 t2 p1 p2 Let_def w using ne by simp_all
qed

lemma newerFields_irrefl: "\<not> newerFields l l"
  by (induction l) auto

lemma newerFields_trans: "newerFields a b \<Longrightarrow> newerFields b c \<Longrightarrow> newerFields a c"
proof (induction a b arbitrary: c rule: newerFields.induct)
  case (1 l ls d ds)
  then show ?case by (cases c) (auto split: if_splits)
qed auto

lemma parseFields_length: "parseFields fs = Some ns \<Longrightarrow> length ns = length fs"
  by (induction fs arbitrary: ns) (auto split: option.splits if_splits)

lemma parseVersion_length: "parseVersion s = Some ns \<Longrightarrow> length ns = 3"
  by (auto simp: parseVersion_def Let_def dest: parseFields_length split: if_splits)

lemma newerFields_total: "length a = length b \<Longrightarrow> a \<noteq> b \<Longrightarrow> newerFields a b \<or> newerFields b a"
  by (induction a b rule: list_induct2) auto

text \<open>\<^verbatim>\<open>Newer\<close> is a strict order on versions, total up to equal numbers, that anything unreadable stays out
  of; and on the names releases have, \<^verbatim>\<open>major.minor.patch\<close> with or without the \<^verbatim>\<open>v\<close>, it is the numeric
  comparison of the three numbers from the left, so 1.10.0 is newer than 1.9.9.\<close>

theorem newer_orders_releases:
  assumes "a < 2 ^ 63" "b < 2 ^ 63" "c < 2 ^ 63" "a' < 2 ^ 63" "b' < 2 ^ 63" "c' < 2 ^ 63"
  shows "(newer (''v'' @ releaseText a b c) (releaseText a' b' c') \<longleftrightarrow>
       a' < a \<or> a' = a \<and> (b' < b \<or> b' = b \<and> c' < c))
     \<and> \<not> newer u u \<and> (newer u v \<and> newer v w \<longrightarrow> newer u w)
     \<and> (parseVersion u = None \<longrightarrow> \<not> newer u v \<and> \<not> newer v u)
     \<and> (parseVersion u \<noteq> None \<and> parseVersion v \<noteq> None \<longrightarrow> newer u v \<or> newer v u \<or> parseVersion u = parseVersion v)"
proof (intro conjI)
  show "newer (''v'' @ releaseText a b c) (releaseText a' b' c') \<longleftrightarrow> a' < a \<or> a' = a \<and> (b' < b \<or> b' = b \<and> c' < c)"
    unfolding newer_def parse_release(1) [OF assms(1-3)] parse_release(2) [OF assms(4-6)] by auto
  show "\<not> newer u u" by (simp add: newer_def newerFields_irrefl split: option.split)
  show "newer u v \<and> newer v w \<longrightarrow> newer u w" using newerFields_trans by (auto simp: newer_def split: option.splits)
  show "parseVersion u = None \<longrightarrow> \<not> newer u v \<and> \<not> newer v u" by (auto simp: newer_def split: option.splits)
  show "parseVersion u \<noteq> None \<and> parseVersion v \<noteq> None \<longrightarrow> newer u v \<or> newer v u \<or> parseVersion u = parseVersion v"
  proof (intro impI, elim conjE)
    assume "parseVersion u \<noteq> None" "parseVersion v \<noteq> None"
    then obtain p q where pq: "parseVersion u = Some p" "parseVersion v = Some q" by blast
    then have "length p = length q" using parseVersion_length by metis
    then show "newer u v \<or> newer v u \<or> parseVersion u = parseVersion v"
      using newerFields_total [of p q] pq by (auto simp: newer_def)
  qed
qed

theorem newer_orders_releases_witness:
  "newer (''v'' @ releaseText 1 10 0) (releaseText 1 9 9) \<and> \<not> newer (''v'' @ releaseText 1 9 9) (releaseText 1 10 0)"
  using newer_orders_releases [of 1 10 0 1 9 9 "''''" "''''" "''''"] newer_orders_releases [of 1 9 9 1 10 0 "''''" "''''" "''''"] by simp

lemma check_reports_newer:
  "checkUpdate http decode base env current = Inr (Some r) \<Longrightarrow>
     \<not> updateDisabled env \<and> newer (rl_Version r) current
     \<and> (\<exists>a hs. http (updateURL base) hs = Some a \<and> ha_status a = 200 \<and> decode (ha_body a) = Some r)"
  by (auto simp: checkUpdate_def split: if_splits option.splits)

end
