(* ===== verification/IdentityStore.thy ===== *)
theory IdentityStore
  imports Base64 Identity GoUnicode XChaCha
begin

text \<open>
  \<^verbatim>\<open>internal/identity/store.go\<close> with \<^verbatim>\<open>dpapi_other.go\<close>, \<^verbatim>\<open>dpapi_windows.go\<close> and \<^verbatim>\<open>LoadOrCreate\<close>: the identity on
  disk, the three ways its key is protected, and the guards around replacing the only copy of a key. The
  file system, the JSON encoding, scrypt, the cipher and Windows' data protection are parameters.
\<close>

section \<open>The world of the store\<close>

record storedIdentity =
  si_Version :: int
  si_ID :: string
  si_PublicKey :: string
  si_Protection :: string
  si_PrivateKey :: string
  si_Sealed :: string
  si_Salt :: string

definition ProtectionNone :: string where "ProtectionNone = ''none''"
definition ProtectionDPAPI :: string where "ProtectionDPAPI = ''dpapi''"
definition ProtectionPassphrase :: string where "ProtectionPassphrase = ''passphrase''"

lemmas protection_defs = ProtectionNone_def ProtectionDPAPI_def ProtectionPassphrase_def

definition saltLen :: nat where "saltLen = 32"
definition storeVersion :: int where "storeVersion = 2"

text \<open>The steps of the atomic write, any of which the system may refuse.\<close>

datatype tempStep = CreateTemp | ChmodTemp | WriteTemp | SyncTemp | CloseTemp | RenameTemp

datatype storeErr =
    StRefuseInconsistent
  | StNoDir
  | StNotExist
  | StUnreadable
  | StJson
  | StPublicKey
  | StPrivateKey
  | StSealedText
  | StSaltText
  | StNoPassphrase
  | StTruncated
  | StWrongPassphrase
  | StDpapi
  | StSeedSize
  | StUnknownProtection string
  | StInconsistent
  | StRandom
  | StMismatch
  | StNotReadBack storeErr
  | StTemp tempStep
  | StPanic
  | StCannotOpen storeErr

text \<open>Windows' \<^verbatim>\<open>crypt32.dll\<close>: whether it and its two procedures are there, and the procedures with the
  entropy they are called with. Every other platform has no such service.\<close>

record crypt32 =
  c32_found :: bool
  c32_protect :: "bytes \<Rightarrow> bytes \<Rightarrow> bytes option"
  c32_unprotect :: "bytes \<Rightarrow> bytes \<Rightarrow> bytes option"

datatype platform = Windows crypt32 | OtherPlatform

datatype fileState = Missing | Unreadable | Content bytes

record storeLib =
  sl_crypto :: crypto
  sl_scrypt :: "bytes \<Rightarrow> bytes \<Rightarrow> bytes"
  sl_box :: xaead
  sl_marshal :: "storedIdentity \<Rightarrow> bytes"
  sl_unmarshal :: "bytes \<Rightarrow> storedIdentity option"
  sl_platform :: platform

record storeWorld =
  sw_passEnv :: string
  sw_dirOk :: bool
  sw_file :: fileState
  sw_rand :: bytes
  sw_refuses :: "tempStep option"

type_synonym 'a storeOp = "(storeWorld, storeErr, 'a) prog"

section \<open>Windows data protection\<close>

definition dpapiEntropy :: bytes where "dpapiEntropy = toBytes ''CMD-Chat identity v2 DPAPI entropy''"

definition dpapiAvailable :: "platform \<Rightarrow> bool" where
  "dpapiAvailable p = (case p of Windows k \<Rightarrow> c32_found k | OtherPlatform \<Rightarrow> False)"

definition dpapiProtect :: "platform \<Rightarrow> bytes \<Rightarrow> storeErr + bytes" where
  "dpapiProtect p plaintext =
     (case p of
        OtherPlatform \<Rightarrow> Inl StDpapi
      | Windows k \<Rightarrow>
          (if plaintext = [] then Inl StDpapi
           else if \<not> c32_found k then Inl StPanic
           else fromOption StDpapi (c32_protect k plaintext dpapiEntropy)))"

definition dpapiUnprotect :: "platform \<Rightarrow> bytes \<Rightarrow> storeErr + bytes" where
  "dpapiUnprotect p sealed =
     (case p of
        OtherPlatform \<Rightarrow> Inl StDpapi
      | Windows k \<Rightarrow>
          (if sealed = [] then Inl StDpapi
           else if \<not> c32_found k then Inl StPanic
           else fromOption StDpapi (c32_unprotect k sealed dpapiEntropy)))"

section \<open>The passphrase\<close>

definition passphrase :: "storeWorld \<Rightarrow> string" where "passphrase w = trimSpace (sw_passEnv w)"

definition preferredProtection :: "storeLib \<Rightarrow> storeWorld \<Rightarrow> string" where
  "preferredProtection L w =
     (if passphrase w \<noteq> '''' then ProtectionPassphrase
      else if dpapiAvailable (sl_platform L) then ProtectionDPAPI
      else ProtectionNone)"

definition derivePassphraseKey :: "storeLib \<Rightarrow> storeWorld \<Rightarrow> bytes \<Rightarrow> storeErr + bytes" where
  "derivePassphraseKey L w salt =
     (if passphrase w = '''' then Inl StNoPassphrase else Inr (sl_scrypt L (toBytes (passphrase w)) salt))"

definition identityAD :: bytes where "identityAD = toBytes ''cmd-chat identity v2''"

definition randomBytes :: "nat \<Rightarrow> bytes storeOp" where
  "randomBytes k w =
     (if length (sw_rand w) < k then (Inl StRandom, w)
      else (Inr (take k (sw_rand w)), w\<lparr>sw_rand := drop k (sw_rand w)\<rparr>))"

definition sealPassphrase :: "storeLib \<Rightarrow> bytes \<Rightarrow> (bytes \<times> bytes) storeOp" where
  "sealPassphrase L seed =
     bindS (randomBytes saltLen) (\<lambda>salt.
     bindS (\<lambda>w. (derivePassphraseKey L w salt, w)) (\<lambda>key.
     bindS (randomBytes NonceSizeX) (\<lambda>nonce.
     retS (boxSeal (sl_box L) key nonce seed identityAD, salt))))"

definition openPassphrase :: "storeLib \<Rightarrow> storeWorld \<Rightarrow> bytes \<Rightarrow> bytes \<Rightarrow> storeErr + bytes" where
  "openPassphrase L w sealed salt =
     bindE (derivePassphraseKey L w salt) (\<lambda>key.
     bindE (guardE (NonceSizeX \<le> length sealed) StTruncated) (\<lambda>_.
     fromOption StWrongPassphrase (boxOpen (sl_box L) key sealed identityAD)))"

section \<open>Saving\<close>

definition verifySeal :: "storeLib \<Rightarrow> storeWorld \<Rightarrow> storedIdentity \<Rightarrow> identity \<Rightarrow> storeErr + unit" where
  "verifySeal L w s want =
     (if si_Protection s = '''' \<or> si_Protection s = ProtectionNone then
        bindE (fromOption StPrivateKey (base64Decode (si_PrivateKey s))) (\<lambda>raw.
        guardE (raw = idn_PrivateKey want) StMismatch)
      else if si_Protection s = ProtectionPassphrase then
        bindE (fromOption StSealedText (base64Decode (si_Sealed s))) (\<lambda>sealed.
        bindE (fromOption StSaltText (base64Decode (si_Salt s))) (\<lambda>salt.
        bindE (openPassphrase L w sealed salt) (\<lambda>seed.
        guardE (seed = privSeed (idn_PrivateKey want)) StMismatch)))
      else if si_Protection s = ProtectionDPAPI then
        bindE (fromOption StSealedText (base64Decode (si_Sealed s))) (\<lambda>sealed.
        bindE (dpapiUnprotect (sl_platform L) sealed) (\<lambda>seed.
        guardE (seed = privSeed (idn_PrivateKey want)) StMismatch))
      else Inl (StUnknownProtection (si_Protection s)))"

definition plainStored :: "identity \<Rightarrow> string \<Rightarrow> storedIdentity" where
  "plainStored i protection =
     \<lparr>si_Version = storeVersion, si_ID = idn_ID i, si_PublicKey = base64Encode (idn_PublicKey i), si_Protection = protection,
      si_PrivateKey = '''', si_Sealed = '''', si_Salt = ''''\<rparr>"

text \<open>A panic of \<^verbatim>\<open>dpapiProtect\<close> is no error to fall back from; it cannot arise where data protection is preferred.\<close>

definition sealStored :: "storeLib \<Rightarrow> identity \<Rightarrow> storedIdentity storeOp" where
  "sealStored L i w =
     (let p = preferredProtection L w; s = plainStored i p; seed = privSeed (idn_PrivateKey i) in
      if p = ProtectionPassphrase then
        bindS (sealPassphrase L seed) (\<lambda>(sealed, salt). retS (s\<lparr>si_Sealed := base64Encode sealed, si_Salt := base64Encode salt\<rparr>)) w
      else if p = ProtectionDPAPI then
        (case dpapiProtect (sl_platform L) seed of
           Inl e \<Rightarrow> (Inr (s\<lparr>si_Protection := ProtectionNone, si_PrivateKey := base64Encode (idn_PrivateKey i)\<rparr>), w)
         | Inr sealed \<Rightarrow> (Inr (s\<lparr>si_Sealed := base64Encode sealed\<rparr>), w))
      else (Inr (s\<lparr>si_PrivateKey := base64Encode (idn_PrivateKey i)\<rparr>), w))"

text \<open>The temporary file, its permissions, contents and flush, and the rename: a refused step leaves
  \<^verbatim>\<open>identity.json\<close> as it was.\<close>

definition replaceFile :: "bytes \<Rightarrow> unit storeOp" where
  "replaceFile data w =
     (case sw_refuses w of
        Some step \<Rightarrow> (Inl (StTemp step), w)
      | None \<Rightarrow> (Inr (), w\<lparr>sw_file := Content data\<rparr>))"

definition saveIdentity :: "storeLib \<Rightarrow> identity \<Rightarrow> unit storeOp" where
  "saveIdentity L i =
     bindS (liftS (guardE (valid (sl_crypto L) (Some i)) StRefuseInconsistent)) (\<lambda>_.
     bindS (\<lambda>w. (guardE (sw_dirOk w) StNoDir, w)) (\<lambda>_.
     bindS (sealStored L i) (\<lambda>s.
     bindS (\<lambda>w. (mapErr StNotReadBack (verifySeal L w s i), w)) (\<lambda>_.
     replaceFile (sl_marshal L s)))))"

section \<open>Loading\<close>

definition readFile :: "storeWorld \<Rightarrow> storeErr + bytes" where
  "readFile w =
     (if \<not> sw_dirOk w then Inl StNoDir
      else case sw_file w of Missing \<Rightarrow> Inl StNotExist | Unreadable \<Rightarrow> Inl StUnreadable | Content d \<Rightarrow> Inr d)"

definition storedProtection :: "storeLib \<Rightarrow> storeWorld \<Rightarrow> storeErr + string" where
  "storedProtection L w =
     bindE (readFile w) (\<lambda>d.
     bindE (fromOption StJson (sl_unmarshal L d)) (\<lambda>s.
     Inr (if si_Protection s = '''' then ProtectionNone else si_Protection s)))"

text \<open>\<^verbatim>\<open>ed25519.NewKeyFromSeed\<close> panics on a seed of another size; only the DPAPI branch checks first.\<close>

definition expandSeed :: "storeLib \<Rightarrow> bytes \<Rightarrow> storeErr + bytes" where
  "expandSeed L seed =
     (if length seed \<noteq> SeedSize then Inl StPanic else Inr (newKeyFromSeed (sl_crypto L) seed))"

definition unsealKey :: "storeLib \<Rightarrow> storeWorld \<Rightarrow> storedIdentity \<Rightarrow> storeErr + bytes" where
  "unsealKey L w s =
     (if si_Protection s = '''' \<or> si_Protection s = ProtectionNone then
        bindE (fromOption StPrivateKey (base64Decode (si_PrivateKey s))) (\<lambda>raw.
        bindE (guardE (length raw = PrivateKeySize) StPrivateKey) (\<lambda>_. Inr raw))
      else if si_Protection s = ProtectionPassphrase then
        bindE (fromOption StSealedText (base64Decode (si_Sealed s))) (\<lambda>sealed.
        bindE (fromOption StSaltText (base64Decode (si_Salt s))) (\<lambda>salt.
        bindE (guardE (length salt = saltLen) StSaltText) (\<lambda>_.
        bindE (openPassphrase L w sealed salt) (\<lambda>seed. expandSeed L seed))))
      else if si_Protection s = ProtectionDPAPI then
        bindE (fromOption StSealedText (base64Decode (si_Sealed s))) (\<lambda>sealed.
        bindE (dpapiUnprotect (sl_platform L) sealed) (\<lambda>seed.
        bindE (guardE (length seed = SeedSize) StSeedSize) (\<lambda>_. expandSeed L seed)))
      else Inl (StUnknownProtection (si_Protection s)))"

definition loadStored :: "storeLib \<Rightarrow> storeWorld \<Rightarrow> storeErr + (storedIdentity \<times> identity)" where
  "loadStored L w =
     bindE (readFile w) (\<lambda>d.
     bindE (fromOption StJson (sl_unmarshal L d)) (\<lambda>s.
     bindE (fromOption StPublicKey (base64Decode (si_PublicKey s))) (\<lambda>public.
     bindE (guardE (length public = PublicKeySize) StPublicKey) (\<lambda>_.
     bindE (unsealKey L w s) (\<lambda>private.
     let i = \<lparr>idn_PrivateKey = private, idn_PublicKey = public,
              idn_ID = (if si_ID s = '''' then deriveID (sl_crypto L) public else si_ID s)\<rparr>
     in bindE (guardE (valid (sl_crypto L) (Some i)) StInconsistent) (\<lambda>_. Inr (s, i)))))))"

text \<open>An older or weaker file is written again; a failure of that is ignored.\<close>

definition needsUpgrade :: "storeLib \<Rightarrow> storeWorld \<Rightarrow> storedIdentity \<Rightarrow> bool" where
  "needsUpgrade L w s \<longleftrightarrow> si_Version s < storeVersion \<or> si_Protection s \<noteq> preferredProtection L w"

definition loadIdentity :: "storeLib \<Rightarrow> identity storeOp" where
  "loadIdentity L w =
     (case loadStored L w of
        Inl e \<Rightarrow> (Inl e, w)
      | Inr (s, i) \<Rightarrow> (Inr i, if needsUpgrade L w s then snd (saveIdentity L i w) else w))"

definition generateIdentity :: "storeLib \<Rightarrow> identity storeOp" where
  "generateIdentity L w =
     (case generate (sl_crypto L) (sw_rand w) of
        (None, t) \<Rightarrow> (Inl StRandom, w\<lparr>sw_rand := t\<rparr>)
      | (Some i, t) \<Rightarrow> (Inr i, w\<lparr>sw_rand := t\<rparr>))"

definition loadOrCreate :: "storeLib \<Rightarrow> identity storeOp" where
  "loadOrCreate L w =
     (case loadIdentity L w of
        (Inr i, w') \<Rightarrow> (if valid (sl_crypto L) (Some i) then (Inr i, w') else (Inl StInconsistent, w'))
      | (Inl e, w') \<Rightarrow>
          (if e \<noteq> StNotExist then (Inl (StCannotOpen e), w')
           else bindS (generateIdentity L) (\<lambda>fresh. bindS (saveIdentity L fresh) (\<lambda>_. retS fresh)) w'))"

section \<open>What a save leaves\<close>

definition plainText :: "string \<Rightarrow> bool" where
  "plainText s \<longleftrightarrow> (\<forall>c \<in> set s. 0x20 \<le> (of_char c :: nat) \<and> (of_char c :: nat) < 0x7F)"

definition storedText :: "storedIdentity \<Rightarrow> bool" where
  "storedText s \<longleftrightarrow> (\<forall>x \<in> {si_ID s, si_PublicKey s, si_Protection s, si_PrivateKey s, si_Sealed s, si_Salt s}. plainText x)"

text \<open>\<^verbatim>\<open>encoding/json\<close> reads back a record of printable ASCII strings as it was written.\<close>

definition storeJson :: "storeLib \<Rightarrow> bool" where
  "storeJson L \<longleftrightarrow> (\<forall>s. storedText s \<longrightarrow> sl_unmarshal L (sl_marshal L s) = Some s)"

lemma plainText_append [simp]: "plainText (s @ t) \<longleftrightarrow> plainText s \<and> plainText t"
  by (auto simp: plainText_def)

lemma plainText_lit [simp]: "plainText ''''" "plainText ''cc-''" "plainText ''none''" "plainText ''dpapi''" "plainText ''passphrase''"
  by (simp_all add: plainText_def)

lemma plain_alphabets: "plainText base64Alphabet" "plainText base32Alphabet"
  by (simp_all add: plainText_def base64Alphabet_def base32Alphabet_def)

lemma b64Digit_plain: "n < 64 \<Longrightarrow> plainText [b64Digit n]"
proof -
  assume "n < 64"
  then have "b64Digit n \<in> set base64Alphabet" unfolding b64Digit_def by (intro nth_mem) (simp add: base64Alphabet_def)
  then show ?thesis using plain_alphabets(1) by (simp add: plainText_def)
qed

lemma plainText_Cons: "plainText (c # s) \<longleftrightarrow> plainText [c] \<and> plainText s"
  by (auto simp: plainText_def)

lemma plainText_pad: "plainText [CHR ''='']"
  by (simp add: plainText_def)

lemma b64_bounds:
  "unat (a :: byte) div 4 < 64" "unat a mod 4 * 16 < 64" "unat a mod 4 * 16 + unat (b :: byte) div 16 < 64"
  "unat b mod 16 * 4 < 64" "unat b mod 16 * 4 + unat (c :: byte) div 64 < 64" "unat c mod 64 < 64"
  using unat_bounds(1) [of a] unat_bounds(1) [of b] unat_bounds(1) [of c] by linarith+

lemma plain_base64 [simp]: "plainText (base64Encode bs)"
proof (induction bs rule: base64Encode.induct)
  case 1
  then show ?case by simp
next
  case (2 a)
  then show ?case
    unfolding base64Encode.simps plainText_Cons [of _ "_ # _"] using b64Digit_plain b64_bounds plainText_pad by blast
next
  case (3 a b)
  then show ?case
    unfolding base64Encode.simps plainText_Cons [of _ "_ # _"] using b64Digit_plain b64_bounds plainText_pad by blast
next
  case (4 a b c rest)
  show ?case
    unfolding base64Encode.simps plainText_Cons [of _ "_ # _"]
    using b64Digit_plain b64_bounds 4 by (subst plainText_Cons [of _ "base64Encode rest"]) blast
qed

lemma plain_deriveID: "plainText (deriveID C pub)"
  using base32_chars plain_alphabets(2) by (auto simp: deriveID_def plainText_def)

text \<open>The environment a store operation never touches.\<close>

definition sameEnv :: "storeWorld \<Rightarrow> storeWorld \<Rightarrow> bool" where
  "sameEnv w w' \<longleftrightarrow> sw_passEnv w' = sw_passEnv w \<and> sw_dirOk w' = sw_dirOk w \<and> sw_refuses w' = sw_refuses w"

lemma sameEnv_refl [simp]: "sameEnv w w" by (simp add: sameEnv_def)

lemma sameEnv_trans [trans]: "sameEnv w w1 \<Longrightarrow> sameEnv w1 w2 \<Longrightarrow> sameEnv w w2"
  by (simp add: sameEnv_def)

lemma sameEnv_reads:
  assumes "sameEnv w w'"
  shows "passphrase w' = passphrase w" "preferredProtection L w' = preferredProtection L w"
    "derivePassphraseKey L w' = derivePassphraseKey L w" "openPassphrase L w' = openPassphrase L w"
    "verifySeal L w' = verifySeal L w" "unsealKey L w' = unsealKey L w"
proof -
  show p: "passphrase w' = passphrase w" using assms by (simp add: passphrase_def sameEnv_def)
  then show "preferredProtection L w' = preferredProtection L w" by (simp add: preferredProtection_def)
  from p show d: "derivePassphraseKey L w' = derivePassphraseKey L w" by (simp add: derivePassphraseKey_def fun_eq_iff)
  then show o: "openPassphrase L w' = openPassphrase L w" by (simp add: openPassphrase_def fun_eq_iff)
  then show "verifySeal L w' = verifySeal L w" by (simp add: verifySeal_def fun_eq_iff)
  from o show "unsealKey L w' = unsealKey L w" by (simp add: unsealKey_def fun_eq_iff)
qed

lemma randomBytes_env: "randomBytes k w = (r, w') \<Longrightarrow> sameEnv w w' \<and> sw_file w' = sw_file w"
  by (auto simp: randomBytes_def sameEnv_def split: if_splits)

lemma sealPassphrase_env: "sealPassphrase L seed w = (r, w') \<Longrightarrow> sameEnv w w' \<and> sw_file w' = sw_file w"
  by (auto simp: sealPassphrase_def run_simps split: prod.splits sum.splits dest!: randomBytes_env intro: sameEnv_trans)

lemma sealStored_env: "sealStored L i w = (r, w') \<Longrightarrow> sameEnv w w' \<and> sw_file w' = sw_file w"
  by (auto simp: sealStored_def Let_def run_simps split: if_splits prod.splits sum.splits dest!: sealPassphrase_env)

lemma sealPassphrase_salt:
  assumes "sealPassphrase L seed w = (Inr (sealed, salt), w')"
  shows "length salt = saltLen"
  using assms by (auto simp: sealPassphrase_def bindS_eq_Inr randomBytes_def retS_def split: if_splits)

definition storedFor :: "identity \<Rightarrow> storedIdentity \<Rightarrow> bool" where
  "storedFor i s \<longleftrightarrow> si_Version s = storeVersion \<and> si_ID s = idn_ID i \<and> si_PublicKey s = base64Encode (idn_PublicKey i)
     \<and> plainText (si_PrivateKey s) \<and> plainText (si_Sealed s) \<and> plainText (si_Salt s)
     \<and> si_Protection s \<in> {ProtectionNone, ProtectionDPAPI, ProtectionPassphrase}
     \<and> (si_Protection s = ProtectionPassphrase \<longrightarrow> (\<exists>salt. si_Salt s = base64Encode salt \<and> length salt = saltLen))"

lemma preferredProtection_cases: "preferredProtection L w \<in> {ProtectionPassphrase, ProtectionDPAPI, ProtectionNone}"
  by (simp add: preferredProtection_def)

lemma storedFor_plain:
  "storedFor i (plainStored i ProtectionNone\<lparr>si_PrivateKey := base64Encode k\<rparr>)"
  "storedFor i (plainStored i ProtectionDPAPI\<lparr>si_Protection := ProtectionNone, si_PrivateKey := base64Encode k\<rparr>)"
  "storedFor i (plainStored i ProtectionDPAPI\<lparr>si_Sealed := base64Encode x\<rparr>)"
  "length salt = saltLen \<Longrightarrow> storedFor i (plainStored i ProtectionPassphrase\<lparr>si_Sealed := base64Encode x, si_Salt := base64Encode salt\<rparr>)"
  by (auto simp: storedFor_def plainStored_def protection_defs)

lemma sealStored_for:
  assumes "sealStored L i w = (Inr s, w')"
  shows "storedFor i s
    \<and> (si_Protection s = preferredProtection L w \<or> preferredProtection L w = ProtectionDPAPI \<and> si_Protection s = ProtectionNone)"
proof -
  have k: "si_Protection (plainStored i p) = p" for p by (simp add: plainStored_def)
  consider (p) "preferredProtection L w = ProtectionPassphrase" | (d) "preferredProtection L w = ProtectionDPAPI"
    | (n) "preferredProtection L w = ProtectionNone"
    using preferredProtection_cases [of L w] by blast
  then show ?thesis
  proof cases
    case p
    then obtain x salt w1 where x: "sealPassphrase L (privSeed (idn_PrivateKey i)) w = (Inr (x, salt), w1)"
      and s: "s = plainStored i ProtectionPassphrase\<lparr>si_Sealed := base64Encode x, si_Salt := base64Encode salt\<rparr>"
      using assms by (auto simp: sealStored_def Let_def bindS_eq_Inr retS_def)
    have "storedFor i s" unfolding s by (rule storedFor_plain(4) [OF sealPassphrase_salt [OF x]])
    moreover have "si_Protection s = ProtectionPassphrase" unfolding s by (simp add: k)
    ultimately show ?thesis using p by simp
  next
    case d
    then have "s = plainStored i ProtectionDPAPI\<lparr>si_Protection := ProtectionNone, si_PrivateKey := base64Encode (idn_PrivateKey i)\<rparr>
        \<or> (\<exists>x. s = plainStored i ProtectionDPAPI\<lparr>si_Sealed := base64Encode x\<rparr>)"
      using assms by (auto simp: sealStored_def Let_def protection_defs split: sum.splits)
    then show ?thesis using storedFor_plain(2,3) d by (auto simp: k)
  next
    case n
    then have "s = plainStored i ProtectionNone\<lparr>si_PrivateKey := base64Encode (idn_PrivateKey i)\<rparr>"
      using assms by (simp add: sealStored_def Let_def protection_defs)
    then show ?thesis using storedFor_plain(1) n by (simp add: k)
  qed
qed

lemma saveIdentity_ok:
  assumes "saveIdentity L i w = (Inr (), w')"
  obtains s where "valid (sl_crypto L) (Some i)" "sw_dirOk w" "storedFor i s" "verifySeal L w s i = Inr ()"
    "sw_file w' = Content (sl_marshal L s)" "sameEnv w w'"
    "si_Protection s = preferredProtection L w \<or> preferredProtection L w = ProtectionDPAPI \<and> si_Protection s = ProtectionNone"
proof -
  from assms obtain s w1 where v: "valid (sl_crypto L) (Some i)" "sw_dirOk w" and s: "sealStored L i w = (Inr s, w1)"
    and b: "verifySeal L w1 s i = Inr ()" and f: "replaceFile (sl_marshal L s) w1 = (Inr (), w')"
    by (auto simp: saveIdentity_def bindS_eq_Inr liftS_def)
  have e: "sameEnv w w1" using sealStored_env [OF s] by simp
  from f have w': "w' = w1\<lparr>sw_file := Content (sl_marshal L s)\<rparr>" by (auto simp: replaceFile_def split: option.splits)
  then have "sameEnv w w'" using e by (simp add: sameEnv_def)
  moreover have "sw_file w' = Content (sl_marshal L s)" using w' by simp
  moreover have "verifySeal L w s i = Inr ()" using b sameEnv_reads(5) [OF e] by simp
  ultimately show thesis using that v sealStored_for [OF s] by blast
qed

lemma saveIdentity_failed:
  assumes "saveIdentity L i w = (Inl e, w')"
  shows "sameEnv w w'" "sw_file w' = sw_file w"
proof -
  have r: "replaceFile d v = (Inl x, v') \<Longrightarrow> v' = v" for d v v' and x :: storeErr
    by (auto simp: replaceFile_def split: option.splits)
  show "sameEnv w w'" "sw_file w' = sw_file w" using assms
    by (auto simp: saveIdentity_def run_simps split: prod.splits sum.splits dest!: sealStored_env r)
qed

section \<open>What is saved is what is loaded\<close>

text \<open>An identity whose public key is the one its seed derives, as \<^verbatim>\<open>Generate\<close> makes them.\<close>

definition fromSeed :: "storeLib \<Rightarrow> identity \<Rightarrow> bool" where
  "fromSeed L i \<longleftrightarrow> c_edpub (sl_crypto L) (privSeed (idn_PrivateKey i)) = idn_PublicKey i"

lemma storedFor_text:
  assumes "storedFor i s" "valid C (Some i)"
  shows "storedText s" "si_ID s = idn_ID i" "idn_ID i \<noteq> ''''"
proof -
  have "idn_ID i = deriveID C (idn_PublicKey i)" using assms(2) by (simp add: valid_def)
  then have i: "plainText (idn_ID i)" "idn_ID i \<noteq> ''''" using plain_deriveID by simp_all
  have "plainText (si_Protection s)" using assms(1) unfolding storedFor_def protection_defs
    by (metis insertE emptyE plainText_lit(3-5))
  then show "storedText s" using assms(1) i by (simp add: storedFor_def storedText_def)
  show "si_ID s = idn_ID i" "idn_ID i \<noteq> ''''" using assms(1) i by (simp_all add: storedFor_def)
qed

lemma valid_key:
  assumes "valid C (Some i)"
  shows "length (idn_PrivateKey i) = 64" "length (idn_PublicKey i) = 32" "length (privSeed (idn_PrivateKey i)) = 32"
    "idn_PrivateKey i = privSeed (idn_PrivateKey i) @ idn_PublicKey i"
  using assms append_take_drop_id [of 32 "idn_PrivateKey i"]
  by (simp_all add: valid_def PrivateKeySize_def PublicKeySize_def privSeed_def privPublic_def)

text \<open>What a verified record unseals to: the key itself, or the key its seed derives.\<close>

definition reopened :: "storeLib \<Rightarrow> identity \<Rightarrow> storedIdentity \<Rightarrow> bytes" where
  "reopened L i s = (if si_Protection s = ProtectionNone then idn_PrivateKey i
     else newKeyFromSeed (sl_crypto L) (privSeed (idn_PrivateKey i)))"

lemma unsealKey_verified:
  assumes "storedFor i s" "verifySeal L w s i = Inr ()" "valid (sl_crypto L) (Some i)"
  shows "unsealKey L w s = Inr (reopened L i s)"
proof -
  note k = valid_key [OF assms(3)]
  consider (n) "si_Protection s = ProtectionNone" | (p) "si_Protection s = ProtectionPassphrase" | (d) "si_Protection s = ProtectionDPAPI"
    using assms(1) by (auto simp: storedFor_def)
  then show ?thesis
  proof cases
    case n
    then show ?thesis using assms(2) k
      by (auto simp: verifySeal_def unsealKey_def reopened_def bindE_eq_Inr PrivateKeySize_def)
  next
    case p
    then obtain salt where "si_Salt s = base64Encode salt" "length salt = saltLen" using assms(1) by (auto simp: storedFor_def)
    then show ?thesis using p assms(2) k
      by (auto simp: verifySeal_def unsealKey_def reopened_def bindE_eq_Inr expandSeed_def SeedSize_def protection_defs)
  next
    case d
    then show ?thesis using assms(2) k
      by (auto simp: verifySeal_def unsealKey_def reopened_def bindE_eq_Inr expandSeed_def SeedSize_def protection_defs)
  qed
qed

lemma loadStored_saved:
  assumes "storeJson L" "saveIdentity L i w = (Inr (), w')"
  shows "\<exists>s. storedFor i s \<and> sw_file w' = Content (sl_marshal L s) \<and> loadStored L w' =
     (let j = i\<lparr>idn_PrivateKey := reopened L i s\<rparr> in bindE (guardE (valid (sl_crypto L) (Some j)) StInconsistent) (\<lambda>_. Inr (s, j)))"
proof -
  obtain s where v: "valid (sl_crypto L) (Some i)" "sw_dirOk w" "storedFor i s" and b: "verifySeal L w s i = Inr ()"
    and f: "sw_file w' = Content (sl_marshal L s)" and e: "sameEnv w w'"
    using saveIdentity_ok [OF assms(2)] by blast
  have "unsealKey L w' s = Inr (reopened L i s)"
    using unsealKey_verified [OF v(3) b v(1)] sameEnv_reads(6) [OF e] by simp
  moreover have "sw_dirOk w'" using v(2) e by (simp add: sameEnv_def)
  moreover have "sl_unmarshal L (sl_marshal L s) = Some s" using assms(1) storedFor_text(1) [OF v(3,1)] by (simp add: storeJson_def)
  moreover have "si_PublicKey s = base64Encode (idn_PublicKey i)" using v(3) by (simp add: storedFor_def)
  ultimately have "loadStored L w' =
     (let j = i\<lparr>idn_PrivateKey := reopened L i s\<rparr> in bindE (guardE (valid (sl_crypto L) (Some j)) StInconsistent) (\<lambda>_. Inr (s, j)))"
    using f valid_key(2) [OF v(1)] storedFor_text(2,3) [OF v(3,1)]
    by (cases i) (simp add: loadStored_def readFile_def Let_def PublicKeySize_def)
  then show ?thesis using v(3) f by blast
qed

lemma reopened_self:
  assumes "valid (sl_crypto L) (Some i)" "fromSeed L i"
  shows "reopened L i s = idn_PrivateKey i"
  using valid_key(4) [OF assms(1)] assms(2) by (simp add: reopened_def newKeyFromSeed_def fromSeed_def)

lemma loadStored_after_save:
  assumes "storeJson L" "fromSeed L i" "saveIdentity L i w = (Inr (), w')"
  shows "\<exists>s. storedFor i s \<and> sw_file w' = Content (sl_marshal L s) \<and> loadStored L w' = Inr (s, i)"
proof -
  have v: "valid (sl_crypto L) (Some i)" using saveIdentity_ok [OF assms(3)] by blast
  have "i\<lparr>idn_PrivateKey := idn_PrivateKey i\<rparr> = i" by simp
  then show ?thesis using loadStored_saved [OF assms(1,3)] reopened_self [OF v assms(2)] v by (auto simp: Let_def)
qed

lemma loadIdentity_result: "fst (loadIdentity L w) = (case loadStored L w of Inl e \<Rightarrow> Inl e | Inr (s, i) \<Rightarrow> Inr i)"
  by (simp add: loadIdentity_def split: sum.splits prod.splits)

lemma loadStored_valid: "loadStored L w = Inr (s, i) \<Longrightarrow> valid (sl_crypto L) (Some i)"
  by (auto simp: loadStored_def bindE_eq_Inr Let_def)

text \<open>Loading an identity leaves the file alone or replaces it by one that loads to the same identity.\<close>

lemma loadIdentity_file:
  assumes "storeJson L" "loadIdentity L w = (r, w')"
    "\<And>s i. loadStored L w = Inr (s, i) \<Longrightarrow> fromSeed L i"
  shows "sameEnv w w'"
    "sw_file w' = sw_file w \<or> (\<exists>s i. r = Inr i \<and> storedFor i s \<and> sw_file w' = Content (sl_marshal L s) \<and> loadStored L w' = Inr (s, i))"
proof -
  have "sameEnv w w' \<and> (sw_file w' = sw_file w \<or> (\<exists>s i. r = Inr i \<and> storedFor i s \<and> sw_file w' = Content (sl_marshal L s) \<and> loadStored L w' = Inr (s, i)))"
  proof (cases "loadStored L w")
    case (Inl e)
    then show ?thesis using assms(2) by (auto simp: loadIdentity_def)
  next
    case (Inr x)
    obtain s i where x: "x = (s, i)" by (cases x)
    obtain y w1 where y: "saveIdentity L i w = (y, w1)" by (metis surj_pair)
    have r: "r = Inr i" "w' = (if needsUpgrade L w s then w1 else w)" using assms(2) Inr x y by (auto simp: loadIdentity_def)
    show ?thesis
    proof (cases y)
      case (Inl e)
      then show ?thesis using saveIdentity_failed [of L i w e w1] y r by auto
    next
      case (Inr u)
      then have ok: "saveIdentity L i w = (Inr (), w1)" using y by simp
      have "fromSeed L i" using assms(3) \<open>loadStored L w = Inr x\<close> x by simp
      from loadStored_after_save [OF assms(1) this ok] saveIdentity_ok [OF ok] show ?thesis using r by auto
    qed
  qed
  then show "sameEnv w w'"
    "sw_file w' = sw_file w \<or> (\<exists>s i. r = Inr i \<and> storedFor i s \<and> sw_file w' = Content (sl_marshal L s) \<and> loadStored L w' = Inr (s, i))"
    by simp_all
qed

section \<open>The life of an identity\<close>

text \<open>Whatever protection is in force, an identity that \<^verbatim>\<open>Save\<close> reports as written is the identity the next
\<^verbatim>\<open>Load\<close> under the same settings returns. Nothing is assumed of the cipher, scrypt or Windows: \<^verbatim>\<open>Save\<close> opens what
it sealed before it replaces the file.\<close>

theorem saved_identity_loads:
  assumes "storeJson L" "fromSeed L i" "saveIdentity L i w = (Inr (), w')"
  shows "fst (loadIdentity L w') = Inr i"
  using loadStored_after_save [OF assms] by (auto simp: loadIdentity_result)

lemma loadStored_cong:
  assumes "sameEnv w w'" "sw_file w' = sw_file w"
  shows "loadStored L w' = loadStored L w"
  using assms sameEnv_reads(6) [OF assms(1), of L] by (simp add: loadStored_def readFile_def sameEnv_def)

lemma loadStored_missing: "loadStored L w = Inl StNotExist \<Longrightarrow> sw_file w = Missing"
  by (auto simp: loadStored_def readFile_def bindE_eq_Inl Let_def guardE_def fromOption_def unsealKey_def openPassphrase_def
      derivePassphraseKey_def dpapiUnprotect_def expandSeed_def split: if_splits fileState.splits option.splits platform.splits)


text \<open>Loading a sealed identity of the current format never leaves it less protected: a file sealed by a
passphrase stays so, and one sealed by Windows stays so or becomes sealed by a passphrase.\<close>

theorem load_never_weakens:
  assumes "storeJson L" "loadStored L w = Inr (s, i)" "storeVersion \<le> si_Version s"
    "si_Protection s \<in> {ProtectionDPAPI, ProtectionPassphrase}" "loadIdentity L w = (r, w')"
  shows "storedProtection L w' \<in> {Inr (si_Protection s), Inr ProtectionPassphrase}"
proof -
  have u: "unsealKey L w s = Inr (idn_PrivateKey i)" and d: "sw_dirOk w" and c: "storedProtection L w = Inr (si_Protection s)"
    using assms(2,4) by (auto simp: loadStored_def bindE_eq_Inr Let_def readFile_def storedProtection_def protection_defs split: if_splits)
  obtain y w1 where y: "saveIdentity L i w = (y, w1)" by (metis surj_pair)
  have same: "sw_file v = sw_file w \<Longrightarrow> sameEnv w v \<Longrightarrow> storedProtection L v = Inr (si_Protection s)" for v
    using c d by (simp add: storedProtection_def readFile_def sameEnv_def)
  have w': "w' = (if needsUpgrade L w s then w1 else w)" using assms(2,5) y by (auto simp: loadIdentity_def)
  show ?thesis
  proof (cases "needsUpgrade L w s")
    case False
    then show ?thesis using w' c by simp
  next
    case True
    then have ne: "si_Protection s \<noteq> preferredProtection L w" using assms(3) by (simp add: needsUpgrade_def)
    have p: "preferredProtection L w = ProtectionPassphrase"
    proof (cases "si_Protection s = ProtectionPassphrase")
      case True
      then have "passphrase w \<noteq> ''''" using u
        by (auto simp: unsealKey_def protection_defs openPassphrase_def derivePassphraseKey_def bindE_eq_Inr)
      then show ?thesis by (simp add: preferredProtection_def)
    next
      case False
      then have s: "si_Protection s = ProtectionDPAPI" using assms(4) by simp
      then have "dpapiAvailable (sl_platform L)" using u
        by (auto simp: unsealKey_def protection_defs dpapiUnprotect_def dpapiAvailable_def bindE_eq_Inr split: platform.splits if_splits)
      then show ?thesis using s ne by (auto simp: preferredProtection_def)
    qed
    show ?thesis
    proof (cases y)
      case (Inl e)
      then show ?thesis using saveIdentity_failed [of L i w e w1] y same [of w1] w' True by simp
    next
      case (Inr u)
      then have ok: "saveIdentity L i w = (Inr (), w1)" using y by simp
      obtain t where t: "valid (sl_crypto L) (Some i)" "storedFor i t" "sw_file w1 = Content (sl_marshal L t)" "sameEnv w w1"
        "si_Protection t = ProtectionPassphrase"
        using saveIdentity_ok [OF ok] p by (auto simp: protection_defs)
      then have "storedProtection L w1 = Inr ProtectionPassphrase"
        using d assms(1) storedFor_text(1) [OF t(2,1)]
        by (simp add: storedProtection_def readFile_def sameEnv_def storeJson_def protection_defs)
      then show ?thesis using w' True by simp
    qed
  qed
qed


text \<open>Windows unprotects what it protected.\<close>

definition dpapiKeeps :: "platform \<Rightarrow> bool" where
  "dpapiKeeps p \<longleftrightarrow> (\<forall>k x e y. p = Windows k \<longrightarrow> c32_protect k x e = Some y \<longrightarrow> y \<noteq> [] \<and> c32_unprotect k y e = Some x)"

lemma sealStored_verifies:
  assumes "xaead_law (sl_box L)" "dpapiKeeps (sl_platform L)" "saltLen + NonceSizeX \<le> length (sw_rand w)"
  shows "\<exists>s w1. sealStored L i w = (Inr s, w1) \<and> verifySeal L w1 s i = Inr ()"
proof -
  let ?seed = "privSeed (idn_PrivateKey i)"
  consider (p) "preferredProtection L w = ProtectionPassphrase" | (d) "preferredProtection L w = ProtectionDPAPI"
    | (n) "preferredProtection L w = ProtectionNone"
    using preferredProtection_cases [of L w] by blast
  then show ?thesis
  proof cases
    case p
    let ?salt = "take saltLen (sw_rand w)" and ?nonce = "take NonceSizeX (drop saltLen (sw_rand w))"
    let ?w = "w\<lparr>sw_rand := drop (saltLen + NonceSizeX) (sw_rand w)\<rparr>"
    have k: "passphrase w \<noteq> ''''" "sameEnv w ?w" using p by (auto simp: preferredProtection_def protection_defs sameEnv_def split: if_splits)
    obtain key where key: "derivePassphraseKey L w salt = Inr (key salt)" for salt using k by (simp add: derivePassphraseKey_def)
    have e: "derivePassphraseKey L (v\<lparr>sw_rand := x\<rparr>) = derivePassphraseKey L v" for v x
      by (rule sameEnv_reads(3)) (simp add: sameEnv_def)
    have s: "sealPassphrase L ?seed w = (Inr (boxSeal (sl_box L) (key ?salt) ?nonce ?seed identityAD, ?salt), ?w)"
      using assms(3) key by (simp add: sealPassphrase_def run_simps randomBytes_def e add.commute)
    have l: "length ?nonce = NonceSizeX" using assms(3) by simp
    have o: "openPassphrase L ?w (boxSeal (sl_box L) (key ?salt) ?nonce ?seed identityAD) ?salt = Inr ?seed"
      using boxOpen_boxSeal [OF assms(1) l] key l by (simp add: openPassphrase_def e boxSeal_def)
    show ?thesis using p s o by (simp add: sealStored_def Let_def run_simps verifySeal_def plainStored_def protection_defs)
  next
    case d
    show ?thesis
    proof (cases "dpapiProtect (sl_platform L) ?seed")
      case (Inl e)
      then show ?thesis using d by (simp add: sealStored_def Let_def verifySeal_def plainStored_def protection_defs)
    next
      case (Inr x)
      then have "dpapiUnprotect (sl_platform L) x = Inr ?seed"
        using assms(2) by (auto simp: dpapiProtect_def dpapiUnprotect_def dpapiKeeps_def split: platform.splits if_splits)
      then show ?thesis using d Inr by (simp add: sealStored_def Let_def verifySeal_def plainStored_def protection_defs)
    qed
  next
    case n
    then show ?thesis by (simp add: sealStored_def Let_def verifySeal_def plainStored_def protection_defs)
  qed
qed

lemma saveIdentity_succeeds:
  assumes "valid (sl_crypto L) (Some i)" "sw_dirOk w" "sw_refuses w = None"
    "xaead_law (sl_box L)" "dpapiKeeps (sl_platform L)" "saltLen + NonceSizeX \<le> length (sw_rand w)"
  shows "\<exists>w'. saveIdentity L i w = (Inr (), w')"
proof -
  obtain s w1 where s: "sealStored L i w = (Inr s, w1)" "verifySeal L w1 s i = Inr ()"
    using sealStored_verifies [OF assms(4-6)] by blast
  moreover have "sw_refuses w1 = None" using sealStored_env [OF s(1)] assms(3) by (simp add: sameEnv_def)
  ultimately show ?thesis using assms(1,2) by (simp add: saveIdentity_def run_simps replaceFile_def)
qed

lemma generate_fromSeed:
  assumes "hash_lengths C" "sig_law C" "SeedSize \<le> length tape"
  shows "\<exists>i. generate C tape = (Some i, drop SeedSize tape) \<and> valid C (Some i)
    \<and> c_edpub C (privSeed (idn_PrivateKey i)) = idn_PublicKey i"
  using assms by (auto simp: generate_def Let_def SeedSize_def valid_def newKeyFromSeed_def privPublic_def privSeed_def
      PrivateKeySize_def PublicKeySize_def sig_law_def)

text \<open>On a first start with a usable configuration directory and enough randomness, whichever protection
applies, an identity is created, passes \<^verbatim>\<open>Valid\<close>, and is the one every later start returns.\<close>

theorem first_start_persists:
  assumes "storeJson L" "crypto_law (sl_crypto L)" "xaead_law (sl_box L)" "dpapiKeeps (sl_platform L)"
    "sw_file w = Missing" "sw_dirOk w" "sw_refuses w = None" "SeedSize + saltLen + NonceSizeX \<le> length (sw_rand w)"
  shows "\<exists>i w'. loadOrCreate L w = (Inr i, w') \<and> valid (sl_crypto L) (Some i) \<and> fst (loadOrCreate L w') = Inr i"
proof -
  let ?w = "w\<lparr>sw_rand := drop SeedSize (sw_rand w)\<rparr>"
  obtain i where g: "generate (sl_crypto L) (sw_rand w) = (Some i, drop SeedSize (sw_rand w))"
    and v: "valid (sl_crypto L) (Some i)" and f: "fromSeed L i"
    using generate_fromSeed [of "sl_crypto L" "sw_rand w"] assms(2,8) by (auto simp: crypto_law_def fromSeed_def)
  have "saltLen + NonceSizeX \<le> length (sw_rand ?w)" using assms(8) by simp
  then obtain w' where s: "saveIdentity L i ?w = (Inr (), w')"
    using saveIdentity_succeeds [of L i ?w] v assms by auto
  have "loadIdentity L w = (Inl StNotExist, w)" using assms(5,6) by (simp add: loadIdentity_def loadStored_def readFile_def)
  then have "loadOrCreate L w = (Inr i, w')" using g s by (simp add: loadOrCreate_def run_simps generateIdentity_def)
  moreover obtain t where l: "loadStored L w' = Inr (t, i)" using loadStored_after_save [OF assms(1) f s] by blast
  then have "fst (loadOrCreate L w') = Inr i" using v by (simp add: loadOrCreate_def loadIdentity_def)
  ultimately show ?thesis using v by blast
qed

section \<open>A store that computes\<close>

definition fieldBytes :: "string \<Rightarrow> bytes" where "fieldBytes s = toBytes s @ [0]"

definition fieldOf :: "bytes \<Rightarrow> string \<times> bytes" where
  "fieldOf b = (ofBytes (takeWhile (\<lambda>x. x \<noteq> 0) b), drop 1 (dropWhile (\<lambda>x. x \<noteq> 0) b))"

definition sampleMarshal :: "storedIdentity \<Rightarrow> bytes" where
  "sampleMarshal s = [if si_Version s < 0 then 2 else 1] @ replicate (nat \<bar>si_Version s\<bar>) 1 @ [0]
     @ fieldBytes (si_ID s) @ fieldBytes (si_PublicKey s) @ fieldBytes (si_Protection s)
     @ fieldBytes (si_PrivateKey s) @ fieldBytes (si_Sealed s) @ fieldBytes (si_Salt s)"

definition sampleUnmarshal :: "bytes \<Rightarrow> storedIdentity option" where
  "sampleUnmarshal b =
     (if b = [] then None
      else case fieldOf (tl b) of (v, b1) \<Rightarrow> case fieldOf b1 of (i, b2) \<Rightarrow> case fieldOf b2 of (k, b3) \<Rightarrow>
        case fieldOf b3 of (p, b4) \<Rightarrow> case fieldOf b4 of (d, b5) \<Rightarrow> case fieldOf b5 of (e, b6) \<Rightarrow> case fieldOf b6 of (t, b7) \<Rightarrow>
        Some \<lparr>si_Version = (if hd b = 2 then - int (length v) else int (length v)), si_ID = i, si_PublicKey = k,
              si_Protection = p, si_PrivateKey = d, si_Sealed = e, si_Salt = t\<rparr>)"

lemma fieldOf_plain: "plainText s \<Longrightarrow> fieldOf (fieldBytes s @ r) = (s, r)"
proof -
  assume "plainText s"
  then have "CHR 0x00 \<notin> set s" by (auto simp: plainText_def)
  then have "\<forall>x \<in> set (toBytes s). x \<noteq> 0" by (auto simp: toBytes_def)
  then show ?thesis by (simp add: fieldOf_def fieldBytes_def takeWhile_append2 dropWhile_append2)
qed

lemma fieldOf_unary: "fieldOf (replicate n 1 @ 0 # r) = (ofBytes (replicate n 1), r)"
  by (induction n) (simp_all add: fieldOf_def ofBytes_def)

definition sampleLib :: "platform \<Rightarrow> storeLib" where
  "sampleLib p = \<lparr>sl_crypto = plainCrypto, sl_scrypt = (\<lambda>pass salt. fill 32 (pass @ salt)), sl_box = plainX,
     sl_marshal = sampleMarshal, sl_unmarshal = sampleUnmarshal, sl_platform = p\<rparr>"

lemma sampleLib_json: "storeJson (sampleLib p)"
proof -
  have "sampleUnmarshal (sampleMarshal s) = Some s" if "storedText s" for s
  proof (cases s)
    case (fields v i k p d e t)
    have x: "fieldOf (fieldBytes f) = (f, [])" if "plainText f" for f using fieldOf_plain [OF that, of "[]"] by simp
    show ?thesis using that unfolding fields sampleMarshal_def sampleUnmarshal_def
      by (simp add: storedText_def fieldOf_unary fieldOf_plain x)
  qed
  then show ?thesis by (simp add: storeJson_def sampleLib_def)
qed

definition freshWorld :: "string \<Rightarrow> storeWorld" where
  "freshWorld env = \<lparr>sw_passEnv = env, sw_dirOk = True, sw_file = Missing, sw_rand = replicate 200 1, sw_refuses = None\<rparr>"

lemma trimSpace_pw: "trimSpace ''pw'' = ''pw''"
proof -
  have "byteOf CHR ''p'' = 0x70" "byteOf CHR ''w'' = 0x77" by (simp_all add: byteOf_def)
  then show ?thesis by (intro trimSpace_none) simp
qed

lemma freshWorld_passphrase [simp]: "passphrase (freshWorld ''pw'') = ''pw''"
  by (simp add: passphrase_def freshWorld_def trimSpace_pw)

lemma sample_platform: "dpapiKeeps OtherPlatform" "\<not> dpapiAvailable OtherPlatform"
  by (simp_all add: dpapiKeeps_def dpapiAvailable_def)

lemma sampleLib_parts:
  "storeJson (sampleLib p)" "crypto_law (sl_crypto (sampleLib p))" "xaead_law (sl_box (sampleLib p))" "sl_platform (sampleLib p) = p"
  using sampleLib_json plainCrypto_law plainX_law by (simp_all add: sampleLib_def)

theorem first_start_persists_witness:
  "\<exists>i w'. loadOrCreate (sampleLib OtherPlatform) (freshWorld ''pw'') = (Inr i, w') \<and> valid plainCrypto (Some i)
     \<and> fst (loadOrCreate (sampleLib OtherPlatform) w') = Inr i"
  using first_start_persists [OF sampleLib_parts(1-3), of OtherPlatform "freshWorld ''pw''"] sample_platform(1)
  by (simp add: freshWorld_def SeedSize_def saltLen_def NonceSizeX_def sampleLib_def)

lemma sample_saved:
  "\<exists>i w'. saveIdentity (sampleLib OtherPlatform) i (freshWorld env) = (Inr (), w') \<and> fromSeed (sampleLib OtherPlatform) i"
proof -
  obtain i where "valid plainCrypto (Some i)" "c_edpub plainCrypto (privSeed (idn_PrivateKey i)) = idn_PublicKey i"
    using generate_fromSeed [of plainCrypto "replicate 40 1"] crypto_law_parts(1,5) [OF plainCrypto_law] by (auto simp: SeedSize_def)
  then show ?thesis using saveIdentity_succeeds [of "sampleLib OtherPlatform" i "freshWorld env"] sample_platform(1) plainX_law
    by (auto simp: sampleLib_def freshWorld_def saltLen_def NonceSizeX_def fromSeed_def)
qed

theorem saved_identity_loads_witness:
  "\<exists>i w'. saveIdentity (sampleLib OtherPlatform) i (freshWorld ''pw'') = (Inr (), w') \<and> fst (loadIdentity (sampleLib OtherPlatform) w') = Inr i"
  using sample_saved [of "''pw''"] saved_identity_loads [OF sampleLib_parts(1), of OtherPlatform] by blast

lemma sample_file:
  "\<exists>i w s. loadStored (sampleLib OtherPlatform) w = Inr (s, i) \<and> fromSeed (sampleLib OtherPlatform) i \<and> sw_file w \<noteq> Missing
     \<and> si_Version s = storeVersion \<and> si_Protection s = ProtectionPassphrase"
proof -
  let ?L = "sampleLib OtherPlatform"
  obtain i w where s: "saveIdentity ?L i (freshWorld ''pw'') = (Inr (), w)" "fromSeed ?L i" using sample_saved by blast
  obtain t where t: "storedFor i t" "sw_file w = Content (sl_marshal ?L t)" "loadStored ?L w = Inr (t, i)"
    using loadStored_after_save [OF sampleLib_parts(1) s(2,1)] by blast
  obtain u where u: "valid (sl_crypto ?L) (Some i)" "storedFor i u" "sw_file w = Content (sl_marshal ?L u)" "si_Protection u = ProtectionPassphrase"
    using saveIdentity_ok [OF s(1)] by (auto simp: preferredProtection_def protection_defs)
  have "sl_unmarshal ?L (sl_marshal ?L t) = Some t" "sl_unmarshal ?L (sl_marshal ?L u) = Some u"
    using sampleLib_parts(1) storedFor_text(1) [OF t(1) u(1)] storedFor_text(1) [OF u(2,1)] by (simp_all add: storeJson_def)
  then have "u = t" using t(2) u(3) by simp
  moreover have "si_Version t = storeVersion" using t(1) by (simp add: storedFor_def)
  ultimately show ?thesis using t u s(2) by (intro exI [of _ i] exI [of _ w] exI [of _ t]) simp
qed


theorem load_never_weakens_witness:
  "\<exists>w s i r w'. loadStored (sampleLib OtherPlatform) w = Inr (s, i) \<and> si_Protection s = ProtectionPassphrase
     \<and> loadIdentity (sampleLib OtherPlatform) w = (r, w')
     \<and> storedProtection (sampleLib OtherPlatform) w' \<in> {Inr (si_Protection s), Inr ProtectionPassphrase}"
proof -
  let ?L = "sampleLib OtherPlatform"
  obtain i w s where *: "loadStored ?L w = Inr (s, i)" "si_Version s = storeVersion" "si_Protection s = ProtectionPassphrase"
    using sample_file by blast
  obtain r w' where l: "loadIdentity ?L w = (r, w')" by (metis surj_pair)
  have "storeVersion \<le> si_Version s" "si_Protection s \<in> {ProtectionDPAPI, ProtectionPassphrase}" using * by simp_all
  from load_never_weakens [OF sampleLib_parts(1) *(1) this l] show ?thesis using * l by blast
qed

definition mismatched :: identity where
  "mismatched = \<lparr>idn_PrivateKey = replicate 32 1 @ replicate 32 2, idn_PublicKey = replicate 32 2, idn_ID = deriveID plainCrypto (replicate 32 2)\<rparr>"

lemma mismatched_facts: "valid plainCrypto (Some mismatched)" "\<not> fromSeed (sampleLib p) mismatched"
proof -
  show "valid plainCrypto (Some mismatched)"
    by (simp add: mismatched_def valid_def privPublic_def PrivateKeySize_def PublicKeySize_def)
  have "hd (fill 32 (replicate 32 (1 :: byte))) \<noteq> hd (replicate 32 2)" by (simp add: fill_def)
  then have "fill 32 (replicate 32 (1 :: byte)) \<noteq> replicate 32 2" by metis
  then show "\<not> fromSeed (sampleLib p) mismatched"
    by (simp add: fromSeed_def sampleLib_def mismatched_def plainCrypto_def privSeed_def)
qed

lemma loadStored_plain:
  assumes "valid (sl_crypto L) (Some i)" "sw_dirOk w" "sw_file w = Content d"
    "sl_unmarshal L d = Some (plainStored i ProtectionNone\<lparr>si_PrivateKey := base64Encode (idn_PrivateKey i)\<rparr>)"
  shows "loadStored L w = Inr (plainStored i ProtectionNone\<lparr>si_PrivateKey := base64Encode (idn_PrivateKey i)\<rparr>, i)"
  using assms valid_key [OF assms(1)] storedFor_text(3) [OF storedFor_plain(1) assms(1)]
  by (cases i) (simp add: loadStored_def readFile_def plainStored_def unsealKey_def PublicKeySize_def PrivateKeySize_def Let_def)

lemma sample_mismatched:
  "\<exists>w w'. passphrase w \<noteq> '''' \<and> loadIdentity (sampleLib OtherPlatform) w = (Inr mismatched, w') \<and> sw_file w' \<noteq> sw_file w"
proof -
  let ?L = "sampleLib OtherPlatform" and ?i = mismatched
  have v: "valid (sl_crypto ?L) (Some ?i)" using mismatched_facts(1) by (simp add: sampleLib_def)
  have save: "\<exists>w'. saveIdentity ?L ?i w = (Inr (), w')" if "sw_dirOk w" "sw_refuses w = None" "saltLen + NonceSizeX \<le> length (sw_rand w)" for w
    using saveIdentity_succeeds [OF v that(1,2)] that(3) sampleLib_parts(3) sample_platform(1) by (simp add: sampleLib_def)
  have "passphrase (freshWorld '''') = ''''" by (simp add: passphrase_def freshWorld_def trimSpace_none)
  then have n: "preferredProtection ?L (freshWorld '''') = ProtectionNone"
    using sample_platform(2) by (simp add: preferredProtection_def sampleLib_def)
  let ?s = "plainStored ?i ProtectionNone\<lparr>si_PrivateKey := base64Encode (idn_PrivateKey ?i)\<rparr>"
  let ?w = "(freshWorld ''pw'')\<lparr>sw_file := Content (sl_marshal ?L ?s)\<rparr>"
  have f: "storedFor ?i ?s" by (rule storedFor_plain(1))
  have j: "sl_unmarshal ?L (sl_marshal ?L ?s) = Some ?s" using sampleLib_parts(1) storedFor_text(1) [OF f v] by (simp add: storeJson_def)
  have l: "loadStored ?L ?w = Inr (?s, ?i)"
    using j by (intro loadStored_plain [OF v]) (simp_all add: freshWorld_def)
  have p: "passphrase ?w = ''pw''" using freshWorld_passphrase by (simp add: passphrase_def)
  then have q: "preferredProtection ?L ?w = ProtectionPassphrase" by (simp add: preferredProtection_def)
  then have u: "needsUpgrade ?L ?w ?s" by (simp add: needsUpgrade_def plainStored_def protection_defs)
  have "sw_dirOk ?w" "sw_refuses ?w = None" "saltLen + NonceSizeX \<le> length (sw_rand ?w)"
    by (simp_all add: freshWorld_def saltLen_def NonceSizeX_def)
  from save [OF this] obtain w' where w': "saveIdentity ?L ?i ?w = (Inr (), w')" by blast
  obtain t where t: "storedFor ?i t" "sw_file w' = Content (sl_marshal ?L t)"
    and tp: "si_Protection t = preferredProtection ?L ?w \<or> preferredProtection ?L ?w = ProtectionDPAPI \<and> si_Protection t = ProtectionNone"
    using saveIdentity_ok [OF w'] by blast
  have d: "ProtectionPassphrase \<noteq> ProtectionDPAPI" "ProtectionPassphrase \<noteq> ProtectionNone" by (simp_all add: protection_defs)
  have tn: "si_Protection t = ProtectionPassphrase" using tp unfolding q using d(1) by blast
  have "sl_unmarshal ?L (sl_marshal ?L t) = Some t" using sampleLib_parts(1) storedFor_text(1) [OF t(1) v] by (simp add: storeJson_def)
  moreover have "t \<noteq> ?s" using tn d(2) by (auto simp: plainStored_def)
  ultimately have "sl_marshal ?L t \<noteq> sl_marshal ?L ?s" using j by (metis option.inject)
  then have "sw_file w' \<noteq> sw_file ?w" using t(2) by simp
  moreover have "loadIdentity ?L ?w = (Inr ?i, w')" using l u w' by (simp add: loadIdentity_def)
  ultimately show ?thesis using p by (intro exI [of _ ?w] exI [of _ w']) simp
qed


end
