(* ===== verification/Terminal.thy ===== *)
theory Terminal
  imports Room Connect Update IdentityStore
begin

text \<open>
  The text side of \<^verbatim>\<open>cmd/cmd-chat/main.go\<close>: what the commands of the terminal print and how a typed line is
  taken apart. A console is the list of the strings written to it, one for each \<^verbatim>\<open>Print\<close>.
\<close>

type_synonym console = "string list"

definition println :: "string \<Rightarrow> string" where "println s = s @ [nl]"

definition say :: "string list \<Rightarrow> console" where "say ls = map println ls"

definition cr :: char where "cr = CHR 0x0D"

definition tcpPort :: int where "tcpPort = 38556"
definition ipcAddress :: string where "ipcAddress = ''127.0.0.1:5050''"

section \<open>Arguments and commands\<close>

definition argsAfter :: "string list \<Rightarrow> nat \<Rightarrow> string list" where
  "argsAfter args n = (if length args \<le> n then [] else drop n args)"

text \<open>\<^verbatim>\<open>strings.SplitN(text, " ", 2)\<close>, the first part lowered.\<close>

definition splitCommand :: "string \<Rightarrow> string \<times> string" where
  "splitCommand text =
     (let command = toLower (trimSpace (takeWhile (\<lambda>c. c \<noteq> CHR '' '') text)) in
      if CHR '' '' \<notin> set text then (command, '''')
      else (command, trimSpace (drop 1 (dropWhile (\<lambda>c. c \<noteq> CHR '' '') text))))"

definition equalFold :: "string \<Rightarrow> string \<Rightarrow> bool" where
  "equalFold s t \<longleftrightarrow> toLower s = toLower t"

definition escapeAppleScript :: "string \<Rightarrow> string" where
  "escapeAppleScript s =
     concat (map (\<lambda>c. if c = CHR 0x22 then [CHR 0x5C, CHR 0x22] else [c])
       (concat (map (\<lambda>c. if c = CHR 0x5C then [CHR 0x5C, CHR 0x5C] else [c]) s)))"

text \<open>The text of an error, \<^verbatim>\<open>None\<close> being no error.\<close>

definition isAddrInUse :: "string option \<Rightarrow> bool" where
  "isAddrInUse err =
     (case err of
        None \<Rightarrow> False
      | Some e \<Rightarrow> (let t = toLower e in
          containsStr t ''address already in use'' \<or> containsStr t ''only one usage of each socket address''))"

section \<open>People\<close>

definition peerLabel :: "peer \<Rightarrow> string" where
  "peerLabel p = (if pe_Name p \<noteq> '''' then pe_Name p @ '' ('' @ shortID (pe_ID p) @ '')'' else shortID (pe_ID p))"

text \<open>\<^verbatim>\<open>%-24s\<close> pads to 24 runes.\<close>

definition padded :: "nat \<Rightarrow> string \<Rightarrow> string" where
  "padded k s = s @ replicate (k - length (runes (toBytes s))) (CHR '' '')"

definition showRoom :: "member list \<Rightarrow> string \<Rightarrow> console" where
  "showRoom members roomID =
     (if members = [] then say [''Nobody else is here yet.'', '''']
      else [println (decimalNat (length members) @ '' in this room:'')]
         @ map (\<lambda>m. println (''  '' @ padded 24 (memberDisplay m) @ '' '' @ shortID (m_ID m) @ (if m_Host m then ''   host'' else ''''))) members
         @ (if roomID \<noteq> '''' then [println (''Room ID: '' @ roomID)] else [])
         @ say [''''])"

definition showInvite :: "string \<Rightarrow> string \<Rightarrow> bool \<Rightarrow> console" where
  "showInvite roomID ownID hosting =
     say ['''', ''Share this room's ID:'', '''', ''    '' @ roomID, '''']
     @ (if hosting then say [''That is your own ID, because you are hosting. Anyone who pastes it joins you.'']
        else say [''That is the host's ID, not yours. Anyone who pastes it lands in this room.'',
               ''Your own ID ('' @ shortID ownID @ '') would start a separate chat with you instead.''])
     @ say ['''']"

section \<open>Verification\<close>

definition announceVerification :: "string \<Rightarrow> string \<Rightarrow> bool \<Rightarrow> console" where
  "announceVerification label safety firstContact =
     (if safety = '''' then []
      else say ['''']
        @ (if firstContact then say [''This is the first time you have connected to '' @ label @ ''.'',
              ''From now on CMD-Chat will refuse the connection if their identity key changes.'',
              ''To be sure nobody is in the middle right now, check that you both see:'']
           else say [''You have connected to '' @ label @ '' before, and their identity key is unchanged.'', ''Safety number:''])
        @ say ['''', ''    '' @ safety, '''']
        @ (if firstContact then say [
              ''Read it to each other on a call, or compare screens. If it matches, nobody'',
      ''is between you. If it does not, stop and work out why. Type /verify to see'',
      ''it again at any time.'',
      ''''] else []))"

definition showVerification :: "string \<Rightarrow> string \<Rightarrow> console" where
  "showVerification label safety =
     say ['''']
     @ (if safety = '''' then say [''There is no active chat to verify.'', '''']
        else say [''Safety number with '' @ label @ '':'', '''', ''    '' @ safety, '''',
          ''Both of you should see exactly this. Compare it on a call or in person.'',
      ''It stays the same for this pair of people, and changes only if one of'',
      ''your identity keys changes.'',
      ''''])"

text \<open>
  The error is what \<^verbatim>\<open>errors.Is\<close> says of the two sentinels and its text.
\<close>

definition reportHandshakeFailure :: "string \<Rightarrow> bool \<Rightarrow> string \<Rightarrow> console" where
  "reportHandshakeFailure version legacy message =
     say ['''']
     @ (if legacy then say [
          ''Could not connect: the other person is probably running an older CMD-Chat.'',
      '''',
      ''This version encrypts your messages against a future quantum computer, and'',
      ''an older one cannot. CMD-Chat refuses to fall back rather than quietly'',
      ''giving you weaker protection than you think you have.'',
      '''',
          ''You both need '' @ version @ '' or newer. Get it from'', ''https://github.com/ESP32-S3/CMD-Chat/releases/latest'']
        else if containsStr message ''different identity key'' then say [
          ''Refusing to connect: that ID is using a different identity key than before.'',
      '''',
      ''Either they reinstalled CMD-Chat and lost their old identity, or somebody'',
      ''is trying to impersonate them. CMD-Chat cannot tell those apart, so it'',
      ''stops here rather than guessing.'',
      '''',
      ''Check with them by some other means - a call, in person, anything that is'',
      ''not this chat. If they really did reinstall, run:'',
      '''',
      ''    cmd-chat forget <their-id>'',
      '''',
      ''and connect again. You will be asked to compare a new safety number.'']
        else if containsStr message ''fingerprint mismatch'' then say [
          ''Refusing to connect: the host's certificate is not the one that was published.'',
      ''Something is intercepting the connection, or the host restarted mid-lookup.'',
      ''Try again; if it keeps happening, do not proceed.'']
        else if containsStr message ''identity mismatch'' then say [
          ''Refusing to connect: the peer that answered is not the ID you asked for.'',
      ''Do not proceed. Check the ID with your friend directly.'']
        else say [''Connection failed: '' @ message])
     @ say ['''']"

section \<open>Notices\<close>

definition announceUpdate :: "string \<Rightarrow> release option \<Rightarrow> console" where
  "announceUpdate version r =
     (case r of
        None \<Rightarrow> []
      | Some r \<Rightarrow>
          say ['''', ''A newer CMD-Chat is available: '' @ rl_Version r @ '' (you have '' @ version @ '').'']
          @ (if rl_URL r \<noteq> '''' then say [''Download it from '' @ rl_URL r] else [])
          @ say [''You can keep chatting on this version; updating is optional.'', ''''])"

definition reportBlockedListener :: "bool \<Rightarrow> string \<Rightarrow> int \<Rightarrow> console" where
  "reportBlockedListener windows err port =
     say ['''', ''Could not open port '' @ decimalInt port @ '' for direct connections.'']
     @ (if isAddrInUse (Some err) then say [''Another copy of CMD-Chat is already using it.'',
          ''Close the other CMD-Chat window, then start this one again.'']
        else (if windows then say [
                ''Windows Firewall is blocking it. If you saw a prompt saying it had'',
      ''blocked some features of this app, choose Allow access next time.'',
      ''To fix it now: Windows Security > Firewall & network protection >'',
      ''Allow an app through firewall > Change settings > tick CMD-Chat.'']
              else say [''A local firewall is most likely blocking it.''])
          @ say [''You can still chat: CMD-Chat will use the encrypted relay instead.'', ''''])"

definition banner :: "string \<Rightarrow> string \<Rightarrow> string \<Rightarrow> bool \<Rightarrow> bool \<Rightarrow> console" where
  "banner version ownID name grouped direct =
     say [''========================================'', ''              CMD-Chat '' @ version, ''========================================'',
          ''Your ID: '' @ ownID, ''You appear as: '' @ name, '''',
      ''You are reachable now. Nobody has to \"start\" or \"join\" anything.'',
      ''Send your ID to a friend, or paste theirs below - whoever types the'',
      ''other's ID first connects, and the other side just waits here.'']
     @ (if grouped then say [''More than one person can join you; they will all see each other.'']
        else say [''Group chat is off: only one person at a time can join you.''])
     @ (if \<not> direct then say ['''', ''Note: direct connections are blocked on this machine; the relay is in use.''] else [])
     @ say ['''', ''Type ? for help, or /quit to exit.'', '''']"

definition readyHelp :: "string \<Rightarrow> string \<Rightarrow> bool \<Rightarrow> bool \<Rightarrow> console" where
  "readyHelp ownID name grouped direct =
     say [
      '''',
      ''Paste a friend's ID and press Enter to connect to them.'',
      ''Or do nothing: they can connect to you at any time.'',
      '''',
      ''  /id            show your ID again'',
      ''  /nick NAME     set the name others see (stored on this computer only)'',
      ''  /group on|off  allow more than one person into chats you host'',
      ''  /who           list who is in the room'',
      ''  /verify        show the safety number to compare with the other person'',
      ''  /invite        show the ID that invites someone into this room'',
      ''  /debug         open a debug terminal and record a crash log'',
      ''  /quit          close CMD-Chat (also leaves a chat)'',
      '''',
      ''Your ID: '' @ ownID, ''You appear as: '' @ name]
     @ (if grouped then say [''Group chat: ON - several people can join you and will see each other.'']
        else say [''Group chat: OFF - only one person at a time can join you.''])
     @ (if \<not> direct then say [''Direct connections are blocked here; chats go over the relay.''] else [])
     @ say ['''']"

definition usage :: "string \<Rightarrow> string \<Rightarrow> string \<Rightarrow> console" where
  "usage version phonebookURL relayURL =
     say [
      ''CMD-Chat - lightweight cross-platform terminal P2P chat'',
      ''Usage:'',
      ''  cmd-chat                 # open CMD-Chat; you are reachable immediately'',
      ''  cmd-chat id'',
      ''  cmd-chat version'',
      ''  cmd-chat endpoint'',
      ''  cmd-chat host [--port 38556] [--publish=false] [--relay=false] [--group=false]'',
      ''  cmd-chat join <persistent-id>        # LAN, then direct, then relay'',
      ''  cmd-chat forget <persistent-id>      # forget a remembered identity key'',
      ''  cmd-chat security                    # what is protecting this install'',
      ''  cmd-chat join --address host:port --fingerprint SHA256...'',
      '''',
      ''Opening CMD-Chat with no arguments already makes you reachable, so two'',
      ''people do not need to agree on who hosts: both open it, and whoever types'',
      ''the other's ID first connects. The host and join subcommands remain for'',
      ''scripts and for pinning one side of a connection.'',
      '''',
      ''Joining tries the local network first, then a direct connection using the'',
      ''addresses in the phonebook, and finally the relay if no direct path works.'',
      ''Hosting publishes your ID and address candidates so peers outside your LAN'',
      ''can find you; --publish=false stays LAN-only and --relay=false skips the relay.'',
      '''',
      ''Phonebook: '' @ phonebookURL @ '' (override with CMD_CHAT_PHONEBOOK_URL)'',
      ''Relay:     '' @ relayURL @ '' (override with CMD_CHAT_RELAY_URL)'',
      ''Set CMD_CHAT_TRANSPORT=lan|direct|relay to pin one path when diagnosing.'', '''',
      ''This build: '' @ version,
      ''On launch CMD-Chat asks GitHub whether a newer release exists and prints a'',
      ''notice if one does. It sends nothing about you. Set CMD_CHAT_NO_UPDATE_CHECK=1 to turn it off.'']"

definition protocolVersionName :: string where
  "protocolVersionName = protocolName @ ''/'' @ versionTag @ '' (CMDC2)''"

text \<open>The text of an error reading the stored identity is the library's and a parameter.\<close>

definition securityReport :: "(storeErr \<Rightarrow> string) \<Rightarrow> string \<Rightarrow> storeErr + string \<Rightarrow> console" where
  "securityReport wording ownID protection =
     say [''CMD-Chat security status'', '''', ''  Your ID              '' @ ownID,
      ''  Message encryption   '' @ protocolVersionName @ '' (end to end, above TLS 1.3)'',
      ''  Key agreement        hybrid X25519 + M'' @ ''L-KEM-768 (post-quantum)'',
      ''  Transport            TLS 1.3, certificate pinned where published'']
     @ (case protection of
          Inl e \<Rightarrow> say [''  Private key at rest  unknown ('' @ wording e @ '')'']
        | Inr p \<Rightarrow>
            (if p = ProtectionPassphrase then say [''  Private key at rest  encrypted with your passphrase (scrypt + XChaCha20-Poly1305)'']
             else if p = ProtectionDPAPI then say [''  Private key at rest  sealed by Windows to this user account (DPAPI)'']
             else say [''  Private key at rest  FILE PERMISSIONS ONLY'', ''                       Set CMD_CHAT_IDENTITY_PASSPHRASE to encrypt it.'']))
     @ say [
      '''',
      ''What this does not protect:'',
      ''  - a live impersonation by an attacker with a quantum computer: the'',
      ''    identity signatures are Ed25519, so compare safety numbers with /verify'',
      ''  - who you talk to, when, and roughly how much: the relay and the'',
      ''    phonebook see that, and encryption does not hide it'',
      ''  - anything on a device somebody else controls'',
      '''',
      ''See SECURITY.md in the repository for the full threat model.'',
      ''This code has not been independently audited.'']"

end
