(* ===== verification/Callers.thy ===== *)
theory Callers
  imports Room
begin

text \<open>
  What the host's room tells its callback: every peer \<^verbatim>\<open>OnPeer\<close> is called with, on arrival or departure, is the peer
  of one connection, with the ID its handshake authenticated, the safety number of the two keys and the trust
  store's word on a first contact.
\<close>

section \<open>Steps that announce nobody\<close>

definition keptRoom :: "room \<Rightarrow> room \<Rightarrow> bool" where
  "keptRoom h h' \<longleftrightarrow> h_inbound h' = h_inbound h \<and> h_announced h' = h_announced h \<and> h_phase h' = h_phase h
     \<and> (\<forall>c. sameLink (h_links h c) (h_links h' c))"

lemma keptRoom_refl [simp]: "keptRoom h h" by (simp add: keptRoom_def)

lemma keptRoom_trans: "keptRoom h g \<Longrightarrow> keptRoom g k \<Longrightarrow> keptRoom h k"
  unfolding keptRoom_def by (metis sameLink_trans)

lemma quiet_kept: "quietRoom h h' \<Longrightarrow> keptRoom h h'"
  unfolding keptRoom_def by (simp add: quietRoom_fields sameLink_def) (simp add: quietRoom_def sameLink_def)

lemma handle_kept:
  assumes "distinct (h_Clients h)"
  shows "keptRoom h (handlePacket C K table cid p h)"
proof -
  consider "pk_Type p = ''nick''" | "pk_Type p = ''msg''" | "pk_Type p \<noteq> ''nick''" "pk_Type p \<noteq> ''msg''" by blast
  then show ?thesis
  proof cases
    case 1
    define m where "m = h_member h cid"
    define renamed where "renamed = \<lparr>m_ID = m_ID m, m_Name = cleanNickname table (pk_Name p), m_Host = False\<rparr>"
    define h1 where "h1 = h\<lparr>h_members := map (\<lambda>(c, x). if c = cid then (c, renamed) else (c, x)) (h_members h)\<rparr>"
    define h2 where "h2 = (if h_group h1 \<and> memberDisplay renamed \<noteq> memberDisplay m
                   then sendRoster C K (systemf C K (memberDisplay m @ '' is now '' @ memberDisplay renamed) h1) else h1)"
    have q: "quietRoom h1 h2" using assms news_quiet [of h1] by (simp add: h2_def systemf_def h1_def)
    have e: "handlePacket C K table cid p h = h2\<lparr>h_member := (h_member h2)(cid := renamed)\<rparr>"
      by (simp only: handlePacket_def Let_def 1 if_True simp_thms m_def h1_def h2_def renamed_def)
    have "keptRoom h h1" by (simp add: keptRoom_def h1_def)
    moreover have "keptRoom h2 (h2\<lparr>h_member := (h_member h2)(cid := renamed)\<rparr>)" by (simp add: keptRoom_def)
    ultimately show ?thesis using quiet_kept [OF q] keptRoom_trans unfolding e by blast
  next
    case 2
    have s: "keptRoom h (snd (sendTo C K q cid h))" for q by (metis quiet_kept sendTo_quiet prod.collapse)
    let ?h1 = "h\<lparr>h_printed := h_printed h @ [printedLine (h_member h cid) (pk_Text p)]\<rparr>"
    have "keptRoom h ?h1" by (simp add: keptRoom_def)
    moreover have "keptRoom ?h1 (broadcastExcept C K q (Some cid) ?h1)" for q
      using assms by (intro quiet_kept broadcast_quiet) simp
    ultimately show ?thesis unfolding handlePacket_msg [OF 2] using s keptRoom_trans by (auto simp: Let_def)
  next
    case 3
    then show ?thesis by (simp add: handlePacket_other)
  qed
qed

section \<open>The callers\<close>

text \<open>A peer as connection \<^verbatim>\<open>c\<close> gives it.\<close>

definition peerOf :: "crypto \<Rightarrow> conn \<Rightarrow> peer \<Rightarrow> bool" where
  "peerOf C c p \<longleftrightarrow> pe_ID p = peer_ID (s_peer (cn_session c)) \<and> pe_SafetyNumber p = connSafetyNumber C c
     \<and> pe_FirstContact p = cn_firstContact c"

lemma peerOf_same: "sameLink c c' \<Longrightarrow> peerOf C c' p = peerOf C c p"
  by (simp add: peerOf_def sameLink_def connSafetyNumber_def)

definition roomCallers :: "crypto \<Rightarrow> room \<Rightarrow> bool" where
  "roomCallers C h \<longleftrightarrow> (\<forall>(p, gone) \<in> set (h_announced h). \<exists>c. peerOf C (h_links h c) p)
     \<and> (\<forall>c. h_phase h c = Admitted \<or> h_phase h c = Serving \<longrightarrow> peerOf C (h_links h c) (h_inbound h c))"

lemma kept_callers: "keptRoom h h' \<Longrightarrow> roomCallers C h \<Longrightarrow> roomCallers C h'"
proof -
  assume k: "keptRoom h h'" and r: "roomCallers C h"
  have p: "peerOf C (h_links h' c) q = peerOf C (h_links h c) q" for c q
    using k peerOf_same by (simp add: keptRoom_def)
  show "roomCallers C h'" using r k by (simp add: roomCallers_def p keptRoom_def)
qed

lemma leave_callers:
  assumes "roomCallers C h" "distinct (h_Clients h)" "peerOf C (h_links h cid) (h_inbound h cid)"
  shows "roomCallers C (leave C K cid h)"
proof -
  define h2 where "h2 = announcePeer (h_inbound h cid) True
     (h\<lparr>h_Clients := filter (\<lambda>c. c \<noteq> cid) (h_Clients h), h_members := filter (\<lambda>(c, m). c \<noteq> cid) (h_members h), h_phase := (h_phase h)(cid := Gone)\<rparr>)"
  have i: "roomCallers C h2" using assms(1,3) by (auto simp: roomCallers_def h2_def announcePeer_def)
  have d: "distinct (h_Clients h2)" using assms(2) by (simp add: h2_def announcePeer_def)
  have "leave C K cid h = closeLink cid (if h_group h2 then sendRoster C K (systemf C K (memberDisplay (h_member h cid) @ '' left'') h2) else h2)"
    by (simp add: leave_def h2_def Let_def)
  then show ?thesis
    using kept_callers [OF quiet_kept [OF closeLink_quiet]] kept_callers [OF quiet_kept [OF news_quiet [OF d]]] i
    by (auto simp: systemf_def)
qed

lemma greet_callers:
  assumes "roomCallers C h" "distinct (h_Clients h)" "h_phase h cid = Admitted"
  shows "roomCallers C (greet C K cid h)"
proof -
  obtain ok h1 where s: "sendTo C K ((packetOf ''hello'')\<lparr>pk_From := h_ID h, pk_Name := h_Name h, pk_Group := h_group h\<rparr>) cid h = (ok, h1)"
    by (metis surj_pair)
  note q = sendTo_quiet [OF s]
  have i1: "roomCallers C h1" by (rule kept_callers [OF quiet_kept [OF q] assms(1)])
  have f: "h_phase h1 = h_phase h" "h_inbound h1 = h_inbound h" "h_Clients h1 = h_Clients h"
    using quietRoom_fields [OF q] by simp_all
  have p: "peerOf C (h_links h1 cid) (h_inbound h1 cid)" using i1 assms(3) f by (simp add: roomCallers_def)
  define h2 where "h2 = announcePeer (h_inbound h cid) False (h1\<lparr>h_phase := (h_phase h1)(cid := Serving)\<rparr>)"
  have i2: "roomCallers C h2" using i1 p f by (auto simp: roomCallers_def h2_def announcePeer_def)
  have d: "distinct (h_Clients h2)" "distinct (h_Clients h1)" using assms(2) f by (simp_all add: h2_def announcePeer_def)
  have "greet C K cid h = (if \<not> ok then leave C K cid h1 else if h_group h2
      then sendRoster C K (broadcastExcept C K ((packetOf ''system'')\<lparr>pk_Text := memberDisplay (h_member h cid) @ '' joined''\<rparr>) (Some cid) h2) else h2)"
    unfolding greet_def s by (simp add: h2_def Let_def)
  then show ?thesis using leave_callers [OF i1 d(2) p] kept_callers [OF quiet_kept [OF news_quiet [OF d(1)]] i2] i2 by simp
qed

lemma admit_callers:
  assumes "roomCallers C h" "h_phase h cid = Unserved" "acceptedConn table (h_links h cid)"
  shows "roomCallers C (admit C K cid h)"
proof (cases "\<not> h_group h \<and> length (h_members h) > 0")
  case True
  let ?h1 = "closeLink cid (snd (sendTo C K ((packetOf ''error'')\<lparr>pk_Text := alreadyInChat\<rparr>) cid h))"
  have "quietRoom h ?h1" by (metis closeLink_quiet quietRoom_trans sendTo_quiet prod.collapse)
  then have "roomCallers C ?h1" "h_phase ?h1 = h_phase h" using kept_callers [OF quiet_kept assms(1)] quietRoom_fields(8) by blast+
  then have "roomCallers C (?h1\<lparr>h_phase := (h_phase h)(cid := Gone)\<rparr>)" by (auto simp: roomCallers_def)
  then show ?thesis using True by (simp add: admit_def Let_def)
next
  case False
  then show ?thesis using assms
    by (auto simp: admit_def Let_def roomCallers_def acceptedConn_def inboundPeer_def peerOf_def)
qed

lemma step_callers:
  assumes "room_step C K table h h'" "roomInv table h" "roomCallers C h"
  shows "roomCallers C h'"
proof -
  have d: "distinct (h_Clients h)" using assms(2) by (simp add: roomInv_def)
  show ?thesis using assms(1)
  proof cases
    case (arrives cid)
    then show ?thesis using admit_callers assms(3) by blast
  next
    case (greeted cid)
    then show ?thesis using greet_callers [OF assms(3) d] by blast
  next
    case (served cid clock)
    obtain r c' where r: "connReceive C K clock (h_links h cid) = (r, c')" by (metis surj_pair)
    let ?h1 = "h\<lparr>h_links := (h_links h)(cid := c')\<rparr>"
    have k: "keptRoom h ?h1" using connReceive_same [OF r] by (simp add: keptRoom_def)
    then have i: "roomCallers C ?h1" by (rule kept_callers [OF _ assms(3)])
    have p: "peerOf C (h_links ?h1 cid) (h_inbound ?h1 cid)" using i served(2) by (auto simp: roomCallers_def)
    have "roomCallers C (leave C K cid ?h1)" using leave_callers [OF i _ p] d by simp
    moreover have "roomCallers C (handlePacket C K table cid q ?h1)" for q
      using kept_callers [OF handle_kept i] d by simp
    ultimately show ?thesis using served r by (simp add: serveOne_def Let_def split: sum.split)
  next
    case (says p)
    then show ?thesis using assms(3) kept_callers [OF quiet_kept [OF broadcast_quiet [OF d]]] by (simp add: hostBroadcast_def)
  next
    case (renames n)
    let ?h1 = "h\<lparr>h_Name := cleanNickname table n\<rparr>"
    have "keptRoom h ?h1" by (simp add: keptRoom_def)
    then have i: "roomCallers C ?h1" by (rule kept_callers [OF _ assms(3)])
    have "roomCallers C (sendRoster C K ?h1)" using kept_callers [OF quiet_kept [OF roster_quiet] i] d by simp
    then show ?thesis using renames i by (simp add: setName_def Let_def)
  next
    case (switches b)
    then show ?thesis using assms(3) kept_callers [of h h'] by (simp add: setGroup_def keptRoom_def)
  next
    case disconnects
    then show ?thesis using kept_callers [OF quiet_kept [OF disconnect_quiet] assms(3)] by simp
  next
    case (network cid c')
    then show ?thesis using kept_callers [OF _ assms(3), of h'] by (simp add: keptRoom_def)
  qed
qed

lemma reach_callers: "room_reach C K table (newHost i n links) h \<Longrightarrow> roomCallers C h"
proof (induction rule: room_reach.induct)
  case room_here
  then show ?case by (simp add: newHost_def roomCallers_def)
next
  case (room_more h h')
  then show ?case using step_callers reach_inv by blast
qed

section \<open>What has been announced stays announced\<close>

definition announcesMore :: "room \<Rightarrow> room \<Rightarrow> bool" where
  "announcesMore h h' \<longleftrightarrow> (\<exists>new. h_announced h' = h_announced h @ new)"

lemma kept_more: "keptRoom h h' \<Longrightarrow> announcesMore h h'"
  by (simp add: keptRoom_def announcesMore_def)

lemma more_refl [simp]: "announcesMore h h" by (simp add: announcesMore_def)

lemma more_trans: "announcesMore h g \<Longrightarrow> announcesMore g k \<Longrightarrow> announcesMore h k"
  by (auto simp: announcesMore_def)

lemma leave_more:
  assumes "distinct (h_Clients h)"
  shows "announcesMore h (leave C K cid h)"
proof -
  define h2 where "h2 = announcePeer (h_inbound h cid) True
     (h\<lparr>h_Clients := filter (\<lambda>c. c \<noteq> cid) (h_Clients h), h_members := filter (\<lambda>(c, m). c \<noteq> cid) (h_members h), h_phase := (h_phase h)(cid := Gone)\<rparr>)"
  have 1: "announcesMore h h2" by (simp add: announcesMore_def h2_def announcePeer_def)
  have d: "distinct (h_Clients h2)" using assms by (simp add: h2_def announcePeer_def)
  have "leave C K cid h = closeLink cid (if h_group h2 then sendRoster C K (systemf C K (memberDisplay (h_member h cid) @ '' left'') h2) else h2)"
    by (simp add: leave_def h2_def Let_def)
  then have "announcesMore h2 (leave C K cid h)"
    by (auto simp: systemf_def intro: more_trans [OF kept_more [OF quiet_kept [OF news_quiet [OF d]]]] kept_more [OF quiet_kept [OF closeLink_quiet]])
  with 1 show ?thesis by (rule more_trans)
qed

lemma step_more:
  assumes "room_step C K table h h'" "roomInv table h"
  shows "announcesMore h h'"
proof -
  have d: "distinct (h_Clients h)" using assms(2) by (simp add: roomInv_def)
  show ?thesis using assms(1)
  proof cases
    case (arrives cid)
    let ?h1 = "closeLink cid (snd (sendTo C K ((packetOf ''error'')\<lparr>pk_Text := alreadyInChat\<rparr>) cid h))"
    have "quietRoom h ?h1" by (metis closeLink_quiet quietRoom_trans sendTo_quiet prod.collapse)
    then have "h_announced ?h1 = h_announced h" by (rule quietRoom_fields(9))
    then show ?thesis using arrives by (auto simp: admit_def Let_def announcesMore_def)
  next
    case (greeted cid)
    obtain ok h1 where s: "sendTo C K ((packetOf ''hello'')\<lparr>pk_From := h_ID h, pk_Name := h_Name h, pk_Group := h_group h\<rparr>) cid h = (ok, h1)"
      by (metis surj_pair)
    note q = sendTo_quiet [OF s]
    define h2 where "h2 = announcePeer (h_inbound h cid) False (h1\<lparr>h_phase := (h_phase h1)(cid := Serving)\<rparr>)"
    have 1: "announcesMore h h1" by (rule kept_more [OF quiet_kept [OF q]])
    have 2: "announcesMore h1 h2" by (simp add: announcesMore_def h2_def announcePeer_def)
    have d1: "distinct (h_Clients h1)" "distinct (h_Clients h2)"
      using d quietRoom_fields(4) [OF q] by (simp_all add: h2_def announcePeer_def)
    have "greet C K cid h = (if \<not> ok then leave C K cid h1 else if h_group h2
        then sendRoster C K (broadcastExcept C K ((packetOf ''system'')\<lparr>pk_Text := memberDisplay (h_member h cid) @ '' joined''\<rparr>) (Some cid) h2) else h2)"
      unfolding greet_def s by (simp add: h2_def Let_def)
    then show ?thesis
      using greeted 1 2 leave_more [OF d1(1)] kept_more [OF quiet_kept [OF news_quiet [OF d1(2)]]] more_trans by (simp split: if_splits)
  next
    case (served cid clock)
    obtain r c' where r: "connReceive C K clock (h_links h cid) = (r, c')" by (metis surj_pair)
    let ?h1 = "h\<lparr>h_links := (h_links h)(cid := c')\<rparr>"
    have 1: "announcesMore h ?h1" by (simp add: announcesMore_def)
    have "announcesMore ?h1 (leave C K cid ?h1)" using leave_more [of ?h1] d by simp
    moreover have "announcesMore ?h1 (handlePacket C K table cid q ?h1)" for q
      using kept_more [OF handle_kept] d by simp
    ultimately show ?thesis using served r more_trans [OF 1] by (simp add: serveOne_def Let_def split: sum.split)
  next
    case (says p)
    then show ?thesis using kept_more [OF quiet_kept [OF broadcast_quiet [OF d]]] by (simp add: hostBroadcast_def)
  next
    case (renames n)
    let ?h1 = "h\<lparr>h_Name := cleanNickname table n\<rparr>"
    have "announcesMore h ?h1" by (simp add: announcesMore_def)
    moreover have "announcesMore ?h1 (sendRoster C K ?h1)" using kept_more [OF quiet_kept [OF roster_quiet]] d by simp
    ultimately show ?thesis using renames more_trans by (auto simp: setName_def Let_def)
  next
    case (switches b)
    then show ?thesis by (simp add: setGroup_def announcesMore_def)
  next
    case disconnects
    then show ?thesis using kept_more [OF quiet_kept [OF disconnect_quiet]] by simp
  next
    case (network cid c')
    then show ?thesis by (simp add: announcesMore_def)
  qed
qed

end
