(* ===== verification/Station.thy ===== *)
theory Station
  imports Terminal Callers
begin

text \<open>
  The resident side of \<^verbatim>\<open>cmd/cmd-chat/main.go\<close>: the station that makes this computer reachable, the ready
  prompt, the chat with people who connected, and the \<^verbatim>\<open>host\<close> subcommand. The loops of the program wait in a
  \<^verbatim>\<open>select\<close> for the keyboard, for the station's two channels and for the update check: one turn of a loop is a
  function, the loop a transition of the terminal. Between the turns the room of the host runs on its own, and its
  callback fills the channels.
\<close>

section \<open>The station\<close>

text \<open>The functions \<^verbatim>\<open>close\<close> is to call.\<close>

datatype stopper = CloseListener | StopRelay | WithdrawListing | NothingToStop

record station =
  st_id :: identity
  st_host :: room
  st_port :: int
  st_peers :: "peer list"
  st_left :: "peer list"
  st_direct :: bool
  st_stop :: "stopper list"

text \<open>The capacity of the two channels.\<close>

definition stationBuffer :: nat where "stationBuffer = 8"

definition offer :: "peer \<Rightarrow> peer list \<Rightarrow> peer list" where
  "offer p q = (if length q < stationBuffer then q @ [p] else q)"

definition onPeer :: "peer \<Rightarrow> bool \<Rightarrow> station \<Rightarrow> station" where
  "onPeer p gone s = (if gone then s\<lparr>st_left := offer p (st_left s)\<rparr> else s\<lparr>st_peers := offer p (st_peers s)\<rparr>)"

definition drainLeft :: "station \<Rightarrow> station" where "drainLeft s = s\<lparr>st_left := []\<rparr>"
definition drainPeers :: "station \<Rightarrow> station" where "drainPeers s = s\<lparr>st_peers := []\<rparr>"

text \<open>The room goes from one state to another, and the callback hears what it announces on the way.\<close>

definition hearRoom :: "room \<Rightarrow> station \<Rightarrow> station" where
  "hearRoom h' s = foldl (\<lambda>s (p, gone). onPeer p gone s) (s\<lparr>st_host := h'\<rparr>)
     (drop (length (h_announced (st_host s))) (h_announced h'))"

section \<open>The terminal\<close>

text \<open>What the program runs with: the libraries, its version, the text of a failed save, whether the debug log is on
  and what opening a debug terminal gives.\<close>

record deskEnv =
  de_crypto :: crypto
  de_json :: packetJson
  de_profile :: profileJson
  de_version :: string
  de_saveError :: string
  de_debug :: bool
  de_launch :: "string option"

record desk =
  dk_station :: station
  dk_profile :: profileWorld
  dk_console :: console
  dk_stopped :: "stopper list"

definition emit :: "console \<Rightarrow> desk \<Rightarrow> desk" where
  "emit out d = d\<lparr>dk_console := dk_console d @ out\<rparr>"

definition prompt :: "desk \<Rightarrow> desk" where "prompt = emit [''> '']"

definition deskName :: "deskEnv \<Rightarrow> desk \<Rightarrow> string" where
  "deskName E d = nameOf (de_profile E) (dk_profile d)"

definition deskTable :: "deskEnv \<Rightarrow> nat \<Rightarrow> bool" where "deskTable E = pj_graphic (de_profile E)"

definition onRoom :: "(room \<Rightarrow> room) \<Rightarrow> desk \<Rightarrow> desk" where
  "onRoom f d = d\<lparr>dk_station := hearRoom (f (st_host (dk_station d))) (dk_station d)\<rparr>"

definition ownID :: "desk \<Rightarrow> string" where "ownID d = idn_ID (st_id (dk_station d))"

abbreviation deskRoom :: "desk \<Rightarrow> room" where "deskRoom d \<equiv> st_host (dk_station d)"

section \<open>Commands\<close>

text \<open>
  \<^verbatim>\<open>setNickname\<close>: the nickname is saved, then the live chat is told, \<^verbatim>\<open>notify\<close> being what is done with it.
\<close>

definition setNicknameCmd ::
  "deskEnv \<Rightarrow> string \<Rightarrow> (string \<Rightarrow> 's \<Rightarrow> 's) option \<Rightarrow> profileWorld \<times> 's \<Rightarrow> (profileWorld \<times> 's) \<times> console" where
  "setNicknameCmd E argument notify ws =
     (case ws of (w, s) \<Rightarrow>
       let wanted = cleanNickname (pj_graphic (de_profile E)) argument in
       if argument \<noteq> '''' \<and> wanted = '''' then ((w, s), say [''That nickname has no printable characters in it.'', ''''])
       else case setNickname (de_profile E) wanted w of
         (False, w') \<Rightarrow> ((w', s), say [''Could not save the nickname: '' @ de_saveError E, ''''])
       | (True, w') \<Rightarrow>
           (let n = nameOf (de_profile E) w';
                s' = (case notify of None \<Rightarrow> s | Some f \<Rightarrow> f n s)
            in ((w', s'),
                say [if wanted = '''' then ''Nickname cleared. You now appear as '' @ n @ ''.'' else ''You now appear as '' @ n @ ''.'',
                     ''This is stored on this computer only - it is never published.'', ''''])))"

definition nickCommand :: "deskEnv \<Rightarrow> string \<Rightarrow> desk \<Rightarrow> desk" where
  "nickCommand E argument d =
     (case setNicknameCmd E argument (Some (\<lambda>n. onRoom (setName (de_crypto E) (de_json E) (deskTable E) n))) (dk_profile d, d) of
        ((w', d'), out) \<Rightarrow> emit out (d'\<lparr>dk_profile := w'\<rparr>))"

definition applyGroup :: "deskEnv \<Rightarrow> bool \<Rightarrow> desk \<Rightarrow> desk" where
  "applyGroup E enabled d =
     (let d1 = onRoom (setGroup enabled) d in
      case setGroupChatEnabled (de_profile E) enabled (dk_profile d1) of
        (ok, w') \<Rightarrow>
          (let d2 = d1\<lparr>dk_profile := w'\<rparr>;
               d3 = (if ok then d2 else emit (say [''Applied for now, but could not save it for next time: '' @ de_saveError E]) d2);
               d4 = (if enabled then emit (say [''Group chat is ON. Several people can join you, and they will see each other.'']) d3
                     else emit (say (''Group chat is OFF. Only one person at a time can join you.''
                            # (if hostCount (deskRoom d3) > 1 then [''Anyone already here stays; this applies to the next person who tries.''] else []))) d3)
           in emit (say ['''']) d4))"

definition setGroupChat :: "deskEnv \<Rightarrow> string \<Rightarrow> desk \<Rightarrow> desk" where
  "setGroupChat E argument d =
     (let a = toLower (trimSpace argument) in
      if a \<in> set [''on'', ''yes'', ''true'', ''enable'', ''enabled''] then applyGroup E True d
      else if a \<in> set [''off'', ''no'', ''false'', ''disable'', ''disabled''] then applyGroup E False d
      else if a = '''' then
        emit (say [if h_group (deskRoom d) then ''Group chat is ON: several people can join you and will see each other.''
                   else ''Group chat is OFF: only one person at a time can join you.'',
                   ''Use /group on or /group off to change it.'', '''']) d
      else emit (say [''Use /group on or /group off.'', '''']) d)"

text \<open>What both chats of the host do with a message of its own.\<close>

definition speak :: "deskEnv \<Rightarrow> string \<Rightarrow> desk \<Rightarrow> desk" where
  "speak E message d =
     (let n = deskName E d;
          d1 = onRoom (hostBroadcast (de_crypto E) (de_json E)
                 ((packetOf ''msg'')\<lparr>pk_From := ownID d, pk_Name := n, pk_Text := message\<rparr>)) d
      in emit [cr # ''['' @ n @ ''] '' @ message @ [nl]] d1)"

section \<open>The modes of the terminal\<close>

text \<open>
  Where the program waits: at the ready prompt, in \<^verbatim>\<open>hostChat\<close> with the peer that opened it, for the answer of the
  debug menu, in \<^verbatim>\<open>joinPeer\<close> with its target, in the loop of the \<^verbatim>\<open>host\<close> subcommand; or it has returned.
\<close>

datatype mode = AtPrompt | Hosting peer | AskedDebug | Away string | HostOnly | Returned

text \<open>What the keyboard channel gives.\<close>

datatype input = Typed string | InputEnded

definition closeStation :: "desk \<Rightarrow> desk" where
  "closeStation d = (let d1 = onRoom disconnectAll d in d1\<lparr>dk_stopped := dk_stopped d1 @ rev (st_stop (dk_station d1))\<rparr>)"

subsection \<open>\<open>hostChat\<close>\<close>

definition hostChatStart :: "deskEnv \<Rightarrow> peer \<Rightarrow> desk \<Rightarrow> mode \<times> desk" where
  "hostChatStart E first d =
     (let d1 = d\<lparr>dk_station := drainLeft (dk_station d)\<rparr>;
          out = say [peerLabel first @ '' connected to you.'']
            @ announceVerification (peerLabel first) (pe_SafetyNumber first) (pe_FirstContact first)
            @ say [if h_group (deskRoom d1) then ''Others can join with /invite. /who lists the room. /quit ends it.''
                   else ''Type messages below. /quit leaves the chat.'']
      in (Hosting first, prompt (emit out d1)))"

definition hostChatInput :: "deskEnv \<Rightarrow> peer \<Rightarrow> input \<Rightarrow> desk \<Rightarrow> mode \<times> desk" where
  "hostChatInput E first i d =
     (case i of
        InputEnded \<Rightarrow> (AtPrompt, prompt d)
      | Typed line \<Rightarrow>
          (let message = trimSpace line; (command, argument) = splitCommand message in
           if command \<in> set [''/quit'', ''/exit''] then
             (let d1 = onRoom disconnectAll d;
                  d2 = d1\<lparr>dk_station := drainPeers (drainLeft (dk_station d1))\<rparr>
              in (AtPrompt, prompt (emit (say [''Left the chat. You are still reachable.'', '''']) d2)))
           else (Hosting first, prompt (
             if command \<in> set [''/who'', ''/room''] then emit (showRoom (hostMembers (deskRoom d)) (ownID d)) d
             else if command \<in> set [''/verify'', ''/safety''] then emit (showVerification (peerLabel first) (pe_SafetyNumber first)) d
             else if command = ''/invite'' then emit (showInvite (ownID d) (ownID d) True) d
             else if command \<in> set [''/nick'', ''/name''] then nickCommand E argument d
             else if command = ''/group'' then setGroupChat E argument d
             else if message = '''' then d
             else speak E message d))))"

definition hostChatPeer :: "peer \<Rightarrow> desk \<Rightarrow> desk" where
  "hostChatPeer p d =
     prompt (emit ([cr # ''* '' @ peerLabel p @ '' joined - '' @ decimalNat (hostCount (deskRoom d)) @ '' here'' @ [nl]]
       @ announceVerification (peerLabel p) (pe_SafetyNumber p) (pe_FirstContact p)) d)"

definition hostChatLeft :: "peer \<Rightarrow> peer \<Rightarrow> desk \<Rightarrow> mode \<times> desk" where
  "hostChatLeft first p d =
     (if int (hostCount (deskRoom d)) - 1 \<le> 0 then
        (AtPrompt, prompt (emit [cr # ''* '' @ peerLabel p @ '' left - the room is empty. You are still reachable.'' @ [nl, nl]] d))
      else (Hosting first, prompt (emit [cr # ''* '' @ peerLabel p @ '' left - '' @ decimalNat (hostCount (deskRoom d)) @ '' here'' @ [nl]] d)))"

subsection \<open>The ready prompt\<close>

definition debugMenu :: "deskEnv \<Rightarrow> desk \<Rightarrow> mode \<times> desk" where
  "debugMenu E d =
     (let d1 = emit (say ['''', ''Debug / crash logs'']) d in
      if de_debug E then
        (AtPrompt, prompt (emit (say [''Debug logging: ENABLED'', ''Debug events and panic crash reports are being recorded.'', '''']) d1))
      else (AskedDebug, emit (say [''This opens a second terminal running CMD-Chat in debug mode.'',
              ''Keep it open while reproducing the problem.''] @ [''Open debug terminal? (y/n): '']) d1))"

definition debugAnswer :: "deskEnv \<Rightarrow> input \<Rightarrow> desk \<Rightarrow> mode \<times> desk" where
  "debugAnswer E i d =
     (AtPrompt, prompt (case i of
        InputEnded \<Rightarrow> d
      | Typed line \<Rightarrow>
          (let answer = trimSpace line in
           if \<not> equalFold answer ''y'' \<and> \<not> equalFold answer ''yes'' then emit (say [''Debug logging remains disabled.'', '''']) d
           else case de_launch E of
             Some err \<Rightarrow> emit (say [''Could not open debug terminal: '' @ err, '''']) d
           | None \<Rightarrow> emit (say [''Debug terminal opened. Reproduce the problem there.'', '''']) d)))"

definition runCommand :: "deskEnv \<Rightarrow> string \<Rightarrow> desk \<Rightarrow> mode \<times> desk" where
  "runCommand E message d =
     (let (command, argument) = splitCommand message; stay = (\<lambda>d. (AtPrompt, prompt d)); low = toLower message in
      if hasPrefix command ''/'' \<and> command \<in> set [''/nick'', ''/name''] then stay (nickCommand E argument d)
      else if hasPrefix command ''/'' \<and> command = ''/group'' then stay (setGroupChat E argument d)
      else if hasPrefix command ''/'' \<and> command \<in> set [''/who'', ''/room''] then
        stay (emit (showRoom (hostMembers (deskRoom d)) (ownID d)) d)
      else if hasPrefix command ''/'' \<and> command = ''/invite'' then stay (emit (showInvite (ownID d) (ownID d) True) d)
      else if low = '''' then stay d
      else if low \<in> set [''5'', ''exit'', ''quit'', ''/quit'', ''/exit''] then (Returned, closeStation d)
      else if low \<in> set [''3'', ''id'', ''/id''] then
        stay (emit ([nl # ''Your ID: '' @ ownID d @ [nl, nl]] @ say [''Give this ID to whoever wants to chat with you.'', '''']) d)
      else if low \<in> set [''4'', ''debug'', ''/debug''] then debugMenu E d
      else if low \<in> set [''?'', ''/?'', ''help'', ''/help''] then
        stay (emit (readyHelp (ownID d) (deskName E d) (h_group (deskRoom d)) (st_direct (dk_station d))) d)
      else if low \<in> set [''1'', ''2'', ''start'', ''host'', ''join''] then
        stay (emit (say ['''', ''There is no separate start/join step any more - you are already hosting.'',
               ''Share your ID ('' @ ownID d @ ''), or paste your friend's ID here.'', '''']) d)
      else if \<not> ValidID message then
        stay (emit (say [''That does not look like a CMD-Chat ID. They look like cc-XXXXXXXXXXXXXXXX.'', ''Type ? for help.'']) d)
      else if equalFold message (ownID d) then
        stay (emit (say [''That is your own ID. Paste your friend's ID instead.'']) d)
      else (Away message, d))"

definition readyInput :: "deskEnv \<Rightarrow> input \<Rightarrow> desk \<Rightarrow> mode \<times> desk" where
  "readyInput E i d = (case i of InputEnded \<Rightarrow> (Returned, closeStation d) | Typed line \<Rightarrow> runCommand E (trimSpace line) d)"

definition readyPeer :: "deskEnv \<Rightarrow> peer \<Rightarrow> desk \<Rightarrow> mode \<times> desk" where
  "readyPeer E p d = hostChatStart E p (emit (say ['''']) d)"

text \<open>The update channel: a release, or its closing.\<close>

definition updateArrives :: "deskEnv \<Rightarrow> release option \<Rightarrow> desk \<Rightarrow> desk" where
  "updateArrives E r d = prompt (emit (announceUpdate (de_version E) r) (emit [[cr]] d))"

subsection \<open>The \<open>host\<close> subcommand\<close>

definition hostInput :: "deskEnv \<Rightarrow> input \<Rightarrow> desk \<Rightarrow> mode \<times> desk" where
  "hostInput E i d =
     (case i of
        InputEnded \<Rightarrow> (Returned, closeStation d)
      | Typed line \<Rightarrow>
          (let message = trimSpace line in
           if message = ''/quit'' then (Returned, closeStation d)
           else if message = '''' then (HostOnly, prompt d)
           else (HostOnly, prompt (speak E message d))))"

definition hostPeer :: "peer \<Rightarrow> desk \<Rightarrow> desk" where
  "hostPeer p d = prompt (emit ([cr # peerLabel p @ '' connected to you.'' @ [nl]]
     @ announceVerification (peerLabel p) (pe_SafetyNumber p) (pe_FirstContact p)) d)"

definition hostLeft :: "peer \<Rightarrow> desk \<Rightarrow> desk" where
  "hostLeft p d = prompt (emit [cr # peerLabel p @ '' left the chat.'' @ [nl]] d)"

section \<open>The terminal as it runs\<close>

definition deskInput :: "deskEnv \<Rightarrow> mode \<Rightarrow> input \<Rightarrow> desk \<Rightarrow> mode \<times> desk" where
  "deskInput E m i d =
     (case m of AtPrompt \<Rightarrow> readyInput E i d | Hosting first \<Rightarrow> hostChatInput E first i d | AskedDebug \<Rightarrow> debugAnswer E i d
      | HostOnly \<Rightarrow> hostInput E i d | _ \<Rightarrow> (m, d))"

definition deskPeer :: "deskEnv \<Rightarrow> mode \<Rightarrow> peer \<Rightarrow> desk \<Rightarrow> mode \<times> desk" where
  "deskPeer E m p d =
     (case m of AtPrompt \<Rightarrow> readyPeer E p d | Hosting first \<Rightarrow> (m, hostChatPeer p d) | HostOnly \<Rightarrow> (m, hostPeer p d) | _ \<Rightarrow> (m, d))"

definition deskLeft :: "mode \<Rightarrow> peer \<Rightarrow> desk \<Rightarrow> mode \<times> desk" where
  "deskLeft m p d = (case m of Hosting first \<Rightarrow> hostChatLeft first p d | HostOnly \<Rightarrow> (m, hostLeft p d) | _ \<Rightarrow> (m, d))"

definition hears :: "mode \<Rightarrow> bool" where
  "hears m \<longleftrightarrow> (case m of AtPrompt \<Rightarrow> True | Hosting _ \<Rightarrow> True | HostOnly \<Rightarrow> True | _ \<Rightarrow> False)"

definition hearsLeaving :: "mode \<Rightarrow> bool" where
  "hearsLeaving m \<longleftrightarrow> (case m of Hosting _ \<Rightarrow> True | HostOnly \<Rightarrow> True | _ \<Rightarrow> False)"

text \<open>
  A turn of the loop the program is in, taking what its \<^verbatim>\<open>select\<close> has received, a step of the room, which runs
  whatever the terminal does, or the end of a chat as a guest, in which the nickname may have changed.
\<close>

inductive desk_step :: "deskEnv \<Rightarrow> mode \<times> desk \<Rightarrow> mode \<times> desk \<Rightarrow> bool" for E where
  typed: "desk_step E (m, d) (deskInput E m i d)"
| peerTaken: "hears m \<Longrightarrow> st_peers (dk_station d) = p # ps \<Longrightarrow>
     desk_step E (m, d) (deskPeer E m p (d\<lparr>dk_station := (dk_station d)\<lparr>st_peers := ps\<rparr>\<rparr>))"
| leftTaken: "hearsLeaving m \<Longrightarrow> st_left (dk_station d) = p # ps \<Longrightarrow>
     desk_step E (m, d) (deskLeft m p (d\<lparr>dk_station := (dk_station d)\<lparr>st_left := ps\<rparr>\<rparr>))"
| updated: "m = AtPrompt \<or> m = HostOnly \<Longrightarrow> desk_step E (m, d) (m, updateArrives E r d)"
| guestDone: "desk_step E (Away target, d) (AtPrompt, prompt (emit out (d\<lparr>dk_profile := w\<rparr>)))"
| roomMoves: "m \<noteq> Returned \<Longrightarrow> room_step (de_crypto E) (de_json E) (deskTable E) (deskRoom d) h' \<Longrightarrow>
     desk_step E (m, d) (m, d\<lparr>dk_station := hearRoom h' (dk_station d)\<rparr>)"

inductive desk_reach :: "deskEnv \<Rightarrow> mode \<times> desk \<Rightarrow> mode \<times> desk \<Rightarrow> bool" for E s0 where
  desk_here: "desk_reach E s0 s0"
| desk_more: "desk_reach E s0 s \<Longrightarrow> desk_step E s s' \<Longrightarrow> desk_reach E s0 s'"

inductive_cases desk_stepE: "desk_step E (m, d) s'"

section \<open>What the turns keep\<close>

lemma offer_len: "length q \<le> stationBuffer \<Longrightarrow> length (offer p q) \<le> stationBuffer"
  by (auto simp: offer_def)

lemma offer_set: "set (offer p q) \<subseteq> insert p (set q)" by (auto simp: offer_def)

lemma hear_fold:
  "let s' = foldl (\<lambda>s (p, gone). onPeer p gone s) s ps in
     st_host s' = st_host s \<and> st_id s' = st_id s \<and> st_stop s' = st_stop s \<and> st_direct s' = st_direct s \<and> st_port s' = st_port s
     \<and> (length (st_peers s) \<le> stationBuffer \<longrightarrow> length (st_peers s') \<le> stationBuffer)
     \<and> (length (st_left s) \<le> stationBuffer \<longrightarrow> length (st_left s') \<le> stationBuffer)
     \<and> set (st_peers s') \<subseteq> set (st_peers s) \<union> fst ` set ps \<and> set (st_left s') \<subseteq> set (st_left s) \<union> fst ` set ps"
proof (induction ps arbitrary: s)
  case Nil
  then show ?case by simp
next
  case (Cons x ps)
  obtain p g where x: "x = (p, g)" by (cases x)
  let ?s = "onPeer p g s"
  have o: "st_host ?s = st_host s" "st_id ?s = st_id s" "st_stop ?s = st_stop s" "st_direct ?s = st_direct s" "st_port ?s = st_port s"
    "length (st_peers s) \<le> stationBuffer \<longrightarrow> length (st_peers ?s) \<le> stationBuffer"
    "length (st_left s) \<le> stationBuffer \<longrightarrow> length (st_left ?s) \<le> stationBuffer"
    "set (st_peers ?s) \<subseteq> insert p (set (st_peers s))" "set (st_left ?s) \<subseteq> insert p (set (st_left s))"
    using offer_len offer_set by (auto simp: onPeer_def)
  show ?case using Cons.IH [of ?s] o by (auto simp: x Let_def)
qed

lemma hearRoom_fields [simp]:
  "st_host (hearRoom h s) = h" "st_id (hearRoom h s) = st_id s" "st_stop (hearRoom h s) = st_stop s" "st_direct (hearRoom h s) = st_direct s"
  "st_port (hearRoom h s) = st_port s"
  using hear_fold [of "s\<lparr>st_host := h\<rparr>" "drop (length (h_announced (st_host s))) (h_announced h)"]
  by (simp_all add: hearRoom_def Let_def)

lemma hearRoom_channels:
  "length (st_peers s) \<le> stationBuffer \<Longrightarrow> length (st_peers (hearRoom h s)) \<le> stationBuffer"
  "length (st_left s) \<le> stationBuffer \<Longrightarrow> length (st_left (hearRoom h s)) \<le> stationBuffer"
  "set (st_peers (hearRoom h s)) \<subseteq> set (st_peers s) \<union> fst ` set (h_announced h)"
  "set (st_left (hearRoom h s)) \<subseteq> set (st_left s) \<union> fst ` set (h_announced h)"
proof -
  let ?new = "drop (length (h_announced (st_host s))) (h_announced h)"
  have n: "fst ` set ?new \<subseteq> fst ` set (h_announced h)" by (intro image_mono set_drop_subset)
  note f = hear_fold [of "s\<lparr>st_host := h\<rparr>" ?new, unfolded Let_def hearRoom_def [symmetric]]
  show "length (st_peers s) \<le> stationBuffer \<Longrightarrow> length (st_peers (hearRoom h s)) \<le> stationBuffer"
    "length (st_left s) \<le> stationBuffer \<Longrightarrow> length (st_left (hearRoom h s)) \<le> stationBuffer"
    using f by simp_all
  show "set (st_peers (hearRoom h s)) \<subseteq> set (st_peers s) \<union> fst ` set (h_announced h)"
    using f n by (simp, blast)
  show "set (st_left (hearRoom h s)) \<subseteq> set (st_left s) \<union> fst ` set (h_announced h)"
    using f n by (simp, blast)
qed

text \<open>A room whose announcements did not change is heard in silence.\<close>

lemma hearRoom_quiet: "h_announced h = h_announced (st_host s) \<Longrightarrow> hearRoom h s = s\<lparr>st_host := h\<rparr>"
  by (simp add: hearRoom_def)

text \<open>
  The invariant of the terminal: its room is one the host's room can reach, the channels are within their capacity,
  and whoever is in them, or in the chat, is a caller the room announced.
\<close>

definition announcedIn :: "desk \<Rightarrow> peer set" where "announcedIn d = fst ` set (h_announced (deskRoom d))"

definition deskOk :: "deskEnv \<Rightarrow> room \<Rightarrow> mode \<times> desk \<Rightarrow> bool" where
  "deskOk E h0 s \<longleftrightarrow> (case s of (m, d) \<Rightarrow>
     room_reach (de_crypto E) (de_json E) (deskTable E) h0 (deskRoom d)
     \<and> length (st_peers (dk_station d)) \<le> stationBuffer \<and> length (st_left (dk_station d)) \<le> stationBuffer
     \<and> set (st_peers (dk_station d)) \<subseteq> announcedIn d \<and> set (st_left (dk_station d)) \<subseteq> announcedIn d
     \<and> (\<forall>p. m = Hosting p \<longrightarrow> p \<in> announcedIn d))"

text \<open>The turns only use the room through its own operations.\<close>

inductive room_uses :: "deskEnv \<Rightarrow> desk \<Rightarrow> desk \<Rightarrow> bool" for E where
  uses_room: "room_step (de_crypto E) (de_json E) (deskTable E) (deskRoom d) h' \<Longrightarrow> d' = d\<lparr>dk_station := hearRoom h' (dk_station d)\<rparr> \<Longrightarrow>
     room_uses E d d'"
| uses_nothing: "dk_station d' = dk_station d \<Longrightarrow> room_uses E d d'"
| drops: "st_host (dk_station d') = deskRoom d \<Longrightarrow> set (st_peers (dk_station d')) \<subseteq> set (st_peers (dk_station d)) \<Longrightarrow>
     set (st_left (dk_station d')) \<subseteq> set (st_left (dk_station d)) \<Longrightarrow>
     length (st_peers (dk_station d')) \<le> length (st_peers (dk_station d)) \<Longrightarrow>
     length (st_left (dk_station d')) \<le> length (st_left (dk_station d)) \<Longrightarrow> room_uses E d d'"
| uses_more: "room_uses E d d' \<Longrightarrow> room_uses E d' d'' \<Longrightarrow> room_uses E d d''"

lemma uses_emit: "room_uses E d d' \<Longrightarrow> room_uses E d (emit out d')"
  by (rule uses_more [OF _ uses_nothing]) (simp_all add: emit_def)

lemma uses_prompt: "room_uses E d d' \<Longrightarrow> room_uses E d (prompt d')"
  by (simp add: prompt_def uses_emit)

lemma uses_refl: "room_uses E d d" by (rule uses_nothing) simp

lemma uses_onRoom:
  "room_step (de_crypto E) (de_json E) (deskTable E) (deskRoom d) (f (deskRoom d)) \<Longrightarrow> room_uses E d (onRoom f d)"
  by (rule uses_room) (simp_all add: onRoom_def)

lemma uses_ok:
  assumes "room_uses E d d'" "deskOk E (newHost i n links) (m, d)"
  shows "deskOk E (newHost i n links) (AtPrompt, d') \<and> announcedIn d \<subseteq> announcedIn d'"
  using assms
proof (induction arbitrary: m)
  case (uses_room d h' d')
  have r: "room_reach (de_crypto E) (de_json E) (deskTable E) (newHost i n links) (deskRoom d)"
    using uses_room.prems by (simp add: deskOk_def)
  have r': "room_reach (de_crypto E) (de_json E) (deskTable E) (newHost i n links) h'"
    by (rule room_more [OF r uses_room.hyps(1)])
  have "announcesMore (deskRoom d) h'" by (rule step_more [OF uses_room.hyps(1) reach_inv [OF r]])
  then have more: "fst ` set (h_announced (deskRoom d)) \<subseteq> fst ` set (h_announced h')" by (auto simp: announcesMore_def)
  have "set (st_peers (dk_station d)) \<subseteq> fst ` set (h_announced (deskRoom d))"
    "set (st_left (dk_station d)) \<subseteq> fst ` set (h_announced (deskRoom d))"
    using uses_room.prems by (simp_all add: deskOk_def announcedIn_def)
  note sub = order_trans [OF this(1) more] order_trans [OF this(2) more]
  have "set (st_peers (hearRoom h' (dk_station d))) \<subseteq> fst ` set (h_announced h')"
    by (rule order_trans [OF hearRoom_channels(3)]) (simp add: sub)
  moreover have "set (st_left (hearRoom h' (dk_station d))) \<subseteq> fst ` set (h_announced h')"
    by (rule order_trans [OF hearRoom_channels(4)]) (simp add: sub)
  moreover note more
  ultimately show ?case using uses_room.prems uses_room.hyps(2) r' hearRoom_channels(1,2) [where s = "dk_station d" and h = h']
    by (simp add: deskOk_def announcedIn_def)
next
  case (uses_nothing d' d)
  then show ?case by (simp add: deskOk_def announcedIn_def)
next
  case (drops d' d)
  then show ?case by (auto simp: deskOk_def announcedIn_def)
next
  case (uses_more d d' d'')
  then show ?case by blast
qed

subsection \<open>The turns\<close>

lemma speak_uses: "room_uses E d (speak E t d)"
  unfolding speak_def Let_def by (intro uses_emit uses_onRoom says)

lemma nick_uses: "room_uses E d (nickCommand E a d)"
proof -
  have r: "room_uses E d (onRoom (setName (de_crypto E) (de_json E) (deskTable E) n) d)" for n
    by (intro uses_onRoom renames)
  have p: "room_uses E d (d'\<lparr>dk_profile := w'\<rparr>)" if "room_uses E d d'" for d' w'
    by (rule uses_more [OF that uses_nothing]) simp
  show ?thesis unfolding nickCommand_def setNicknameCmd_def Let_def
    by (auto split: prod.split bool.split intro!: uses_emit p r uses_refl)
qed

lemma group_uses: "room_uses E d (setGroupChat E a d)"
proof -
  have r: "room_uses E d (onRoom (setGroup b) d)" for b by (intro uses_onRoom switches)
  have p: "room_uses E d (d'\<lparr>dk_profile := w'\<rparr>)" if "room_uses E d d'" for d' w'
    by (rule uses_more [OF that uses_nothing]) simp
  have "room_uses E d (applyGroup E b d)" for b
    unfolding applyGroup_def Let_def by (auto split: prod.split intro!: uses_emit p r)
  then show ?thesis unfolding setGroupChat_def Let_def by (auto intro!: uses_emit uses_refl)
qed

lemma disc_uses: "room_uses E d (onRoom disconnectAll d)"
  by (rule uses_onRoom) (rule disconnects)

lemma close_uses: "room_uses E d (closeStation d)"
  unfolding closeStation_def Let_def
  by (rule uses_more [OF disc_uses uses_nothing]) simp

lemma drain_uses: "room_uses E d (d\<lparr>dk_station := drainPeers (drainLeft (dk_station d))\<rparr>)" "room_uses E d (d\<lparr>dk_station := drainLeft (dk_station d)\<rparr>)"
  by (rule drops; simp add: drainPeers_def drainLeft_def)+

lemma start_uses: "room_uses E d (snd (hostChatStart E p d))"
  unfolding hostChatStart_def Let_def snd_conv by (intro uses_prompt uses_emit drain_uses)

lemma uses_if:
  "room_uses E d (snd x) \<Longrightarrow> room_uses E d (snd y) \<Longrightarrow> room_uses E d (snd (if b then x else y))"
  "room_uses E d z \<Longrightarrow> room_uses E d w \<Longrightarrow> room_uses E d (if b then z else w)"
  "room_uses E d z \<Longrightarrow> room_uses E d (snd (m, z))"
  by simp_all

lemmas turn_uses = uses_if uses_prompt uses_emit uses_refl speak_uses nick_uses group_uses close_uses

lemma hostChatInput_uses: "room_uses E d (snd (hostChatInput E p i d))"
proof -
  have q: "room_uses E d ((onRoom disconnectAll d)\<lparr>dk_station := drainPeers (drainLeft (dk_station (onRoom disconnectAll d)))\<rparr>)"
    by (rule uses_more [OF disc_uses drain_uses(1)])
  show ?thesis
  proof (cases i)
    case (Typed line)
    obtain command argument where "splitCommand (trimSpace line) = (command, argument)" by (metis surj_pair)
    then show ?thesis unfolding hostChatInput_def Typed
      by (simp only: Let_def input.case prod.case) (intro turn_uses q)
  qed (simp add: hostChatInput_def turn_uses)
qed

lemma debug_uses: "room_uses E d (snd (debugMenu E d))" "room_uses E d (snd (debugAnswer E i d))"
proof -
  show "room_uses E d (snd (debugMenu E d))" unfolding debugMenu_def Let_def by (intro turn_uses)
  show "room_uses E d (snd (debugAnswer E i d))" unfolding debugAnswer_def Let_def
    by (cases i; cases "de_launch E") (simp_all only: input.case option.case, (intro turn_uses)+)
qed

lemma runCommand_uses: "room_uses E d (snd (runCommand E t d))"
proof -
  obtain command argument where "splitCommand t = (command, argument)" by (metis surj_pair)
  then show ?thesis unfolding runCommand_def
    by (simp only: Let_def prod.case) (intro turn_uses debug_uses)
qed

lemma hostInput_uses: "room_uses E d (snd (hostInput E i d))"
  unfolding hostInput_def Let_def by (cases i) (simp_all only: input.case, (intro turn_uses)+)

lemma input_uses: "room_uses E d (snd (deskInput E m i d))"
proof (cases m)
  case AtPrompt
  then show ?thesis by (cases i) (simp_all add: deskInput_def readyInput_def runCommand_uses close_uses)
qed (simp_all add: deskInput_def hostChatInput_uses debug_uses hostInput_uses uses_refl)

text \<open>Only taking a caller opens a chat.\<close>

lemma not_hosting_if:
  "fst x \<noteq> Hosting p \<Longrightarrow> fst y \<noteq> Hosting p \<Longrightarrow> fst (if b then x else y) \<noteq> Hosting p"
  "m \<noteq> Hosting p \<Longrightarrow> fst (m, d) \<noteq> Hosting p"
  by simp_all

lemma runCommand_mode: "fst (runCommand E t d) \<noteq> Hosting p"
proof -
  obtain command argument where s: "splitCommand t = (command, argument)" by (metis surj_pair)
  have "fst (debugMenu E d) \<noteq> Hosting p" by (simp add: debugMenu_def Let_def)
  then show ?thesis unfolding runCommand_def s
    by (simp only: Let_def prod.case) (intro not_hosting_if, simp_all)
qed

lemma input_mode: "fst (deskInput E m i d) = Hosting p \<Longrightarrow> m = Hosting p"
proof (cases m)
  case AtPrompt
  assume "fst (deskInput E m i d) = Hosting p"
  then show ?thesis using AtPrompt runCommand_mode [of E _ d p] by (cases i) (auto simp: deskInput_def readyInput_def)
next
  case (Hosting f)
  assume a: "fst (deskInput E m i d) = Hosting p"
  show ?thesis
  proof (cases i)
    case (Typed line)
    obtain command argument where s: "splitCommand (trimSpace line) = (command, argument)" by (metis surj_pair)
    have "fst (if b then (AtPrompt, x) else (Hosting f, y)) = Hosting p \<Longrightarrow> f = p" for b and x y :: desk by (simp split: if_splits)
    then show ?thesis using a unfolding Hosting deskInput_def hostChatInput_def Typed
      by (simp only: Let_def mode.case input.case s prod.case) blast
  qed (use a Hosting in \<open>simp add: deskInput_def hostChatInput_def\<close>)
qed (auto simp: deskInput_def debugAnswer_def hostInput_def Let_def split: input.splits if_splits)

lemma step_ok:
  assumes "desk_step E s s'" "deskOk E (newHost n nm links) s"
  shows "deskOk E (newHost n nm links) s'"
proof -
  obtain m d where s: "s = (m, d)" by (cases s)
  note ok = assms(2) [unfolded s]
  have keep: "deskOk E (newHost n nm links) (m', d')" if "room_uses E d d'" "\<And>p. m' = Hosting p \<Longrightarrow> p \<in> announcedIn d" for m' d'
    using uses_ok [OF that(1) ok] that(2) by (auto simp: deskOk_def)
  have at: "m = Hosting p \<Longrightarrow> p \<in> announcedIn d" for p using ok by (simp add: deskOk_def)
  show ?thesis
  proof (rule desk_stepE [OF assms(1) [unfolded s]], goal_cases)
    case (1 i)
    have "deskOk E (newHost n nm links) (fst (deskInput E m i d), snd (deskInput E m i d))"
      using input_mode at by (intro keep input_uses) blast
    then show ?thesis using 1 by simp
  next
    case (2 p ps)
    let ?d = "d\<lparr>dk_station := (dk_station d)\<lparr>st_peers := ps\<rparr>\<rparr>"
    have p: "p \<in> announcedIn d" using ok 2 by (auto simp: deskOk_def)
    have u: "room_uses E d ?d" by (rule drops) (use 2 in auto)
    have "room_uses E d (snd (deskPeer E m p ?d))"
      by (rule uses_more [OF u])
         (auto simp: deskPeer_def readyPeer_def hostChatPeer_def hostPeer_def uses_refl split: mode.split
            intro!: uses_prompt uses_emit uses_more [OF uses_emit [OF uses_refl] start_uses])
    moreover have "fst (deskPeer E m p ?d) = Hosting q \<Longrightarrow> q \<in> announcedIn d" for q
      using p at by (auto simp: deskPeer_def readyPeer_def hostChatStart_def Let_def split: mode.splits)
    ultimately have "deskOk E (newHost n nm links) (fst (deskPeer E m p ?d), snd (deskPeer E m p ?d))" by (intro keep)
    then show ?thesis using 2 by simp
  next
    case (3 p ps)
    let ?d = "d\<lparr>dk_station := (dk_station d)\<lparr>st_left := ps\<rparr>\<rparr>"
    have u: "room_uses E d ?d" by (rule drops) (use 3 in auto)
    have "room_uses E d (snd (deskLeft m p ?d))"
      by (rule uses_more [OF u])
         (auto simp: deskLeft_def hostChatLeft_def hostLeft_def uses_refl split: mode.split intro!: uses_prompt uses_emit)
    moreover have "fst (deskLeft m p ?d) = Hosting q \<Longrightarrow> q \<in> announcedIn d" for q
      using at by (auto simp: deskLeft_def hostChatLeft_def split: mode.splits if_splits)
    ultimately have "deskOk E (newHost n nm links) (fst (deskLeft m p ?d), snd (deskLeft m p ?d))" by (intro keep)
    then show ?thesis using 3 by simp
  next
    case (4 r)
    have "room_uses E d (updateArrives E r d)" unfolding updateArrives_def by (intro uses_prompt uses_emit uses_refl)
    then show ?thesis using 4 at by (auto intro: keep)
  next
    case (5 target out w)
    have "room_uses E d (d\<lparr>dk_profile := w\<rparr>)" by (rule uses_nothing) simp
    then have "room_uses E d (prompt (emit out (d\<lparr>dk_profile := w\<rparr>)))" by (intro uses_prompt uses_emit)
    then show ?thesis using 5 by (auto intro: keep)
  next
    case (6 h')
    have "room_uses E d (d\<lparr>dk_station := hearRoom h' (dk_station d)\<rparr>)" by (rule uses_room [OF 6(3)]) simp
    then show ?thesis using 6 at by (auto intro: keep)
  qed
qed

lemma reach_ok:
  assumes "desk_reach E s0 s" "deskOk E (newHost n nm links) s0"
  shows "deskOk E (newHost n nm links) s"
  using assms
proof (induction rule: desk_reach.induct)
  case (desk_more s s')
  then show ?case using step_ok by blast
qed

text \<open>The terminal as it opens, at the ready prompt or in the \<^verbatim>\<open>host\<close> subcommand.\<close>

definition freshDesk :: "string \<Rightarrow> string \<Rightarrow> (nat \<Rightarrow> conn) \<Rightarrow> mode \<times> desk \<Rightarrow> bool" where
  "freshDesk i n links s \<longleftrightarrow> (case s of (m, d) \<Rightarrow> (m = AtPrompt \<or> m = HostOnly)
     \<and> (\<exists>b. deskRoom d = setGroup b (newHost i n links)) \<and> st_peers (dk_station d) = [] \<and> st_left (dk_station d) = [])"

lemma fresh_ok: "freshDesk i n links s \<Longrightarrow> deskOk E (newHost i n links) s"
  by (auto simp: freshDesk_def deskOk_def intro: room_more [OF room_here switches])

section \<open>Properties\<close>

text \<open>C19: whatever the keyboard, the callers and the update check do, the terminal uses the host's room only as the
  room allows, its channels hold at most eight events each, and every peer it has in them or is in a chat with
  carries the ID one of the connections authenticated, with that connection's safety number and first-contact
  mark.\<close>

theorem terminal_refines_room:
  assumes "freshDesk i n links s0" "desk_reach E s0 (m, d)"
  shows "room_reach (de_crypto E) (de_json E) (deskTable E) (newHost i n links) (deskRoom d)
    \<and> length (st_peers (dk_station d)) \<le> 8 \<and> length (st_left (dk_station d)) \<le> 8
    \<and> (\<forall>p. p \<in> set (st_peers (dk_station d)) \<or> p \<in> set (st_left (dk_station d)) \<or> m = Hosting p
         \<longrightarrow> (\<exists>c. peerOf (de_crypto E) (h_links (deskRoom d) c) p))"
proof -
  note ok = reach_ok [OF assms(2) fresh_ok [OF assms(1)]]
  have r: "room_reach (de_crypto E) (de_json E) (deskTable E) (newHost i n links) (deskRoom d)"
    using ok by (simp add: deskOk_def)
  have "p \<in> announcedIn d \<Longrightarrow> \<exists>c. peerOf (de_crypto E) (h_links (deskRoom d) c) p" for p
    using reach_callers [OF r] by (auto simp: announcedIn_def roomCallers_def)
  then show ?thesis using ok r by (auto simp: deskOk_def stationBuffer_def)
qed

lemma prompt_dials:
  assumes "deskInput E AtPrompt (Typed line) d = (Away target, d')"
  shows "target = trimSpace line \<and> ValidID target \<and> \<not> equalFold target (ownID d) \<and> d' = d"
proof -
  have r: "runCommand E t d = (Away target, d') \<Longrightarrow> target = t \<and> ValidID t \<and> \<not> equalFold t (ownID d) \<and> d' = d" for t
  proof -
    obtain command argument where s: "splitCommand t = (command, argument)" by (metis surj_pair)
    have m: "fst (debugMenu E d) \<noteq> Away target" by (simp add: debugMenu_def Let_def)
    have i: "(if b then (AtPrompt, x) else y) = (Away target, d') \<longleftrightarrow> \<not> b \<and> y = (Away target, d')"
      "(if b then (Returned, x) else y) = (Away target, d') \<longleftrightarrow> \<not> b \<and> y = (Away target, d')"
      "(if b then debugMenu E d else y) = (Away target, d') \<longleftrightarrow> \<not> b \<and> y = (Away target, d')" for b x y
      using m by auto
    assume "runCommand E t d = (Away target, d')"
    then show ?thesis unfolding runCommand_def s by (simp only: Let_def prod.case i) (elim conjE, simp)
  qed
  then show ?thesis using assms r [of "trimSpace line"] by (auto simp: deskInput_def readyInput_def)
qed

text \<open>C30: a caller who has left again before the prompt took the arrival is answered all the same: the departure
  waiting in the channel is thrown away, the chat opens in an empty room, and as long as nobody else comes only
  the keyboard ends it.\<close>

theorem departure_missed:
  assumes "st_left (dk_station d) = [p]" "st_peers (dk_station d) = []" "h_members (deskRoom d) = []"
    "deskPeer E AtPrompt p d = (m, d')"
  shows "m = Hosting p \<and> st_left (dk_station d') = [] \<and> hostCount (deskRoom d') = 1
    \<and> (\<forall>s'. desk_step E (m, d') s' \<longrightarrow> deskRoom (snd s') = deskRoom d' \<longrightarrow> fst s' = Hosting p \<or> (\<exists>i. s' = deskInput E m i d'))"
proof -
  have m: "m = Hosting p" "st_left (dk_station d') = []" "st_peers (dk_station d') = []" "deskRoom d' = deskRoom d"
    using assms by (auto simp: deskPeer_def readyPeer_def hostChatStart_def prompt_def emit_def drainLeft_def)
  have "fst s' = Hosting p \<or> (\<exists>i. s' = deskInput E m i d')" if "desk_step E (m, d') s'" for s'
    by (rule desk_stepE [OF that]) (use m in auto)
  then show ?thesis using m assms(3) by (simp add: hostCount_def)
qed

text \<open>A message of more than 4096 bytes the host types is sent to nobody, but shown on its screen exactly as one
  that was.\<close>

theorem long_line_looks_sent:
  assumes "length message > MaxMessageBytes"
  shows "dk_station (speak E message d) = dk_station d
    \<and> dk_console (speak E message d) = dk_console d @ [cr # ''['' @ deskName E d @ ''] '' @ message @ [nl]]"
proof -
  have "hostBroadcast C K ((packetOf ''msg'')\<lparr>pk_From := a, pk_Name := b, pk_Text := message\<rparr>) h = h" for C K a b h
    using assms by (simp add: hostBroadcast_def packetOf_def)
  then show ?thesis by (simp add: speak_def onRoom_def emit_def hearRoom_quiet)
qed

section \<open>A terminal at which the witnesses evaluate\<close>

definition sampleEnv :: deskEnv where
  "sampleEnv = \<lparr>de_crypto = plainCrypto, de_json = samplePacketJson, de_profile = sampleJson, de_version = ''v2.1.5'',
     de_saveError = ''denied'', de_debug = False, de_launch = None\<rparr>"

definition sampleDesk :: "room \<Rightarrow> desk" where
  "sampleDesk h = \<lparr>dk_station = \<lparr>st_id = \<lparr>idn_PrivateKey = [], idn_PublicKey = [], idn_ID = ''cc-BBBBBBBBBBBBBBBB''\<rparr>, st_host = h, st_port = 38556, st_peers = [], st_left = [], st_direct = True,
     st_stop = [CloseListener]\<rparr>, dk_profile = sampleWorld, dk_console = [], dk_stopped = []\<rparr>"

lemma sampleEnv_simps [simp]: "de_crypto sampleEnv = plainCrypto" "de_json sampleEnv = samplePacketJson" "deskTable sampleEnv = (\<lambda>_. True)"
  "de_profile sampleEnv = sampleJson"
  by (simp_all add: sampleEnv_def deskTable_def sampleJson_def)

lemma sampleDesk_simps [simp]: "deskRoom (sampleDesk h) = h" "st_peers (dk_station (sampleDesk h)) = []" "st_left (dk_station (sampleDesk h)) = []"
  by (simp_all add: sampleDesk_def)

text \<open>One guest arrives, with group chat off, and is greeted.\<close>

lemma sample_caller:
  "\<exists>s h1 h2 p. room_step plainCrypto samplePacketJson (\<lambda>_. True) (setGroup False (newHost ''cc-H'' ''h'' (sampleGuest s))) h1
     \<and> h_announced h1 = [] \<and> room_step plainCrypto samplePacketJson (\<lambda>_. True) h1 h2 \<and> h_announced h2 = [(p, False)]"
proof -
  note laws = crypto_law_parts(1-3) [OF plainCrypto_law]
  obtain s :: session and ck where s: "\<not> s_closed s" "sendChain (s_ratchet s) = Some ck" "sendCount (s_ratchet s) \<noteq> NOT 0" using sample_pair by metis
  let ?h0 = "setGroup False (newHost ''cc-H'' ''h'' (sampleGuest s))"
  define h1 where "h1 = admit plainCrypto samplePacketJson 0 ?h0"
  have h1: "h_links h1 = sampleGuest s" "h_announced h1 = []" "h_phase h1 0 = Admitted" "\<not> h_group h1"
    by (simp_all add: h1_def admit_def setGroup_def newHost_def Let_def)
  let ?p = "(packetOf ''hello'')\<lparr>pk_From := h_ID h1, pk_Name := h_Name h1, pk_Group := h_group h1\<rparr>"
  define g where "g = s\<lparr>s_peer := s_peer sampleSession\<rparr>"
  have g: "\<not> s_closed g" "sendChain (s_ratchet g) = Some ck" "sendCount (s_ratchet g) \<noteq> NOT 0" using s by (simp_all add: g_def)
  obtain c' where c': "connSend plainCrypto samplePacketJson ?p (sampleGuest s 0) = (Inr (), c')"
    using writeMessage_eq [OF laws g, of "cn_out (sampleGuest s 0)" "[]"]
    by (auto simp: connSend_def samplePacketJson_def packetOf_def MaxMessageBytes_def sampleGuest_def Chat.sampleConn_def g_def toBytes_def)
  define h2 where "h2 = greet plainCrypto samplePacketJson 0 h1"
  have "h_announced h2 = [(h_inbound h1 0, False)]"
    using c' h1 by (simp add: h2_def greet_def sendTo_def announcePeer_def Let_def)
  moreover have "room_step plainCrypto samplePacketJson (\<lambda>_. True) ?h0 h1" unfolding h1_def
    by (rule room_step.arrives) (simp_all add: setGroup_def newHost_def sample_accepted)
  moreover have "room_step plainCrypto samplePacketJson (\<lambda>_. True) h1 h2" unfolding h2_def by (rule room_step.greeted [OF h1(3)])
  ultimately show ?thesis using h1(2) by blast
qed

theorem terminal_refines_room_witness:
  "\<exists>s0 p d. desk_reach sampleEnv s0 (Hosting p, d) \<and> (\<exists>c. peerOf plainCrypto (h_links (deskRoom d) c) p)"
proof -
  obtain s h1 h2 p where h: "room_step plainCrypto samplePacketJson (\<lambda>_. True) (setGroup False (newHost ''cc-H'' ''h'' (sampleGuest s))) h1"
    "h_announced h1 = []" "room_step plainCrypto samplePacketJson (\<lambda>_. True) h1 h2" "h_announced h2 = [(p, False)]"
    using sample_caller by blast
  let ?d0 = "sampleDesk (setGroup False (newHost ''cc-H'' ''h'' (sampleGuest s)))"
  define d1 where "d1 = ?d0\<lparr>dk_station := hearRoom h1 (dk_station ?d0)\<rparr>"
  define d2 where "d2 = d1\<lparr>dk_station := hearRoom h2 (dk_station d1)\<rparr>"
  have r: "deskRoom d1 = h1" "deskRoom d2 = h2" by (simp_all add: d1_def d2_def)
  have "st_peers (dk_station d1) = []" using h(2) by (simp add: d1_def hearRoom_def)
  then have q: "st_peers (dk_station d2) = [p]" using h(2,4) r by (simp add: d2_def hearRoom_def onPeer_def offer_def stationBuffer_def)
  have f: "freshDesk ''cc-H'' ''h'' (sampleGuest s) (AtPrompt, ?d0)" by (auto simp: freshDesk_def)
  have 1: "desk_reach sampleEnv (AtPrompt, ?d0) (AtPrompt, d1)" unfolding d1_def
    by (rule desk_more [OF desk_here]) (rule desk_step.roomMoves, simp_all add: h)
  have 2: "desk_reach sampleEnv (AtPrompt, ?d0) (AtPrompt, d2)" unfolding d2_def
    by (rule desk_more [OF 1]) (rule desk_step.roomMoves, simp_all add: h r)
  have "desk_reach sampleEnv (AtPrompt, ?d0) (deskPeer sampleEnv AtPrompt p (d2\<lparr>dk_station := (dk_station d2)\<lparr>st_peers := []\<rparr>\<rparr>))"
    by (rule desk_more [OF 2]) (rule desk_step.peerTaken [where ps = "[]"], simp_all add: q hears_def)
  moreover obtain d where "deskPeer sampleEnv AtPrompt p (d2\<lparr>dk_station := (dk_station d2)\<lparr>st_peers := []\<rparr>\<rparr>) = (Hosting p, d)"
    by (simp add: deskPeer_def readyPeer_def hostChatStart_def Let_def)
  ultimately have r2: "desk_reach sampleEnv (AtPrompt, ?d0) (Hosting p, d)" by simp
  have "\<exists>c. peerOf plainCrypto (h_links (deskRoom d) c) p" using terminal_refines_room [OF f r2] by simp
  with r2 show ?thesis by blast
qed

definition samplePeer :: peer where
  "samplePeer = \<lparr>pe_ID = ''cc-A'', pe_Name = ''a'', pe_FirstContact = False, pe_SafetyNumber = ''''\<rparr>"

definition sampleDeparted :: desk where
  "sampleDeparted = (let d = sampleDesk (newHost ''cc-H'' ''h'' (sampleGuest sampleSession))
     in d\<lparr>dk_station := (dk_station d)\<lparr>st_left := [samplePeer]\<rparr>\<rparr>)"

theorem departure_missed_witness:
  "\<exists>m d'. st_left (dk_station sampleDeparted) = [samplePeer] \<and> deskPeer sampleEnv AtPrompt samplePeer sampleDeparted = (m, d')
     \<and> m = Hosting samplePeer \<and> hostCount (deskRoom d') = 1"
proof -
  have p: "st_left (dk_station sampleDeparted) = [samplePeer]" "st_peers (dk_station sampleDeparted) = []" "h_members (deskRoom sampleDeparted) = []"
    by (simp_all add: sampleDeparted_def Let_def newHost_def)
  obtain m d' where d: "deskPeer sampleEnv AtPrompt samplePeer sampleDeparted = (m, d')" by (metis surj_pair)
  from departure_missed [OF p d] have "m = Hosting samplePeer" "hostCount (deskRoom d') = 1" by blast+
  with p(1) d show ?thesis by blast
qed

theorem long_line_looks_sent_witness:
  "dk_station (speak sampleEnv (replicate 4097 CHR ''x'') (sampleDesk (newHost ''cc-H'' ''h'' (sampleGuest sampleSession))))
     = dk_station (sampleDesk (newHost ''cc-H'' ''h'' (sampleGuest sampleSession)))"
  using long_line_looks_sent [of "replicate 4097 CHR ''x''"] by (simp add: MaxMessageBytes_def)

end
