(* ===== verification/Guest.thy ===== *)
theory Guest
  imports Station
begin

text \<open>
  The visiting side of \<^verbatim>\<open>cmd/cmd-chat/main.go\<close>: \<^verbatim>\<open>joinPeer\<close>, which reaches a peer by ID, and \<^verbatim>\<open>chatSession\<close>,
  which runs both handshakes, greets and then loops. The loop and the goroutine that reads the connection share a
  buffered channel: a state holds both, and a step relation lets the reader, the loop, the rekey timer and the
  network move in any order.
\<close>

section \<open>Printing what the host sends\<close>

text \<open>The roster a packet carries, whether it was one to show, and what is printed. A packet without a roster has
  the nil list, which is the empty one here.\<close>

definition renderPacket :: "packet \<Rightarrow> member list \<times> bool \<times> console" where
  "renderPacket p =
     (if pk_Type p = ''msg'' then
        ([], True, [cr # ''['' @ (if pk_Name p = '''' then shortID (pk_From p) else pk_Name p) @ ''] '' @ pk_Text p @ [nl]])
      else if pk_Type p = ''system'' then ([], True, [cr # ''* '' @ pk_Text p @ [nl]])
      else if pk_Type p = ''roster'' then (pk_Members p, True, [])
      else if pk_Type p = ''error'' then ([], True, [cr # ''! '' @ pk_Text p @ [nl]])
      else ([], False, []))"

definition showPending :: "packet list \<Rightarrow> console" where
  "showPending ps = concat (map (\<lambda>p. snd (snd (renderPacket p))) ps)"

section \<open>The state of a chat\<close>

text \<open>What the program runs with, this user's key, and the wording of errors.\<close>

record guestEnv =
  ge_desk :: deskEnv
  ge_identity :: identity
  ge_trust :: trustJson
  ge_error :: "chatErr \<Rightarrow> string"

abbreviation guestCrypto :: "guestEnv \<Rightarrow> crypto" where "guestCrypto E \<equiv> de_crypto (ge_desk E)"
abbreviation guestJson :: "guestEnv \<Rightarrow> packetJson" where "guestJson E \<equiv> de_json (ge_desk E)"

text \<open>
  The variables of \<^verbatim>\<open>chatSession\<close>. \<^verbatim>\<open>gu_waiting\<close> is the packet the reader is blocked on handing over,
  \<^verbatim>\<open>gu_closed\<close> that it has returned, \<^verbatim>\<open>gu_done\<close> that the loop has. \<^verbatim>\<open>gu_read\<close> and \<^verbatim>\<open>gu_shown\<close> record the packets the
  reader let through and those the loop rendered.
\<close>

record guest =
  gu_conn :: conn
  gu_label :: string
  gu_room :: string
  gu_members :: "member list"
  gu_incoming :: "packet list"
  gu_waiting :: "packet option"
  gu_closed :: bool
  gu_done :: bool
  gu_profile :: profileWorld
  gu_console :: console
  gu_read :: "packet list"
  gu_shown :: "packet list"

definition incomingBuffer :: nat where "incomingBuffer = 32"

definition tell :: "console \<Rightarrow> guest \<Rightarrow> guest" where "tell out g = g\<lparr>gu_console := gu_console g @ out\<rparr>"

definition ask :: "guest \<Rightarrow> guest" where "ask = tell [''> '']"

text \<open>The loop returns: what \<^verbatim>\<open>chatSession\<close> has deferred runs.\<close>

definition leaveChat :: "guest \<Rightarrow> guest" where
  "leaveChat g = g\<lparr>gu_done := True, gu_conn := connClose (gu_conn g)\<rparr>"

section \<open>Before the loop\<close>

definition legacyFailure :: "chatErr \<Rightarrow> bool" where
  "legacyFailure e \<longleftrightarrow> e = LinkErr ErrLegacyPeer \<or> e = LinkErr ErrPeerClosedHandshake"

definition refusal :: "packet \<Rightarrow> string" where
  "refusal hello = (let reason = trimSpace (pk_Text hello) in if reason = '''' then ''the host refused the connection'' else reason)"

definition greetedLabel :: "packet \<Rightarrow> string" where
  "greetedLabel hello = (if pk_Name hello = '''' then shortID (pk_From hello) else pk_Name hello)"

text \<open>From an established connection to the first prompt.\<close>

definition chatStart ::
  "guestEnv \<Rightarrow> (nat \<Rightarrow> int) \<Rightarrow> string \<Rightarrow> conn \<Rightarrow> profileWorld \<Rightarrow> guest option \<times> console" where
  "chatStart E clock expectedHostID c w =
     (case connReceive (guestCrypto E) (guestJson E) clock c of
        (Inl e, _) \<Rightarrow> (None, say [''Connection failed during handshake: '' @ ge_error E e])
      | (Inr hello, c') \<Rightarrow>
          (if pk_Type hello = ''error'' then (None, say [''Could not join: '' @ refusal hello, ''''])
           else if pk_Type hello \<noteq> ''hello'' then (None, say [''Connection failed: invalid host handshake''])
           else let hostLabel = greetedLabel hello;
                    out = say [''Authenticated host '' @ hostLabel @ '' ('' @ pk_From hello @ '').'']
                      @ announceVerification hostLabel (connSafetyNumber (guestCrypto E) c') (cn_firstContact c')
                      @ say [if pk_Group hello then ''This is a group room. /who lists everyone; /invite shows how to add someone.''
                             else ''Type messages below. /quit leaves the chat.'']
                in (Some (ask \<lparr>gu_conn = c', gu_label = hostLabel,
                          gu_room = (if pk_From hello = '''' then expectedHostID else pk_From hello), gu_members = [],
                          gu_incoming = [], gu_waiting = None, gu_closed = False, gu_done = False, gu_profile = w,
                          gu_console = out, gu_read = [], gu_shown = []\<rparr>), out)))"

text \<open>The endpoint \<^verbatim>\<open>ClientConn\<close> is given: this user's name and key, and the trust store on disk.\<close>

definition guestEndpoint :: "guestEnv \<Rightarrow> profileWorld \<Rightarrow> trustWorld endpointCfg" where
  "guestEndpoint E w = \<lparr>ep_Identity = ge_identity E, ep_Name = nameOf (de_profile (ge_desk E)) w,
     ep_Inner = storePolicy (ge_trust E), ep_Knows = Some storeKnows\<rparr>"

text \<open>Streams are finite in the model: what the network and the generator give once the handshake is over comes
  separately, with the clock.\<close>

type_synonym later = "(nat \<Rightarrow> int) \<times> reader_st \<times> bytes"

definition goOn :: "reader_st \<Rightarrow> bytes \<Rightarrow> conn \<Rightarrow> conn" where
  "goOn i tape c = c\<lparr>cn_in := i, cn_tape := tape\<rparr>"

definition chatSession ::
  "guestEnv \<Rightarrow> later \<Rightarrow> tlsSession \<Rightarrow> string \<Rightarrow> string \<Rightarrow> profileWorld \<Rightarrow> (trustWorld \<times> bool) io
     \<Rightarrow> (guest option \<times> console) \<times> (trustWorld \<times> bool) io" where
  "chatSession E after tls fp expectedHostID w io =
     (case clientConn (guestCrypto E) (deskTable (ge_desk E)) tls fp expectedHostID (guestEndpoint E w) io of
        (Inl e, io') \<Rightarrow> ((None, reportHandshakeFailure (de_version (ge_desk E)) (legacyFailure e) (ge_error E e)), io')
      | (Inr c, io') \<Rightarrow> (case after of (clock, i, tape) \<Rightarrow> (chatStart E clock expectedHostID (goOn i tape c) w, io')))"

text \<open>\<^verbatim>\<open>joinPeer\<close>, from the ready prompt. \<^verbatim>\<open>tls\<close> is the TLS session over the transport the strategy found.\<close>

definition joinPeer ::
  "guestEnv \<Rightarrow> later \<Rightarrow> 'c joinWorld \<Rightarrow> string \<Rightarrow> joinOptions \<Rightarrow> ('c transport \<Rightarrow> tlsSession) \<Rightarrow> profileWorld
     \<Rightarrow> (trustWorld \<times> bool) io \<Rightarrow> (guest option \<times> console) \<times> (trustWorld \<times> bool) io" where
  "joinPeer E after W target opts tls w io =
     (case joinHost W target opts [] of
        (Inl e, log) \<Rightarrow> ((None, map println log
            @ say [''Could not reach that peer.'', ''Check the ID and make sure the other person has CMD-Chat open.'', '''']), io)
      | (Inr r, log) \<Rightarrow>
          (case chatSession E after (tls (jr_Conn r)) (jr_Fingerprint r) (jr_HostID r) w io of
             ((g, out), io') \<Rightarrow> ((g, map println log @ out), io')))"

text \<open>
  The \<^verbatim>\<open>join\<close> subcommand, after its flags: an address and a fingerprint, or an ID. \<^verbatim>\<open>dial\<close> gives the TLS session over
  the address, or the text of the failure.
\<close>

definition joinCommand ::
  "guestEnv \<Rightarrow> later \<Rightarrow> 'c joinWorld \<Rightarrow> joinOptions \<Rightarrow> (string \<Rightarrow> string + tlsSession) \<Rightarrow> ('c transport \<Rightarrow> tlsSession)
     \<Rightarrow> string \<Rightarrow> string \<Rightarrow> string list \<Rightarrow> profileWorld \<Rightarrow> (trustWorld \<times> bool) io
     \<Rightarrow> (guest option \<times> console) \<times> (trustWorld \<times> bool) io" where
  "joinCommand E after W opts dial tls address fp args w io =
     (if address \<noteq> '''' then
        (let before = say [''Connecting to '' @ address @ ''...''] in
         case dial address of
           Inl e \<Rightarrow> ((None, before @ say [''Connection failed: '' @ e]), io)
         | Inr t \<Rightarrow> (case chatSession E after t fp '''' w io of ((g, out), io') \<Rightarrow> ((g, before @ out), io')))
      else let target = trimSpace (case args of [] \<Rightarrow> idn_ID (ge_identity E) | a # _ \<Rightarrow> a) in
        if \<not> ValidID target then ((None, say [''That does not look like a CMD-Chat ID.'']), io)
        else case joinHost W target opts [] of
          (Inl e, log) \<Rightarrow> ((None, map println log
              @ say [''Could not reach that peer.'', ''Check the ID and make sure the other device has CMD-Chat open.'']), io)
        | (Inr r, log) \<Rightarrow>
            (case chatSession E after (tls (jr_Conn r)) (jr_Fingerprint r) (jr_HostID r) w io of
               ((g, out), io') \<Rightarrow> ((g, map println log @ out), io')))"

section \<open>The loop\<close>

text \<open>The reader: one \<^verbatim>\<open>Receive\<close>, and the packet handed over unless its type is none the loop knows.\<close>

definition passes :: "packet \<Rightarrow> bool" where
  "passes p \<longleftrightarrow> pk_Type p \<in> set [''msg'', ''roster'', ''system'', ''error'']"

definition guestRead :: "guestEnv \<Rightarrow> (nat \<Rightarrow> int) \<Rightarrow> guest \<Rightarrow> guest" where
  "guestRead E clock g =
     (case connReceive (guestCrypto E) (guestJson E) clock (gu_conn g) of
        (Inl e, c') \<Rightarrow> g\<lparr>gu_conn := c', gu_closed := True\<rparr>
      | (Inr p, c') \<Rightarrow>
          (if passes p then g\<lparr>gu_conn := c', gu_waiting := Some p, gu_read := gu_read g @ [p]\<rparr> else g\<lparr>gu_conn := c'\<rparr>))"

text \<open>The loop takes a packet.\<close>

definition guestTakes :: "packet \<Rightarrow> guest \<Rightarrow> guest" where
  "guestTakes p g =
     (case renderPacket p of (updated, shown, out) \<Rightarrow>
        ask (tell out (g\<lparr>gu_shown := gu_shown g @ [p],
                         gu_members := (if shown \<and> updated \<noteq> [] then updated else gu_members g)\<rparr>)))"

definition guestNick :: "guestEnv \<Rightarrow> string \<Rightarrow> guest \<Rightarrow> guest" where
  "guestNick E argument g =
     (case setNicknameCmd (ge_desk E) argument
             (Some (\<lambda>n c. snd (connRename (guestCrypto E) (guestJson E) (deskTable (ge_desk E)) n c))) (gu_profile g, gu_conn g) of
        ((w', c'), out) \<Rightarrow> tell out (g\<lparr>gu_profile := w', gu_conn := c'\<rparr>))"

text \<open>The loop takes a line, or the end of the keyboard.\<close>

definition guestInput :: "guestEnv \<Rightarrow> input \<Rightarrow> guest \<Rightarrow> guest" where
  "guestInput E i g =
     (case i of
        InputEnded \<Rightarrow> leaveChat g
      | Typed line \<Rightarrow>
          (let text = trimSpace line; (command, argument) = splitCommand text in
           if command \<in> set [''/quit'', ''/exit''] then
             leaveChat (tell (say [''Left the chat. You are still reachable.'', '''']) g)
           else if command \<in> set [''/who'', ''/room''] then ask (tell (showRoom (gu_members g) (gu_room g)) g)
           else if command \<in> set [''/verify'', ''/safety''] then
             ask (tell (showVerification (gu_label g) (connSafetyNumber (guestCrypto E) (gu_conn g))) g)
           else if command = ''/invite'' then ask (tell (showInvite (gu_room g) (idn_ID (ge_identity E)) False) g)
           else if command \<in> set [''/nick'', ''/name''] then ask (guestNick E argument g)
           else if command = ''/group'' then
             ask (tell (say [''Only the host of a room can turn group chat on or off.'', '''']) g)
           else if text = '''' then ask g
           else case connSend (guestCrypto E) (guestJson E)
                       ((packetOf ''msg'')\<lparr>pk_From := idn_ID (ge_identity E),
                          pk_Name := nameOf (de_profile (ge_desk E)) (gu_profile g), pk_Text := text\<rparr>) (gu_conn g) of
             (Inl e, c') \<Rightarrow> leaveChat (tell (say [''Send failed: '' @ ge_error E e]) (g\<lparr>gu_conn := c'\<rparr>))
           | (Inr _, c') \<Rightarrow> ask (g\<lparr>gu_conn := c'\<rparr>)))"

text \<open>The loop hears that the far end has gone.\<close>

definition guestHungUp :: "guest \<Rightarrow> guest" where
  "guestHungUp g =
     leaveChat (tell (showPending (gu_incoming g)
         @ [cr # ''The chat was closed. You are still reachable.'' @ [nl]] @ say [''''])
       (g\<lparr>gu_shown := gu_shown g @ gu_incoming g, gu_incoming := []\<rparr>))"

inductive guest_step :: "guestEnv \<Rightarrow> guest \<Rightarrow> guest \<Rightarrow> bool" for E where
  reads: "\<not> gu_closed g \<Longrightarrow> gu_waiting g = None \<Longrightarrow> guest_step E g (guestRead E clock g)"
| handsOver: "gu_waiting g = Some p \<Longrightarrow> length (gu_incoming g) < incomingBuffer \<Longrightarrow>
     guest_step E g (g\<lparr>gu_waiting := None, gu_incoming := gu_incoming g @ [p]\<rparr>)"
| releases: "gu_waiting g = Some p \<Longrightarrow> gu_done g \<Longrightarrow> guest_step E g (g\<lparr>gu_waiting := None\<rparr>)"
| takes: "\<not> gu_done g \<Longrightarrow> gu_incoming g = p # ps \<Longrightarrow> guest_step E g (guestTakes p (g\<lparr>gu_incoming := ps\<rparr>))"
| types: "\<not> gu_done g \<Longrightarrow> guest_step E g (guestInput E i g)"
| hangsUp: "\<not> gu_done g \<Longrightarrow> gu_closed g \<Longrightarrow> guest_step E g (guestHungUp g)"
| ticks: "guest_step E g (g\<lparr>gu_conn := keepRatchetTurning (guestCrypto E) (guestJson E) [now] (gu_conn g)\<rparr>)"
| network: "\<not> cn_stopped (gu_conn g) \<Longrightarrow> guest_step E g (g\<lparr>gu_conn := (goOn i tape (gu_conn g))\<lparr>cn_out := out\<rparr>\<rparr>)"

inductive guest_reach :: "guestEnv \<Rightarrow> guest \<Rightarrow> guest \<Rightarrow> bool" for E g0 where
  guest_here: "guest_reach E g0 g0"
| guest_more: "guest_reach E g0 g \<Longrightarrow> guest_step E g g' \<Longrightarrow> guest_reach E g0 g'"

inductive_cases guest_stepE: "guest_step E g g'"

section \<open>Whom the chat is with\<close>

lemma keepRatchetTurning_same: "sameLink c (keepRatchetTurning C K ticks c)"
proof (induction C K ticks c rule: keepRatchetTurning.induct)
  case (2 C K now ticks c)
  obtain r c' where r: "connRekey C K c = (r, c')" by (metis surj_pair)
  have "sameLink c c'" using connSend_same r by (auto simp: connRekey_def)
  then show ?case using 2 r by (auto split: sum.splits intro: sameLink_trans)
qed simp

lemma goOn_same [simp]: "sameLink c (goOn i tape c)" by (simp add: goOn_def sameLink_def)

lemma tell_fields [simp]:
  "gu_conn (tell out g) = gu_conn g" "gu_members (tell out g) = gu_members g" "gu_incoming (tell out g) = gu_incoming g"
  "gu_waiting (tell out g) = gu_waiting g" "gu_closed (tell out g) = gu_closed g" "gu_done (tell out g) = gu_done g"
  "gu_read (tell out g) = gu_read g" "gu_shown (tell out g) = gu_shown g" "gu_console (tell out g) = gu_console g @ out"
  "gu_label (tell out g) = gu_label g" "gu_room (tell out g) = gu_room g" "gu_profile (tell out g) = gu_profile g"
  by (simp_all add: tell_def)

lemma ask_fields [simp]:
  "gu_conn (ask g) = gu_conn g" "gu_members (ask g) = gu_members g" "gu_incoming (ask g) = gu_incoming g"
  "gu_waiting (ask g) = gu_waiting g" "gu_closed (ask g) = gu_closed g" "gu_done (ask g) = gu_done g"
  "gu_read (ask g) = gu_read g" "gu_shown (ask g) = gu_shown g" "gu_console (ask g) = gu_console g @ [''> '']"
  "gu_label (ask g) = gu_label g" "gu_room (ask g) = gu_room g" "gu_profile (ask g) = gu_profile g"
  by (simp_all add: ask_def)

lemma leaveChat_fields [simp]:
  "gu_conn (leaveChat g) = connClose (gu_conn g)" "gu_members (leaveChat g) = gu_members g" "gu_incoming (leaveChat g) = gu_incoming g"
  "gu_waiting (leaveChat g) = gu_waiting g" "gu_closed (leaveChat g) = gu_closed g" "gu_done (leaveChat g)"
  "gu_read (leaveChat g) = gu_read g" "gu_shown (leaveChat g) = gu_shown g" "gu_console (leaveChat g) = gu_console g"
  "gu_label (leaveChat g) = gu_label g" "gu_room (leaveChat g) = gu_room g"
  by (simp_all add: leaveChat_def)

text \<open>What the loop does with a line changes the connection only by sending on it or closing it, and touches
  neither the channel nor what has been shown.\<close>

definition lineKeeps :: "guest \<Rightarrow> guest \<Rightarrow> bool" where
  "lineKeeps g g' \<longleftrightarrow> sameLink (gu_conn g) (gu_conn g') \<and> gu_incoming g' = gu_incoming g \<and> gu_waiting g' = gu_waiting g
     \<and> gu_closed g' = gu_closed g \<and> gu_read g' = gu_read g \<and> gu_shown g' = gu_shown g \<and> gu_members g' = gu_members g
     \<and> gu_label g' = gu_label g \<and> gu_room g' = gu_room g \<and> (\<exists>out. gu_console g' = gu_console g @ out)"

lemma keeps_refl [intro!, simp]: "lineKeeps g g" by (simp add: lineKeeps_def)

lemma keeps_ask: "lineKeeps g g' \<Longrightarrow> lineKeeps g (ask g')" by (auto simp: lineKeeps_def)
lemma keeps_tell: "lineKeeps g g' \<Longrightarrow> lineKeeps g (tell out g')" by (auto simp: lineKeeps_def)

lemma keeps_leave: "lineKeeps g g' \<Longrightarrow> lineKeeps g (leaveChat g')"
  unfolding lineKeeps_def using connClose_same sameLink_trans by (simp, blast)

lemma keeps_conn: "sameLink (gu_conn g) c \<Longrightarrow> lineKeeps g (g\<lparr>gu_conn := c\<rparr>)"
  by (simp add: lineKeeps_def)

lemma keeps_if: "(b \<Longrightarrow> lineKeeps g x) \<Longrightarrow> (\<not> b \<Longrightarrow> lineKeeps g y) \<Longrightarrow> lineKeeps g (if b then x else y)" by simp

lemma rename_same: "sameLink c (snd (connRename C K table n c))"
  unfolding connRename_def by (metis connSend_same prod.collapse)

lemma nickCmd_state:
  assumes "\<And>n s. sameLink s (f n s)" "setNicknameCmd E a (Some f) (w, c) = ((w', c'), out)"
  shows "sameLink c c'"
  using assms by (auto simp: setNicknameCmd_def Let_def split: if_splits prod.splits bool.splits)

lemma guestNick_keeps: "lineKeeps g (guestNick E a g)"
proof -
  obtain w' c' out where n: "setNicknameCmd (ge_desk E) a
      (Some (\<lambda>n c. snd (connRename (guestCrypto E) (guestJson E) (deskTable (ge_desk E)) n c))) (gu_profile g, gu_conn g) = ((w', c'), out)"
    by (metis surj_pair)
  have "sameLink (gu_conn g) c'" by (rule nickCmd_state [OF rename_same n])
  then have "lineKeeps g (g\<lparr>gu_profile := w', gu_conn := c'\<rparr>)" by (simp add: lineKeeps_def)
  then show ?thesis by (simp add: guestNick_def n keeps_tell)
qed

lemma guestInput_keeps: "lineKeeps g (guestInput E i g)"
proof (cases i)
  case (Typed line)
  obtain command argument where s: "splitCommand (trimSpace line) = (command, argument)" by (metis surj_pair)
  let ?p = "(packetOf ''msg'')\<lparr>pk_From := idn_ID (ge_identity E), pk_Name := nameOf (de_profile (ge_desk E)) (gu_profile g), pk_Text := trimSpace line\<rparr>"
  obtain r c' where c: "connSend (guestCrypto E) (guestJson E) ?p (gu_conn g) = (r, c')" by (metis surj_pair)
  have k: "lineKeeps g (g\<lparr>gu_conn := c'\<rparr>)" by (rule keeps_conn [OF connSend_same [OF c]])
  have m: "lineKeeps g (case connSend (guestCrypto E) (guestJson E) ?p (gu_conn g) of
       (Inl e, c') \<Rightarrow> leaveChat (tell (say [''Send failed: '' @ ge_error E e]) (g\<lparr>gu_conn := c'\<rparr>)) | (Inr _, c') \<Rightarrow> ask (g\<lparr>gu_conn := c'\<rparr>))"
    by (cases r) (simp_all only: c prod.case sum.case, intro keeps_leave keeps_tell k, intro keeps_ask k)
  show ?thesis unfolding guestInput_def Typed input.case Let_def s prod.case
    by (intro keeps_if keeps_leave keeps_ask keeps_tell guestNick_keeps keeps_refl m)
qed (simp add: guestInput_def keeps_leave)

lemma guest_step_same: "guest_step E g g' \<Longrightarrow> sameLink (gu_conn g) (gu_conn g') \<and> gu_label g' = gu_label g \<and> gu_room g' = gu_room g"
proof (induction rule: guest_step.induct)
  case (reads g clock)
  obtain r c' where "connReceive (guestCrypto E) (guestJson E) clock (gu_conn g) = (r, c')" by (metis surj_pair)
  then show ?case using connReceive_same by (auto simp: guestRead_def split: sum.splits)
next
  case (takes g p ps)
  then show ?case by (simp add: guestTakes_def split: prod.split)
next
  case (types g i)
  show ?case using guestInput_keeps [of g E i] by (simp add: lineKeeps_def)
next
  case (hangsUp g)
  show ?case using connClose_same by (simp add: guestHungUp_def)
next
  case (network g i tape out)
  show ?case by (simp add: goOn_def sameLink_def)
next
  case (ticks g now)
  show ?case by (simp del: keepRatchetTurning.simps add: keepRatchetTurning_same)
qed simp_all

lemma guest_reach_same: "guest_reach E g0 g \<Longrightarrow> sameLink (gu_conn g0) (gu_conn g) \<and> gu_label g = gu_label g0 \<and> gu_room g = gu_room g0"
  by (induction rule: guest_reach.induct) (auto dest: guest_step_same intro: sameLink_trans)

lemma chatStart_Some:
  assumes "chatStart E clock expect c w = (Some g, out)"
  obtains hello c' where "connReceive (guestCrypto E) (guestJson E) clock c = (Inr hello, c')" "pk_Type hello = ''hello''"
    "gu_conn g = c'" "gu_label g = greetedLabel hello" "gu_room g = (if pk_From hello = '''' then expect else pk_From hello)"
    "gu_incoming g = []" "gu_waiting g = None" "\<not> gu_closed g" "\<not> gu_done g" "gu_read g = []" "gu_shown g = []" "gu_members g = []"
    "gu_console g = out @ [''> '']" "hd out = println (''Authenticated host '' @ greetedLabel hello @ '' ('' @ pk_From hello @ '').'')"
proof -
  obtain r c' where r: "connReceive (guestCrypto E) (guestJson E) clock c = (r, c')" by (metis surj_pair)
  show ?thesis
  proof (cases r)
    case (Inl e)
    then show ?thesis using assms r by (simp add: chatStart_def)
  next
    case (Inr hello)
    then show ?thesis using assms r that [of hello c'] by (auto simp: chatStart_def Let_def say_def split: if_splits)
  qed
qed

lemma chatSession_Some:
  assumes "chatSession E (clock, i, tape) tls fp expect w io = ((Some g, out), io')"
  obtains c where "clientConn (guestCrypto E) (deskTable (ge_desk E)) tls fp expect (guestEndpoint E w) io = (Inr c, io')"
    "chatStart E clock expect (goOn i tape c) w = (Some g, out)" "sameLink c (gu_conn g)"
proof -
  obtain r io2 where r: "clientConn (guestCrypto E) (deskTable (ge_desk E)) tls fp expect (guestEndpoint E w) io = (r, io2)" by (metis surj_pair)
  then obtain c where c: "r = Inr c" "io2 = io'" "chatStart E clock expect (goOn i tape c) w = (Some g, out)"
    using assms by (cases r) (simp_all add: chatSession_def)
  have "sameLink c (gu_conn g)" using c(3)
    by (rule chatStart_Some) (metis connReceive_same goOn_same sameLink_trans)
  then show ?thesis using r c that by blast
qed

lemma joinPeer_Some:
  assumes "joinPeer E after W target opts tls w io = ((Some g, out), io')"
  obtains r log out' where "joinHost W target opts [] = (Inr r, log)" "out = map println log @ out'"
    "chatSession E after (tls (jr_Conn r)) (jr_Fingerprint r) (jr_HostID r) w io = ((Some g, out'), io')"
  using assms by (auto simp: joinPeer_def split: prod.splits sum.splits)

lemma clientConn_local:
  "clientConn C table tls fp expect ep io = (Inr c, io') \<Longrightarrow> cn_localKey c = idn_PublicKey (ep_Identity ep)"
  by (auto simp: clientConn_def newConn_def split: if_splits list.splits option.splits prod.splits sum.splits)

section \<open>What the chat shows\<close>

definition latestRoster :: "packet list \<Rightarrow> member list" where
  "latestRoster ps = foldl (\<lambda>m p. if pk_Type p = ''roster'' \<and> pk_Members p \<noteq> [] then pk_Members p else m) [] ps"

definition guestOk :: "guest \<Rightarrow> bool" where
  "guestOk g \<longleftrightarrow> length (gu_incoming g) \<le> incomingBuffer \<and> (gu_closed g \<longrightarrow> gu_waiting g = None)
     \<and> (\<forall>p \<in> set (gu_read g). passes p) \<and> (\<exists>rest. gu_read g = gu_shown g @ rest)
     \<and> (\<forall>p \<in> set (gu_shown g). set (snd (snd (renderPacket p))) \<subseteq> set (gu_console g))
     \<and> (\<not> gu_done g \<longrightarrow> gu_read g = gu_shown g @ gu_incoming g @ (case gu_waiting g of None \<Rightarrow> [] | Some p \<Rightarrow> [p])
          \<and> gu_members g = latestRoster (gu_shown g))"

lemma latestRoster_snoc: "latestRoster (ps @ [p]) = (if pk_Type p = ''roster'' \<and> pk_Members p \<noteq> [] then pk_Members p else latestRoster ps)"
  by (simp add: latestRoster_def)

lemma renderPacket_roster:
  assumes "renderPacket p = (updated, shown, out)"
  shows "(if shown \<and> updated \<noteq> [] then updated else m) = (if pk_Type p = ''roster'' \<and> pk_Members p \<noteq> [] then pk_Members p else m)"
  using assms by (auto simp: renderPacket_def split: if_splits)

lemma guestTakes_ok:
  assumes "guestOk g" "\<not> gu_done g" "gu_incoming g = p # ps"
  shows "guestOk (guestTakes p (g\<lparr>gu_incoming := ps\<rparr>))"
proof -
  obtain updated shown out where r: "renderPacket p = (updated, shown, out)" by (metis surj_pair)
  have "gu_members g = latestRoster (gu_shown g)" using assms by (simp add: guestOk_def)
  moreover have "gu_members (guestTakes p (g\<lparr>gu_incoming := ps\<rparr>)) = (if shown \<and> updated \<noteq> [] then updated else gu_members g)"
    by (simp add: guestTakes_def r)
  ultimately have "gu_members (guestTakes p (g\<lparr>gu_incoming := ps\<rparr>)) = latestRoster (gu_shown g @ [p])"
    unfolding latestRoster_snoc using renderPacket_roster [OF r, of "gu_members g"] by simp
  then show ?thesis using assms by (auto simp: guestOk_def guestTakes_def r)
qed

lemma keeps_ok:
  assumes "guestOk g" "lineKeeps g g'" "\<not> gu_done g"
  shows "guestOk g'"
proof -
  obtain out where f: "gu_incoming g' = gu_incoming g" "gu_waiting g' = gu_waiting g" "gu_closed g' = gu_closed g" "gu_read g' = gu_read g"
    "gu_shown g' = gu_shown g" "gu_members g' = gu_members g" "gu_console g' = gu_console g @ out"
    using assms(2) by (auto simp: lineKeeps_def)
  show ?thesis using assms(1,3) unfolding guestOk_def f by (intro conjI) (simp_all, blast)
qed

lemma step_guestOk: "guest_step E g g' \<Longrightarrow> guestOk g \<Longrightarrow> guestOk g'"
proof (induction rule: guest_step.induct)
  case (reads g clock)
  then show ?case by (auto simp: guestRead_def guestOk_def split: prod.split sum.split)
next
  case (handsOver g p)
  then show ?case by (auto simp: guestOk_def)
next
  case (releases g p)
  then show ?case by (auto simp: guestOk_def)
next
  case (takes g p ps)
  then show ?case using guestTakes_ok by blast
next
  case (types g i)
  then show ?case using keeps_ok guestInput_keeps by blast
next
  case (hangsUp g)
  then show ?case by (auto simp: guestHungUp_def guestOk_def showPending_def)
qed (auto simp: guestOk_def)

lemma reach_guestOk: "guest_reach E g0 g \<Longrightarrow> guestOk g0 \<Longrightarrow> guestOk g"
  by (induction rule: guest_reach.induct) (auto dest: step_guestOk)

lemma invite_command: "splitCommand (trimSpace ''/invite'') = (''/invite'', '''')"
proof -
  have c: "0x20 < unat (byteOf CHR ''/'') \<and> unat (byteOf CHR ''/'') < 0x80" "0x20 < unat (byteOf CHR ''e'') \<and> unat (byteOf CHR ''e'') < 0x80"
    by code_simp+
  have t: "trimSpace ''/invite'' = ''/invite''" by (rule trimSpace_none) (simp add: c)
  have l: "toLower ''/invite'' = ''/invite''" by code_simp
  show ?thesis unfolding t by (simp add: splitCommand_def t l)
qed

section \<open>Properties\<close>

text \<open>What the guest's program knows of the peer at the other end.\<close>

definition chatsWith :: "crypto \<Rightarrow> conn \<Rightarrow> string \<Rightarrow> bytes \<Rightarrow> bool" where
  "chatsWith C c i k \<longleftrightarrow> pe_ID (cn_peer c) = i \<and> peer_ID (s_peer (cn_session c)) = i \<and> peer_PublicKey (s_peer (cn_session c)) = k"

text \<open>C3: from the keyboard to the conversation. When a line typed at the ready prompt has been dialled and has led
  to a chat, then for as long as the chat goes on, whatever the network and the host send and the user types,
  the connection is with the one identity that proved, over this very TLS session, to hold the key of the ID
  that was typed: the ID is the one derived from that key, the trust store holds the key for it, and
  \<^verbatim>\<open>/verify\<close> shows the safety number of this user's key and that one.\<close>

theorem chat_is_with_typed_id:
  assumes "aead_law (guestCrypto E)" "deskInput D AtPrompt (Typed line) d = (Away target, d')"
    "joinPeer E after W target opts tls w io = ((Some g0, out), io')" "guest_reach E g0 g"
  shows "\<exists>k f. chatsWith (guestCrypto E) (gu_conn g) (trimSpace line) k \<and> trimSpace line = deriveID (guestCrypto E) k
     \<and> (\<exists>n. provenBy (guestCrypto E) (fl_c2 f) (hk_respKey (fl_keys (guestCrypto E) f)) (hk_respMAC (fl_keys (guestCrypto E) f))
          (fl_th2 (guestCrypto E) f) labelSignatureResponder labelConfirmResponder (trimSpace line) k n)
     \<and> (\<exists>r. fst (joinHost W target opts []) = Inr r \<and> tls_export (tls (jr_Conn r)) ChannelBindingLabel ChannelBindingLength = Some (fl_binding f))
     \<and> pinned (trimSpace line) k (fst (io_trust io'))
     \<and> connSafetyNumber (guestCrypto E) (gu_conn g) = safetyNumber (guestCrypto E) (idn_PublicKey (ge_identity E)) k"
proof -
  have t: "target = trimSpace line" "ValidID target" using prompt_dials [OF assms(2)] by blast+
  have ne: "target \<noteq> ''''" using t(2) by (auto simp: ValidID_def)
  obtain r log out' where r: "joinHost W target opts [] = (Inr r, log)"
    "chatSession E after (tls (jr_Conn r)) (jr_Fingerprint r) (jr_HostID r) w io = ((Some g0, out'), io')"
    using assms(3) by (rule joinPeer_Some)
  have h: "jr_HostID r = target" using r(1) by - (rule joinHost_Inr [of W target opts "[]" r], simp_all)
  obtain clock i tape where a: "after = (clock, i, tape)" by (cases after)
  obtain c where c: "clientConn (guestCrypto E) (deskTable (ge_desk E)) (tls (jr_Conn r)) (jr_Fingerprint r) (jr_HostID r) (guestEndpoint E w) io = (Inr c, io')"
    "sameLink c (gu_conn g0)"
    using r(2) unfolding a by (rule chatSession_Some)
  have s: "sameLink c (gu_conn g)" using c(2) guest_reach_same [OF assms(4)] sameLink_trans by blast
  define k where "k = peer_PublicKey (s_peer (cn_session c))"
  note f = dial_facts [OF assms(1) c(1)]
  have i: "pe_ID (cn_peer c) = target" "peer_ID (s_peer (cn_session c)) = target" using f ne h by auto
  obtain f binding where p: "tls_export (tls (jr_Conn r)) ChannelBindingLabel ChannelBindingLength = Some (fl_binding f)"
    "provenBy (guestCrypto E) (fl_c2 f) (hk_respKey (fl_keys (guestCrypto E) f)) (hk_respMAC (fl_keys (guestCrypto E) f)) (fl_th2 (guestCrypto E) f)
            labelSignatureResponder labelConfirmResponder target k (peer_Nickname (s_peer (cn_session c)))"
    using f i(1) unfolding k_def by auto
  have "ep_Inner (guestEndpoint E w) (pe_ID (cn_peer c)) k (fst (io_trust io)) = (None, fst (io_trust io'))"
    using f unfolding k_def by blast
  then have "storePolicy (ge_trust E) target k (fst (io_trust io)) = (None, fst (io_trust io'))" by (simp add: guestEndpoint_def i(1))
  then have "pinned target k (fst (io_trust io'))" by (auto simp: storePolicy_def split: prod.splits intro: authorize_pins)
  moreover have "chatsWith (guestCrypto E) (gu_conn g) target k" using s i by (simp add: chatsWith_def sameLink_def k_def)
  moreover have "connSafetyNumber (guestCrypto E) (gu_conn g) = safetyNumber (guestCrypto E) (idn_PublicKey (ge_identity E)) k"
    using s clientConn_local [OF c(1)] by (simp add: connSafetyNumber_def sameLink_def k_def guestEndpoint_def)
  moreover have "target = deriveID (guestCrypto E) k" using p(2) by (auto simp: provenBy_def)
  ultimately show ?thesis using p r(1) t(1) by (intro exI [of _ k] exI [of _ f]) auto
qed


text \<open>C27: the greeting is not authenticated. Whatever identity the handshake proved, the ID a chat shows as the
  authenticated host's, and the one it gives as the room's, is the one the host's first packet claims.\<close>

theorem greeting_unauthenticated:
  assumes "connReceive (guestCrypto E) (guestJson E) clock c = (Inr hello, c')" "pk_Type hello = ''hello''" "pk_From hello = claimed" "claimed \<noteq> ''''"
  shows "\<exists>g out. chatStart E clock expect c w = (Some g, out) \<and> cn_peer (gu_conn g) = cn_peer c \<and> gu_room g = claimed
     \<and> hd out = println (''Authenticated host '' @ (if pk_Name hello = '''' then shortID claimed else pk_Name hello) @ '' ('' @ claimed @ '').'')
     \<and> set (showInvite claimed (idn_ID (ge_identity E)) False) \<subseteq> set (gu_console (guestInput E (Typed ''/invite'') g))"
proof -
  obtain g out where g: "chatStart E clock expect c w = (Some g, out)" using assms by (simp add: chatStart_def Let_def)
  then have "gu_conn g = c'" "gu_room g = claimed"
    "hd out = println (''Authenticated host '' @ greetedLabel hello @ '' ('' @ claimed @ '').'')"
    using assms by (auto elim!: chatStart_Some)
  moreover have "cn_peer c' = cn_peer c" using connReceive_same [OF assms(1)] by (simp add: sameLink_def)
  moreover have "gu_console (guestInput E (Typed ''/invite'') g) = gu_console g @ showInvite claimed (idn_ID (ge_identity E)) False @ [''> '']"
    by (simp add: guestInput_def invite_command Let_def \<open>gu_room g = claimed\<close>)
  ultimately show ?thesis using g unfolding greetedLabel_def assms(3) by (intro exI [of _ g] exI [of _ out] conjI) (simp_all, blast)
qed

section \<open>A chat at which the witnesses evaluate\<close>

text \<open>A host that greets as somebody else.\<close>

definition sampleHello :: packet where
  "sampleHello = (packetOf ''hello'')\<lparr>pk_From := ''cc-CCCCCCCCCCCCCCCC'', pk_Name := ''Carol''\<rparr>"

definition helloJson :: packetJson where
  "helloJson = \<lparr>kj_marshal = (\<lambda>p. []), kj_unmarshal = (\<lambda>d. Some sampleHello)\<rparr>"

definition sampleGuestEnv :: guestEnv where
  "sampleGuestEnv = \<lparr>ge_desk = sampleEnv\<lparr>de_json := helloJson\<rparr>, ge_identity = sampleIdentity, ge_trust = sampleTrustJson, ge_error = (\<lambda>e. ''refused'')\<rparr>"

lemma sampleGuestEnv_simps [simp]: "guestCrypto sampleGuestEnv = plainCrypto" "guestJson sampleGuestEnv = helloJson"
  "deskTable (ge_desk sampleGuestEnv) = (\<lambda>_. True)" "ge_identity sampleGuestEnv = sampleIdentity"
  by (simp_all add: sampleGuestEnv_def sampleEnv_def deskTable_def sampleJson_def)

definition sampleGuestIO :: "(trustWorld \<times> bool) io" where
  "sampleGuestIO = \<lparr>io_in = \<lparr>inBytes = [], inEnd = EOF\<rparr>, io_out = \<lparr>outBytes = [], outRoom = None\<rparr>, io_rand = replicate 96 1,
     io_sys = replicate 64 5, io_trust = (sampleTrust, False), io_now = 1\<rparr>"

lemma sampleIdentity_ID: "idn_ID sampleIdentity = ''cc-BEEQSCIJBEEQSCIJ''" by code_simp

lemma sample_dialled:
  "\<exists>io c io' (a :: conn). clientConn plainCrypto (\<lambda>_. True) sampleTLS '''' (idn_ID sampleIdentity) (guestEndpoint sampleGuestEnv w) io = (Inr c, io')
     \<and> caughtUp plainCrypto (cn_session a) (cn_session c) \<and> speaks (cn_session a)"
proof -
  have own: "ownIdentity plainCrypto (ep_Identity (guestEndpoint sampleGuestEnv w))" using sample_own by (simp add: guestEndpoint_def)
  have k: "base64Encode (idn_PublicKey sampleIdentity) \<noteq> ''''" by code_simp
  have acc: "accepts (guestEndpoint sampleGuestEnv w) (ep_Identity (sampleEndpoint ''bo'')) (fst (io_trust sampleGuestIO))"
    using k by (simp add: accepts_def guestEndpoint_def sampleEndpoint_def storePolicy_def authorize_def trust_def sampleIdentity_ID
        sampleGuestIO_def sampleTrust_def saveLocked_def putPeer_def)
  have acc2: "accepts (sampleEndpoint ''bo'') (ep_Identity (guestEndpoint sampleGuestEnv w)) t" for t by (rule sample_chat_inputs(5))
  have e: "idn_ID sampleIdentity = '''' \<or> idn_ID sampleIdentity = idn_ID (ep_Identity (sampleEndpoint ''bo''))" by (simp add: sampleEndpoint_def)
  have io: "96 \<le> length (io_rand sampleGuestIO)" "64 \<le> length (io_sys sampleGuestIO)" "outRoom (io_out sampleGuestIO) = None"
    by (simp_all add: sampleGuestIO_def)
  show ?thesis
    using chat_meeting [OF plainCrypto_law plain_honest sample_tls sample_chat_inputs(1,2) e own sample_chat_inputs(4) acc acc2 io
        sample_chat_inputs(9,10,8) sample_chat_inputs(11), of "\<lambda>_. True"] by blast
qed

text \<open>Whatever the host sends next, this guest's program reads as that greeting.\<close>

lemma sample_greeted:
  fixes a c :: conn
  assumes "caughtUp plainCrypto (cn_session a) (cn_session c)" "speaks (cn_session a)"
  shows "\<exists>i tape c'. connReceive plainCrypto helloJson (\<lambda>_. 7) (goOn i tape c) = (Inr sampleHello, c')"
proof -
  note laws = crypto_law_parts(1-3) [OF plainCrypto_law]
  obtain ck where ck: "\<not> s_closed (cn_session a)" "sendChain (s_ratchet (cn_session a)) = Some ck" "sendCount (s_ratchet (cn_session a)) \<noteq> NOT 0"
    using assms(2) by (auto simp: speaks_def)
  define b where "b = a\<lparr>cn_out := \<lparr>outBytes = [], outRoom = None\<rparr>\<rparr>"
  obtain b' where "connSend plainCrypto helloJson sampleHello b = (Inr (), b')"
    using writeMessage_eq [OF laws ck, of "\<lparr>outBytes = [], outRoom = None\<rparr>" "[]"]
    by (auto simp: connSend_def b_def helloJson_def sampleHello_def packetOf_def)
  from connSend_ok [OF this] obtain rec where
    r: "encrypt plainCrypto [] (cn_session a) = (Inr rec, cn_session b')" "length rec \<le> MaxFrameSize"
    by (auto simp: b_def helloJson_def)
  define tape :: bytes where "tape = (if c_xpub plainCrypto (replicate 32 6) = c_xpub plainCrypto (sendKey (s_ratchet (cn_session c)))
      then replicate 32 4 else replicate 32 6)"
  have "hd (fill 32 (replicate 32 (6 :: byte))) \<noteq> hd (fill 32 (replicate 32 4))" by (simp add: fill_def)
  then have "fill 32 (replicate 32 (6 :: byte)) \<noteq> fill 32 (replicate 32 4)" by metis
  then have "freshTape plainCrypto (cn_session c) tape" by (auto simp: freshTape_def tape_def plainCrypto_def)
  from caughtUp_delivers [OF laws plain_honest assms(1) r(1) this, of 7] obtain s t where
    d: "decrypt plainCrypto 7 rec (cn_session c, tape) = (Inr [], (s, t))" by (metis surj_pair)
  have "readFrame \<lparr>inBytes = putFrame rec @ [], inEnd = EOF\<rparr> = (Inr rec, \<lparr>inBytes = [], inEnd = EOF\<rparr>)"
    using readFrame_putFrame [OF r(2)] by simp
  then have "connRead plainCrypto helloJson (\<lambda>_. 7) (goOn \<lparr>inBytes = putFrame rec, inEnd = EOF\<rparr> tape c)
      = (Inr sampleHello, goOn \<lparr>inBytes = [], inEnd = EOF\<rparr> t (c\<lparr>cn_session := s\<rparr>))"
    using d by (simp add: connRead_def readMessage_def goOn_def helloJson_def Let_def)
  then show ?thesis
    by (intro exI [of _ "\<lparr>inBytes = putFrame rec, inEnd = EOF\<rparr>"] exI [of _ tape] exI) (simp add: connReceive.simps sampleHello_def packetOf_def)
qed

text \<open>The host is on the local network.\<close>

definition lanJoin :: "nat joinWorld" where
  "lanJoin = sampleJoin\<lparr>jw_lanJson := \<lparr>lj_marshal = (\<lambda>p. []), lj_unmarshal = (\<lambda>b. Some \<lparr>lp_Magic = discoveryMagic, lp_Type = ''found'',
        lp_Announcement = Some \<lparr>lan_ID = idn_ID sampleIdentity, lan_Name = ''bo'', lan_Port = 38556, lan_Fingerprint = '''', lan_Endpoint = ''192.168.1.7:38556''\<rparr>,
        lp_ID = ''''\<rparr>)\<rparr>,
     jw_lan := \<lparr>ln_socketOk = True, ln_sendOk = True, ln_replies = (\<lambda>q t. [[1]])\<rparr>, jw_dial := (\<lambda>ep t. Some 7)\<rparr>"

lemma lanJoin_finds:
  "\<exists>r log. joinHost lanJoin (idn_ID sampleIdentity) sampleOptions [] = (Inr r, log) \<and> jr_HostID r = idn_ID sampleIdentity \<and> jr_Fingerprint r = ''''"
  by (simp add: joinHost_def tryLAN_def findLAN_def lanJoin_def sampleOptions_def applyDefaults_def Let_def)

lemma sample_chat:
  "\<exists>after io g0 out io'. joinPeer sampleGuestEnv after lanJoin (idn_ID sampleIdentity) sampleOptions (\<lambda>_. sampleTLS) w io = ((Some g0, out), io')"
proof -
  obtain r log where r: "joinHost lanJoin (idn_ID sampleIdentity) sampleOptions [] = (Inr r, log)" "jr_HostID r = idn_ID sampleIdentity" "jr_Fingerprint r = ''''"
    using lanJoin_finds by blast
  obtain io c io' and a :: conn where c: "clientConn plainCrypto (\<lambda>_. True) sampleTLS '''' (idn_ID sampleIdentity) (guestEndpoint sampleGuestEnv w) io = (Inr c, io')"
    "caughtUp plainCrypto (cn_session a) (cn_session c)" "speaks (cn_session a)" using sample_dialled by blast
  obtain i tape c' where g: "connReceive plainCrypto helloJson (\<lambda>_. 7) (goOn i tape c) = (Inr sampleHello, c')" using sample_greeted [OF c(2,3)] by blast
  have "joinPeer sampleGuestEnv (\<lambda>_. 7, i, tape) lanJoin (idn_ID sampleIdentity) sampleOptions (\<lambda>_. sampleTLS) w io =
     (case chatStart sampleGuestEnv (\<lambda>_. 7) (idn_ID sampleIdentity) (goOn i tape c) w of (g, out) \<Rightarrow> ((g, map println log @ out), io'))"
    by (simp add: joinPeer_def r chatSession_def c(1))
  moreover obtain g0 out where "chatStart sampleGuestEnv (\<lambda>_. 7) (idn_ID sampleIdentity) (goOn i tape c) w = (Some g0, out)"
    by (simp add: chatStart_def g sampleHello_def packetOf_def Let_def)
  ultimately show ?thesis by (metis prod.case)
qed

lemma trimmed_sampleIdentity: "trimSpace (idn_ID sampleIdentity) = idn_ID sampleIdentity"
proof -
  have c: "0x20 < unat (byteOf CHR ''c'') \<and> unat (byteOf CHR ''c'') < 0x80" "0x20 < unat (byteOf CHR ''J'') \<and> unat (byteOf CHR ''J'') < 0x80"
    by code_simp+
  show ?thesis unfolding sampleIdentity_ID by (rule trimSpace_none) (simp add: c)
qed

lemma sample_dials:
  "deskInput sampleEnv AtPrompt (Typed (idn_ID sampleIdentity)) (sampleDesk h) = (Away (idn_ID sampleIdentity), sampleDesk h)"
proof -
  let ?i = "''cc-BEEQSCIJBEEQSCIJ''"
  note t = trimmed_sampleIdentity [unfolded sampleIdentity_ID]
  have u: "toLower ?i = ''cc-beeqscijbeeqscij''" "ValidID ?i" "hasPrefix ''cc-beeqscijbeeqscij'' ''/'' = False" "equalFold ?i ''cc-BBBBBBBBBBBBBBBB'' = False"
    by code_simp+
  have s: "splitCommand ?i = (''cc-beeqscijbeeqscij'', '''')" by (simp add: splitCommand_def t u)
  have o: "equalFold ?i (ownID (sampleDesk h)) = False" using u(4) by (simp add: ownID_def sampleDesk_def)
  show ?thesis unfolding sampleIdentity_ID by (simp add: deskInput_def readyInput_def t runCommand_def s u o Let_def)
qed

theorem chat_is_with_typed_id_witness:
  "\<exists>after io g0 out io' k. joinPeer sampleGuestEnv after lanJoin (idn_ID sampleIdentity) sampleOptions (\<lambda>_. sampleTLS) sampleWorld io = ((Some g0, out), io')
     \<and> chatsWith plainCrypto (gu_conn g0) (idn_ID sampleIdentity) k \<and> idn_ID sampleIdentity = deriveID plainCrypto k
     \<and> pinned (idn_ID sampleIdentity) k (fst (io_trust io'))"
proof -
  obtain after io g0 out io' where j: "joinPeer sampleGuestEnv after lanJoin (idn_ID sampleIdentity) sampleOptions (\<lambda>_. sampleTLS) sampleWorld io = ((Some g0, out), io')"
    using sample_chat by metis
  have "aead_law (guestCrypto sampleGuestEnv)" using crypto_law_parts(2) [OF plainCrypto_law] by simp
  from chat_is_with_typed_id [OF this sample_dials j guest_here, unfolded trimmed_sampleIdentity] obtain k where
    "chatsWith plainCrypto (gu_conn g0) (idn_ID sampleIdentity) k" "idn_ID sampleIdentity = deriveID plainCrypto k"
    "pinned (idn_ID sampleIdentity) k (fst (io_trust io'))"
    unfolding sampleGuestEnv_simps by (elim exE conjE) (rule that)
  with j show ?thesis by blast
qed


theorem greeting_unauthenticated_witness:
  "\<exists>clock c g out. chatStart sampleGuestEnv clock '''' c sampleWorld = (Some g, out) \<and> pe_ID (cn_peer (gu_conn g)) = idn_ID sampleIdentity
     \<and> gu_room g = ''cc-CCCCCCCCCCCCCCCC'' \<and> hd out = println ''Authenticated host Carol (cc-CCCCCCCCCCCCCCCC).''"
proof -
  obtain io c io' and a :: conn where c: "clientConn plainCrypto (\<lambda>_. True) sampleTLS '''' (idn_ID sampleIdentity) (guestEndpoint sampleGuestEnv sampleWorld) io = (Inr c, io')"
    "caughtUp plainCrypto (cn_session a) (cn_session c)" "speaks (cn_session a)" using sample_dialled by blast
  have p: "pe_ID (cn_peer c) = idn_ID sampleIdentity" using dial_facts [OF _ c(1)] crypto_law_parts(2) [OF plainCrypto_law] sampleIdentity_ID by auto
  obtain i tape c' where g: "connReceive (guestCrypto sampleGuestEnv) (guestJson sampleGuestEnv) (\<lambda>_. 7) (goOn i tape c) = (Inr sampleHello, c')"
    using sample_greeted [OF c(2,3)] by auto
  have h: "pk_Type sampleHello = ''hello''" "pk_From sampleHello = ''cc-CCCCCCCCCCCCCCCC''" "pk_Name sampleHello = ''Carol''"
    by (simp_all add: sampleHello_def packetOf_def)
  obtain g0 out where s: "chatStart sampleGuestEnv (\<lambda>_. 7) '''' (goOn i tape c) sampleWorld = (Some g0, out)" "cn_peer (gu_conn g0) = cn_peer (goOn i tape c)"
    "gu_room g0 = ''cc-CCCCCCCCCCCCCCCC''" "hd out = println ''Authenticated host Carol (cc-CCCCCCCCCCCCCCCC).''"
    using greeting_unauthenticated [OF g h(1,2), of "''''" sampleWorld] h by auto
  have "pe_ID (cn_peer (gu_conn g0)) = idn_ID sampleIdentity" using s(2) p by (simp add: goOn_def)
  then show ?thesis using s by blast
qed

end
