(* ===== verification/Launch.thy ===== *)
theory Launch
  imports Guest
begin

text \<open>
  The way into the program, \<^verbatim>\<open>cmd/cmd-chat/main.go\<close>: the subcommands, the certificate and the listener of
  \<^verbatim>\<open>internal/chat/chat.go\<close>, \<^verbatim>\<open>openStation\<close> with the phonebook listing and the relay standby, the first screens of
  the ready prompt and of the \<^verbatim>\<open>host\<close> subcommand, and \<^verbatim>\<open>forget\<close>.
\<close>

section \<open>The keyboard\<close>

text \<open>
  \<^verbatim>\<open>bufio.Scanner\<close> with a token limit: lines without their end, a carriage return before it dropped; a line that fills
  the buffer ends the scan.
\<close>

definition dropCR :: "string \<Rightarrow> string" where
  "dropCR l = (if l \<noteq> '''' \<and> last l = cr then butlast l else l)"

function scanLines :: "nat \<Rightarrow> string \<Rightarrow> string list" where
  "scanLines most s =
     (if s = '''' then []
      else let l = takeWhile (\<lambda>c. c \<noteq> nl) s; rest = dropWhile (\<lambda>c. c \<noteq> nl) s in
        if most \<le> length l then []
        else dropCR l # (if rest = '''' then [] else scanLines most (tl rest)))"
  by pat_completeness auto
termination
proof (relation "measure (\<lambda>(most, s). length s)", goal_cases)
  case (2 most s l rest)
  have "length (tl rest) < length rest" using 2(5) by (cases rest) simp_all
  then show ?case using length_dropWhile_le [of "\<lambda>c. c \<noteq> nl" s] 2(3) by simp
qed simp

declare scanLines.simps [simp del]

definition stdinLimit :: nat where "stdinLimit = 1024 * 1024"

definition stdinLines :: "string \<Rightarrow> input list" where
  "stdinLines s = map Typed (scanLines stdinLimit s) @ [InputEnded]"

section \<open>The host's certificate and listener\<close>

text \<open>The certificate comes from \<^verbatim>\<open>crypto/x509\<close>; its fingerprint is what the host publishes.\<close>

definition newTLSConfig :: "crypto \<Rightarrow> bytes option \<Rightarrow> (bytes \<times> string) option" where
  "newTLSConfig C der = map_option (\<lambda>d. (d, hexEncode (c_sha256 C d))) der"

text \<open>\<^verbatim>\<open>Listener\<close>: nothing, or an address and whether it has been closed.\<close>

type_synonym listener = "(string \<times> bool) option"

definition hostBind :: "string + string \<Rightarrow> listener \<Rightarrow> string option \<times> listener" where
  "hostBind r ln = (case r of Inl e \<Rightarrow> (Some e, ln) | Inr address \<Rightarrow> (None, Some (address, False)))"

definition hostClose :: "listener \<Rightarrow> listener" where
  "hostClose ln = map_option (\<lambda>(a, _). (a, True)) ln"

definition hostAddr :: "listener \<Rightarrow> string" where
  "hostAddr ln = (case ln of None \<Rightarrow> '''' | Some (a, _) \<Rightarrow> a)"

text \<open>The transports \<^verbatim>\<open>Serve\<close> starts to serve, and the error it returns, given what \<^verbatim>\<open>Accept\<close> answers.\<close>

fun acceptLoop :: "(string + 'c) list \<Rightarrow> 'c list \<times> string option" where
  "acceptLoop [] = ([], None)"
| "acceptLoop (Inl e # rs) = ([], Some e)"
| "acceptLoop (Inr c # rs) = (case acceptLoop rs of (cs, e) \<Rightarrow> (c # cs, e))"

definition hostServe :: "listener \<Rightarrow> (string + 'c) list \<Rightarrow> 'c list \<times> string option" where
  "hostServe ln rs = (case ln of None \<Rightarrow> ([], Some ''chat: Serve called before Bind'') | Some _ \<Rightarrow> acceptLoop rs)"

definition hostListen :: "string \<Rightarrow> string \<Rightarrow> string + string \<Rightarrow> (string + 'c) list \<Rightarrow> ('c list \<times> string option) \<times> console" where
  "hostListen hostID fp r rs =
     (case hostBind r None of
        (Some e, _) \<Rightarrow> (([], Some e), [])
      | (None, ln) \<Rightarrow> (hostServe ln rs, [''Hosting as '' @ hostID @ '' on '' @ hostAddr ln @ [nl] @ ''TLS fingerprint: '' @ fp @ [nl]]))"

section \<open>Opening the station\<close>

text \<open>What the program meets when it opens: the certificate, the port, the address discovery, the directory.\<close>

record outside =
  ou_certificate :: "bytes option"
  ou_bind :: "string option"
  ou_windows :: bool
  ou_interfaces :: "netInterface list option"
  ou_v6text :: "ip \<Rightarrow> string"
  ou_stun :: "stunErr + udpEndpoint"
  ou_pb :: pbLib
  ou_http :: exchange
  ou_url :: string
  ou_rand :: bytes
  ou_clock :: "nat \<Rightarrow> int"
  ou_pbError :: "pbErr \<Rightarrow> string"

text \<open>\<^verbatim>\<open>time.Duration\<close> of whole seconds, as \<^verbatim>\<open>%s\<close> prints it.\<close>

definition durationText :: "int \<Rightarrow> string" where
  "durationText s =
     (if s < 60 then decimalInt s @ ''s''
      else if s < 3600 then decimalInt (s div 60) @ ''m'' @ decimalInt (s mod 60) @ ''s''
      else decimalInt (s div 3600) @ ''h'' @ decimalInt (s mod 3600 div 60) @ ''m'' @ decimalInt (s mod 60) @ ''s'')"

definition listingVersion :: "bool \<Rightarrow> int" where
  "listingVersion relayEnabled = (if relayEnabled then RelayProtocolVersion else 1)"

definition listingFor :: "outside \<Rightarrow> int \<Rightarrow> string \<Rightarrow> bool \<Rightarrow> announcement \<times> stunErr option" where
  "listingFor U port fp relayEnabled =
     (case GatherCandidates (ou_v6text U) (ou_interfaces U) port (Some (map_sum id Some (ou_stun U))) of
        (candidates, err) \<Rightarrow>
          (\<lparr>an_Fingerprint = fp, an_Candidates = candidates, an_ProtocolVersion = listingVersion relayEnabled\<rparr>, err))"

text \<open>The registration, if it succeeded, the client with it, and the function that takes the entry away.\<close>

definition publishToPhonebook ::
  "outside \<Rightarrow> identity \<Rightarrow> int \<Rightarrow> string \<Rightarrow> bool \<Rightarrow> (stopper \<times> registration option \<times> pbClient) \<times> console" where
  "publishToPhonebook U ident port fp relayEnabled =
     (case listingFor U port fp relayEnabled of
        (a, stunErr) \<Rightarrow>
          (let pb = newClient ident (ou_url U) (ou_rand U) (ou_clock U);
               out = say (''Publishing to the phonebook so peers outside this LAN can find you...''
                       # (if stunErr \<noteq> None then [''Public UDP discovery failed; only local and routable addresses were published.''] else []))
           in case registerEntry (ou_pb U) (ou_http U) a pb of
                (Inl e, pb') \<Rightarrow>
                  ((NothingToStop, None, pb'), out @ say [''Phonebook registration failed: '' @ ou_pbError U e, ''Others can still join from this LAN.''])
              | (Inr reg, pb') \<Rightarrow>
                  ((WithdrawListing, Some reg, pb'),
                   out @ say [''Listed in the phonebook as '' @ idn_ID ident @ '' ('' @ decimalNat (length (an_Candidates a))
                     @ '' address candidate(s), refreshed every '' @ durationText (heartbeatIntervalDuration reg) @ '').''])))"

text \<open>What the function returned does to the directory.\<close>

definition withdrawListing :: "outside \<Rightarrow> pbClient \<Rightarrow> (pbErr + unit) \<times> pbClient" where
  "withdrawListing U pb = unregister (ou_pb U) (ou_http U) pb"

definition relayStandby :: "bool \<Rightarrow> stopper \<times> console" where
  "relayStandby enabled =
     (if \<not> enabled then (NothingToStop, say [''Relay disabled; peers with no direct path will not be able to reach you.''])
      else (StopRelay, say [''Relay standby active; peers behind strict NAT can still reach you.'']))"

record opened =
  op_station :: station
  op_fingerprint :: string
  op_lan :: lanAnnouncement
  op_listing :: "(registration option \<times> pbClient) option"

definition openStation ::
  "deskEnv \<Rightarrow> outside \<Rightarrow> (nat \<Rightarrow> conn) \<Rightarrow> profileWorld \<Rightarrow> identity \<Rightarrow> int \<Rightarrow> bool \<Rightarrow> bool \<Rightarrow> opened option \<times> console" where
  "openStation E U links w ident port publish relayEnabled =
     (case newTLSConfig (de_crypto E) (ou_certificate U) of
        None \<Rightarrow> (None, [])
      | Some (der, fp) \<Rightarrow>
          (let n = nameOf (de_profile E) w;
               h = setGroup (groupChatEnabled (de_profile E) w) (newHost (idn_ID ident) n links);
               direct = (ou_bind U = None);
               bound = (case ou_bind U of None \<Rightarrow> [CloseListener] | Some e \<Rightarrow> []);
               blocked = (case ou_bind U of None \<Rightarrow> [] | Some e \<Rightarrow> reportBlockedListener (ou_windows U) e port);
               (stops, listing, out) =
                 (if publish then
                    (let (relay, out1) = relayStandby relayEnabled;
                         ((listed, reg, pb), out2) = publishToPhonebook U ident port fp relayEnabled
                     in ([relay, listed], Some (reg, pb), out1 @ out2))
                  else ([], None, say [''Phonebook publishing disabled; only this LAN can find you.'']))
           in (Some \<lparr>op_station = \<lparr>st_id = ident, st_host = h, st_port = port, st_peers = [], st_left = [], st_direct = direct,
                       st_stop = bound @ stops\<rparr>,
                     op_fingerprint = fp,
                     op_lan = \<lparr>lan_ID = idn_ID ident, lan_Name = n, lan_Port = port, lan_Fingerprint = fp, lan_Endpoint = ''''\<rparr>,
                     op_listing = listing\<rparr>,
               blocked @ out)))"

section \<open>The first screens\<close>

definition deskAt :: "opened \<Rightarrow> profileWorld \<Rightarrow> console \<Rightarrow> desk" where
  "deskAt o1 w out = \<lparr>dk_station = op_station o1, dk_profile = w, dk_console = out, dk_stopped = []\<rparr>"

definition ready ::
  "deskEnv \<Rightarrow> outside \<Rightarrow> (nat \<Rightarrow> conn) \<Rightarrow> profileWorld \<Rightarrow> identity \<Rightarrow> (mode \<times> desk) option" where
  "ready E U links w ident =
     (case openStation E U links w ident tcpPort True True of
        (None, _) \<Rightarrow> None
      | (Some o1, out) \<Rightarrow>
          (let st = op_station o1
           in Some (AtPrompt, prompt (deskAt o1 w
                (out @ banner (de_version E) (idn_ID ident) (nameOf (de_profile E) w) (h_group (st_host st)) (st_direct st))))))"

text \<open>The flags of \<^verbatim>\<open>host\<close>, after parsing; \<^verbatim>\<open>group\<close> defaults to the saved preference.\<close>

record hostFlags =
  hf_port :: int
  hf_publish :: bool
  hf_relay :: bool
  hf_group :: "bool option"

definition hostCommand ::
  "deskEnv \<Rightarrow> outside \<Rightarrow> (nat \<Rightarrow> conn) \<Rightarrow> profileWorld \<Rightarrow> identity \<Rightarrow> hostFlags \<Rightarrow> (mode \<times> desk) option" where
  "hostCommand E U links w ident F =
     (let grouped = (case hf_group F of None \<Rightarrow> groupChatEnabled (de_profile E) w | Some b \<Rightarrow> b) in
      case openStation E U links w ident (hf_port F) (hf_publish F) (hf_relay F) of
        (None, _) \<Rightarrow> None
      | (Some o1, out) \<Rightarrow>
          (let st = op_station o1; d = deskAt (o1\<lparr>op_station := st\<lparr>st_host := setGroup grouped (st_host st)\<rparr>\<rparr>) w out
           in Some (HostOnly, prompt (emit
                ([''Your ID: '' @ idn_ID ident @ [nl] @ ''Hosting chat for '' @ idn_ID ident @ [nl] @ ''Fingerprint: '' @ op_fingerprint o1 @ [nl]]
                 @ say [''You appear as: '' @ nameOf (de_profile E) w,
                     if grouped then ''Group chat is on; several people can join and will see each other.''
                     else ''Group chat is off; only one person at a time can join.'',
                     ''IPC bridge:  '' @ ipcAddress, ''Waiting for someone to connect. Type messages below; /quit exits.'',
                     ''When someone joins, compare the safety number with them out of band.'']) d))))"

section \<open>The subcommands\<close>

datatype subcommand =
    DebugChild | ShowID | ShowVersion | ShowEndpoint | HostWith "string list" | JoinWith "string list" | Forget "string list"
  | Security | Help | Ready

definition dispatch :: "string list \<Rightarrow> subcommand" where
  "dispatch args =
     (if length args \<le> 1 then Ready
      else let a = args ! 1; rest = argsAfter args 2 in
        if a = ''--debug-child'' then DebugChild
        else if a = ''id'' then ShowID
        else if a \<in> set [''version'', ''--version'', ''-v''] then ShowVersion
        else if a = ''endpoint'' then ShowEndpoint
        else if a = ''host'' then HostWith rest
        else if a = ''join'' then JoinWith rest
        else if a = ''forget'' then Forget rest
        else if a = ''security'' then Security
        else if a \<in> set [''help'', ''--help'', ''-h''] then Help
        else Ready)"

text \<open>The update check: what its channel gives before it is closed.\<close>

definition checkForUpdate :: "updateErr + release option \<Rightarrow> release list" where
  "checkForUpdate r = (case r of Inr (Some release) \<Rightarrow> [release] | _ \<Rightarrow> [])"

definition showEndpoint :: "(stunErr \<Rightarrow> string) \<Rightarrow> stunErr + udpEndpoint \<Rightarrow> console" where
  "showEndpoint wording r =
     (case r of
        Inl e \<Rightarrow> say [''error: '' @ wording e]
      | Inr e \<Rightarrow> say [''Public UDP endpoint: '' @ ue_Address e @ '':'' @ decimalInt (ue_Port e),
          ''This is a NAT-discovery result; it is not by itself a reachable TCP chat address.''])"

text \<open>\<^verbatim>\<open>forget\<close>, on the store as it is loaded; \<^verbatim>\<open>date\<close> is the date of a time in words.\<close>

definition forgetCommand ::
  "trustJson \<Rightarrow> (trustErr \<Rightarrow> string) \<Rightarrow> (int \<Rightarrow> string) \<Rightarrow> string list \<Rightarrow> trustWorld \<Rightarrow> console \<times> trustWorld" where
  "forgetCommand J wording date args w =
     (case args of
        [] \<Rightarrow> (say [''Usage: cmd-chat forget <cmd-chat-id>'', '''',
           ''This makes CMD-Chat forget the identity key it remembers for that ID, so'',
           ''the next connection is treated as a first contact. Only do this after you'',
           ''have confirmed with the person, by some means other than this chat, that'',
           ''they really did change devices or reinstall.''], w)
      | a # _ \<Rightarrow>
          (let target = trimSpace a in
           if \<not> ValidID target then (say [''That does not look like a CMD-Chat ID.''], w)
           else case known target w of
             None \<Rightarrow> (say [''Nothing is remembered for '' @ target @ ''.''], w)
           | Some record \<Rightarrow>
               (case forgetPeer J target w of
                  (Some e, w') \<Rightarrow> (say [''Could not forget it: '' @ wording e], w')
                | (None, w') \<Rightarrow>
                    (say ([''Forgot the identity key for '' @ target @ ''.'']
                       @ (if tr_FirstSeen record \<noteq> zeroTime then [''It had been trusted since '' @ date (tr_FirstSeen record) @ ''.''] else [])
                       @ [''The next connection will be treated as a first contact. Compare the new'',
                          ''safety number with them before you say anything sensitive.'']), w'))))"

text \<open>What a panic leaves on the screen, and what the debug terminal opens with.\<close>

definition crashNotice :: "string \<Rightarrow> bool \<Rightarrow> console" where
  "crashNotice panic debugging =
     say ['''', ''CMD-Chat hit an unexpected error and has to close:'', ''  '' @ panic, '''',
       ''Please report this at https://github.com/ESP32-S3/CMD-Chat/issues'',
       if debugging then ''Details were written to the debug log.'' else ''Run the Debug option from the menu and reproduce it to capture a log.'']"

definition debugNotice :: "string + string \<Rightarrow> console" where
  "debugNotice r =
     (case r of
        Inl e \<Rightarrow> say [''Could not enable debug logging: '' @ e]
      | Inr path \<Rightarrow> say [''CMD-Chat DEBUG MODE'', ''Crash/debug log: '' @ path, ''Keep this terminal open while reproducing the problem.'', ''''])"

section \<open>Leaving the program\<close>

text \<open>What the turns of the terminal leave alone: what there is to stop, and what has been stopped.\<close>

definition stopsKept :: "desk \<Rightarrow> desk \<Rightarrow> bool" where
  "stopsKept d d' \<longleftrightarrow> st_stop (dk_station d') = st_stop (dk_station d) \<and> dk_stopped d' = dk_stopped d"

lemma stops_refl: "stopsKept d d" by (simp add: stopsKept_def)
lemma stops_emit: "stopsKept d d' \<Longrightarrow> stopsKept d (emit out d')" by (simp add: stopsKept_def emit_def)
lemma stops_prompt: "stopsKept d d' \<Longrightarrow> stopsKept d (prompt d')" by (simp add: stopsKept_def prompt_def emit_def)
lemma stops_profile: "stopsKept d d' \<Longrightarrow> stopsKept d (d'\<lparr>dk_profile := w\<rparr>)" by (simp add: stopsKept_def)

lemma stops_room: "stopsKept d d' \<Longrightarrow> stopsKept d (onRoom f d')" by (simp add: stopsKept_def onRoom_def)

lemma stops_drain: "stopsKept d d' \<Longrightarrow> stopsKept d (d'\<lparr>dk_station := drainPeers (drainLeft (dk_station d'))\<rparr>)"
    "stopsKept d d' \<Longrightarrow> stopsKept d (d'\<lparr>dk_station := drainLeft (dk_station d')\<rparr>)"
  by (simp_all add: stopsKept_def drainPeers_def drainLeft_def)

lemma stops_if: "stopsKept d x \<Longrightarrow> stopsKept d y \<Longrightarrow> stopsKept d (if b then x else y)" by simp

lemma stops_speak: "stopsKept d (speak E t d)"
  unfolding speak_def Let_def by (intro stops_emit stops_room stops_refl)

lemma stops_nick: "stopsKept d (nickCommand E a d)"
proof -
  obtain w' d' out where n: "setNicknameCmd E a (Some (\<lambda>n. onRoom (setName (de_crypto E) (de_json E) (deskTable E) n))) (dk_profile d, d) = ((w', d'), out)"
    by (metis surj_pair)
  have "d' = d \<or> (\<exists>n. d' = onRoom (setName (de_crypto E) (de_json E) (deskTable E) n) d)"
    using n by (auto simp: setNicknameCmd_def Let_def split: if_splits prod.splits bool.splits)
  then have "stopsKept d d'" using stops_refl stops_room by auto
  then show ?thesis by (simp add: nickCommand_def n stops_emit stops_profile)
qed

lemma stops_group: "stopsKept d (setGroupChat E a d)"
proof -
  have "stopsKept d (applyGroup E b d)" for b
  proof -
    obtain ok w' where s: "setGroupChatEnabled (de_profile E) b (dk_profile (onRoom (setGroup b) d)) = (ok, w')" by (metis surj_pair)
    show ?thesis unfolding applyGroup_def Let_def s prod.case
      by (intro stops_emit stops_if stops_profile stops_room stops_refl)
  qed
  then show ?thesis unfolding setGroupChat_def Let_def by (intro stops_if stops_emit stops_refl)
qed

lemmas stops_turn = stops_refl stops_emit stops_prompt stops_if stops_room stops_drain stops_speak stops_nick stops_group

text \<open>A turn goes on with what there is to stop, or returns having stopped it.\<close>

definition stopsOnce :: "desk \<Rightarrow> mode \<times> desk \<Rightarrow> bool" where
  "stopsOnce d s \<longleftrightarrow> (if fst s = Returned then \<exists>d0. stopsKept d d0 \<and> snd s = closeStation d0 else stopsKept d (snd s))"

lemma once_if: "stopsOnce d x \<Longrightarrow> stopsOnce d y \<Longrightarrow> stopsOnce d (if b then x else y)" by simp
lemma once_stay: "m \<noteq> Returned \<Longrightarrow> stopsKept d d' \<Longrightarrow> stopsOnce d (m, d')" by (simp add: stopsOnce_def)
lemma once_close: "stopsOnce d (Returned, closeStation d)" using stops_refl by (auto simp: stopsOnce_def)

lemmas once_turn = once_if once_close once_stay mode.distinct stops_turn

lemma once_menu: "stopsOnce d (debugMenu E d)" "stopsOnce d (debugAnswer E i d)"
proof -
  have m: "AtPrompt \<noteq> Returned" "AskedDebug \<noteq> Returned" by simp_all
  show "stopsOnce d (debugMenu E d)" unfolding debugMenu_def Let_def by (intro once_if once_stay m stops_turn)
  have l: "stopsKept d (case de_launch E of Some err \<Rightarrow> emit (say [''Could not open debug terminal: '' @ err, '''']) d
     | None \<Rightarrow> emit (say [''Debug terminal opened. Reproduce the problem there.'', '''']) d)"
    by (cases "de_launch E") (simp_all add: stops_emit stops_refl)
  show "stopsOnce d (debugAnswer E i d)" unfolding debugAnswer_def Let_def
    by (cases i) (simp_all only: input.case, (intro once_stay m stops_turn l)+)
qed

lemma once_command: "stopsOnce d (runCommand E t d)"
proof -
  obtain command argument where s: "splitCommand t = (command, argument)" by (metis surj_pair)
  have m: "AtPrompt \<noteq> Returned" "Away t \<noteq> Returned" by simp_all
  show ?thesis unfolding runCommand_def s
    by (simp only: Let_def prod.case) (intro once_if once_close once_menu once_stay m stops_turn)
qed

lemma once_chat: "stopsOnce d (hostChatInput E p i d)"
proof (cases i)
  case (Typed line)
  obtain command argument where s: "splitCommand (trimSpace line) = (command, argument)" by (metis surj_pair)
  have m: "AtPrompt \<noteq> Returned" "Hosting p \<noteq> Returned" by simp_all
  show ?thesis unfolding hostChatInput_def Typed
    by (simp only: Let_def input.case s prod.case) (intro once_if once_stay m stops_turn)
qed (simp add: hostChatInput_def once_stay stops_prompt stops_refl)

lemma once_host: "stopsOnce d (hostInput E i d)"
proof -
  have m: "HostOnly \<noteq> Returned" by simp
  show ?thesis unfolding hostInput_def Let_def
    by (cases i) (simp_all only: input.case, (intro once_if once_close once_stay m stops_turn)+)
qed

lemma once_input: "m \<noteq> Returned \<Longrightarrow> stopsOnce d (deskInput E m i d)"
  by (cases m; cases i) (simp_all add: deskInput_def readyInput_def once_command once_close once_chat once_menu once_host once_stay stops_refl)

lemma once_peer: "m \<noteq> Returned \<Longrightarrow> stopsOnce d (deskPeer E m p d)"
  by (cases m) (simp_all add: deskPeer_def readyPeer_def hostChatStart_def hostChatPeer_def hostPeer_def Let_def once_stay stops_turn
      stopsKept_def prompt_def emit_def drainLeft_def)

lemma once_left: "m \<noteq> Returned \<Longrightarrow> stopsOnce d (deskLeft m p d)"
  by (cases m) (simp_all add: deskLeft_def hostChatLeft_def hostLeft_def once_stay stops_turn)

lemma stops_trans: "stopsKept c d \<Longrightarrow> stopsOnce d s \<Longrightarrow> stopsOnce c s"
  by (auto simp: stopsOnce_def stopsKept_def split: if_splits)

lemma step_stops:
  assumes "desk_step E (m, d) s'" "m \<noteq> Returned"
  shows "stopsOnce d s'"
  using assms(1)
proof (rule desk_stepE, goal_cases)
  case (1 i)
  then show ?case using once_input [OF assms(2)] by simp
next
  case (2 p ps)
  have "stopsKept d (d\<lparr>dk_station := (dk_station d)\<lparr>st_peers := ps\<rparr>\<rparr>)" by (simp add: stopsKept_def)
  then show ?case using 2 once_peer [OF assms(2)] stops_trans by blast
next
  case (3 p ps)
  have "stopsKept d (d\<lparr>dk_station := (dk_station d)\<lparr>st_left := ps\<rparr>\<rparr>)" by (simp add: stopsKept_def)
  then show ?case using 3 once_left [OF assms(2)] stops_trans by blast
next
  case (4 r)
  then show ?case using assms(2) by (simp add: stopsOnce_def updateArrives_def stops_turn)
next
  case (5 target out w)
  then show ?case using once_stay [of AtPrompt d] stops_prompt stops_emit stops_profile stops_refl by simp
next
  case (6 h')
  then show ?case using assms(2) by (simp add: stopsOnce_def stopsKept_def)
qed

lemma returned_stays: "desk_step E (Returned, d) s' \<Longrightarrow> s' = (Returned, d)"
  by (erule desk_stepE) (auto simp: deskInput_def hears_def hearsLeaving_def)

lemma reach_stops:
  assumes "desk_reach E (m0, d0) s" "m0 \<noteq> Returned"
  shows "stopsOnce d0 s"
  using assms(1)
proof (induction rule: desk_reach.induct)
  case desk_here
  then show ?case using assms(2) by (simp add: once_stay stops_refl)
next
  case (desk_more s s')
  obtain m d where s: "s = (m, d)" by (metis surj_pair)
  show ?case
  proof (cases "m = Returned")
    case True
    then have "s' = s" using desk_more(2) returned_stays s by blast
    then show ?thesis using desk_more.IH by simp
  next
    case False
    then have "stopsKept d0 d" using desk_more.IH s by (simp add: stopsOnce_def)
    then show ?thesis using step_stops [of E m d s'] desk_more(2) s False stops_trans by blast
  qed
qed

lemma disconnect_clients: "h_Clients (disconnectAll h) = h_Clients h \<and> (\<forall>c \<in> set (h_Clients h). cn_stopped (h_links (disconnectAll h) c))"
proof -
  have c: "h_Clients (foldl (\<lambda>h c. closeLink c h) h cs) = h_Clients h
      \<and> (\<forall>c. cn_stopped (h_links h c) \<or> c \<in> set cs \<longrightarrow> cn_stopped (h_links (foldl (\<lambda>h c. closeLink c h) h cs) c))" for cs
  proof (induction cs arbitrary: h)
    case (Cons x cs)
    show ?case using Cons.IH [of "closeLink x h"] by (auto simp: closeLink_def connClose_def)
  qed simp
  show ?thesis using c [of "h_Clients h"] by (simp add: disconnectAll_def)
qed

section \<open>The fingerprint that is published is the one that is pinned\<close>

lemma lower_lower: "asciiLower (asciiLower c) = asciiLower c"
proof (cases "65 \<le> (of_char c :: nat) \<and> (of_char c :: nat) \<le> 90")
  case True
  then have "(of_char (asciiLower c) :: nat) = of_char c + 32" by (simp add: asciiLower_def Let_def)
  then show ?thesis using True by (subst asciiLower_def) (simp add: Let_def)
next
  case False
  then show ?thesis by (auto simp: asciiLower_def Let_def)
qed

lemma hexDigits_plain: "n < 16 \<Longrightarrow> 0x20 < unat (byteOf (asciiLower (hexDigits ! n))) \<and> unat (byteOf (asciiLower (hexDigits ! n))) < 0x80"
proof -
  have "list_all (\<lambda>c. 0x20 < unat (byteOf (asciiLower c)) \<and> unat (byteOf (asciiLower c)) < 0x80) hexDigits"
    by (simp add: hexDigits_def asciiLower_def byteOf_def)
  moreover have "length hexDigits = 16" by code_simp
  ultimately show "n < 16 \<Longrightarrow> ?thesis" by (simp add: list_all_length)
qed

lemma hex_plain: "c \<in> set (toLower (hexEncode bs)) \<Longrightarrow> 0x20 < unat (byteOf c) \<and> unat (byteOf c) < 0x80"
proof -
  have d: "unat (b :: byte) div 16 < 16" for b using unat_bounds(1) [of b] by linarith
  assume "c \<in> set (toLower (hexEncode bs))"
  then show ?thesis using hexDigits_plain d by (auto simp: toLower_def hexEncode_def)
qed

lemma pin_published: "pinOk C (toLower (hexEncode (c_sha256 C der))) der"
proof -
  let ?h = "toLower (hexEncode (c_sha256 C der))"
  have "trimSpace ?h = ?h"
    by (rule trimSpace_none) (metis hex_plain hd_in_set last_in_set)
  then show ?thesis using lower_lower by (simp add: pinOk_def Let_def toLower_def)
qed

section \<open>Properties\<close>



text \<open>C25: \<^verbatim>\<open>forget\<close> reopens one ID and nothing else. After it has reported success, the store a later program loads
  holds no key for that ID and every other entry as before, and accepts whatever key that ID presents next as a first
  contact.\<close>

theorem forget_reopens_one:
  assumes "forgetCommand J wording date (a # args) w = (out, w')" "known (trimSpace a) w = Some r" "ValidID (trimSpace a)"
    "ts_path (tw_store w) \<noteq> ''''" "tw_writable w (ts_path (tw_store w))" "trustJsonKeeps J (ts_peers (tw_store w'))"
  shows "hd out = println (''Forgot the identity key for '' @ trimSpace a @ ''.'') \<and> known (trimSpace a) (reload J w') = None
     \<and> (\<forall>j. j \<noteq> trimSpace a \<longrightarrow> known j (reload J w') = known j w)
     \<and> (k \<noteq> [] \<longrightarrow> (\<exists>w2. authorize J (trimSpace a) k (reload J w') = (None, w2) \<and> pinned (trimSpace a) k w2))"
proof -
  let ?i = "trimSpace a" and ?v = "w\<lparr>tw_store := (tw_store w)\<lparr>ts_peers := (ts_peers (tw_store w))(trimSpace a := None)\<rparr>\<rparr>"
  have f: "forgetPeer J ?i w = (None, w')" and o1: "hd out = println (''Forgot the identity key for '' @ ?i @ ''.'')"
    using assms(1-5) by (auto simp: forgetCommand_def forgetPeer_def saveLocked_def Let_def say_def split: if_splits)
  have s: "saveLocked J ?v = (None, w')" using f by (simp add: forgetPeer_def)
  then have st: "tw_store w' = tw_store ?v" by (rule saveLocked_store)
  then have r: "reload J w' = w'" using saved_reload [OF s] assms(4,6) by simp
  have k: "known ?i w' = None" "j \<noteq> ?i \<Longrightarrow> known j w' = known j w" for j using st by (simp_all add: known_def)
  have wr: "tw_writable w' = tw_writable w" using s by (auto simp: saveLocked_def Let_def split: if_splits)
  have "?i \<noteq> ''''" using assms(3) by (auto simp: ValidID_def)
  then have "k \<noteq> [] \<Longrightarrow> fst (authorize J ?i k w') = None"
    using k(1) st wr assms(4,5) by (simp add: authorize_def trust_def known_def putPeer_def saveLocked_def Let_def)
  then have "k \<noteq> [] \<Longrightarrow> \<exists>w2. authorize J ?i k w' = (None, w2) \<and> pinned ?i k w2" using authorize_pins by (metis prod.collapse)
  then show ?thesis using o1 k r by simp
qed

section \<open>A computer at which the witnesses evaluate\<close>

definition sampleOutside :: outside where
  "sampleOutside = \<lparr>ou_certificate = Some [1], ou_bind = None, ou_windows = False, ou_interfaces = None, ou_v6text = (\<lambda>a. ''''),
     ou_stun = Inr \<lparr>ue_Address = ''192.0.2.7'', ue_Port = 4242\<rparr>, ou_pb = samplePb '''', ou_http = sampleExchange, ou_url = '''',
     ou_rand = replicate 60 9, ou_clock = (\<lambda>k. 1000), ou_pbError = (\<lambda>e. ''refused'')\<rparr>"

definition sampleListing :: announcement where
  "sampleListing = fst (listingFor sampleOutside 38556 (hexEncode (c_sha256 plainCrypto [1])) True)"

definition listingOutside :: outside where
  "listingOutside = sampleOutside\<lparr>ou_pb := (samplePb '''')\<lparr>pl_entryOf := (\<lambda>b. Some (announcedEntry sampleID sampleListing ''0.1.0''))\<rparr>\<rparr>"

lemma sample_listing_for: "listingFor listingOutside 38556 (hexEncode (c_sha256 plainCrypto [1])) True = (sampleListing, None)"
  by (simp add: sampleListing_def listingFor_def listingOutside_def sampleOutside_def GatherCandidates_def localAddresses_def Let_def)

lemma sampleListing_candidates: "an_Candidates sampleListing \<noteq> []"
  by (simp add: sampleListing_def listingFor_def sampleOutside_def GatherCandidates_def localAddresses_def Let_def)

lemma sample_published:
  "\<exists>stop reg pb out. publishToPhonebook listingOutside sampleHost 38556 (hexEncode (c_sha256 plainCrypto [1])) True = ((stop, Some reg, pb), out)"
proof -
  obtain r c' where "registerEntry (ou_pb listingOutside) (ou_http listingOutside) sampleListing sampleClient = (Inr r, c')"
    using sample_registers [OF sampleListing_candidates, where b = "''''" and f = "\<lambda>b. Some (announcedEntry sampleID sampleListing ''0.1.0'')"]
    by (auto simp: listingOutside_def sampleOutside_def)
  moreover have "newClient sampleHost (ou_url listingOutside) (ou_rand listingOutside) (ou_clock listingOutside) = sampleClient"
    by (simp add: sampleClient_def listingOutside_def sampleOutside_def)
  ultimately show ?thesis by (simp add: publishToPhonebook_def sample_listing_for Let_def)
qed



text \<open>A store in which one ID is known.\<close>

definition forgetTrusted :: trustWorld where
  "forgetTrusted = \<lparr>tw_store = \<lparr>ts_peers = [sampleID \<mapsto> \<lparr>tr_PublicKey = ''BBBB'', tr_FirstSeen = 7, tr_LastSeen = 7\<rparr>], ts_path = ''trusted_peers.json''\<rparr>,
     tw_disk = (\<lambda>_. None), tw_writable = (\<lambda>_. True), tw_now = 9\<rparr>"

theorem forget_reopens_one_witness:
  "\<exists>out w'. forgetCommand sampleTrustJson trustMessage (\<lambda>t. ''today'') [sampleID] forgetTrusted = (out, w')
     \<and> known sampleID forgetTrusted \<noteq> None \<and> known sampleID (reload sampleTrustJson w') = None
     \<and> (\<exists>w2. authorize sampleTrustJson sampleID [3] (reload sampleTrustJson w') = (None, w2))"
proof -
  have c: "0x20 < unat (byteOf CHR ''c'') \<and> unat (byteOf CHR ''c'') < 0x80" "0x20 < unat (byteOf CHR ''A'') \<and> unat (byteOf CHR ''A'') < 0x80"
    by code_simp+
  have t: "trimSpace sampleID = sampleID" unfolding sampleID_def by (rule trimSpace_none) (simp add: c)
  obtain out w' where f: "forgetCommand sampleTrustJson trustMessage (\<lambda>t. ''today'') (sampleID # []) forgetTrusted = (out, w')" by (metis surj_pair)
  have k: "known (trimSpace sampleID) forgetTrusted = Some \<lparr>tr_PublicKey = ''BBBB'', tr_FirstSeen = 7, tr_LastSeen = 7\<rparr>"
    by (simp add: t known_def forgetTrusted_def)
  have v: "ValidID (trimSpace sampleID)" "ts_path (tw_store forgetTrusted) \<noteq> ''''" "tw_writable forgetTrusted (ts_path (tw_store forgetTrusted))"
    using sampleID_valid by (simp_all add: t forgetTrusted_def)
  have "ts_peers (tw_store w') = (\<lambda>_. None)"
    using f k v(1) by (auto simp: forgetCommand_def t forgetPeer_def saveLocked_def forgetTrusted_def Let_def)
  then have j: "trustJsonKeeps sampleTrustJson (ts_peers (tw_store w'))" by (simp add: trustJsonKeeps_def sampleTrustJson_def)
  from forget_reopens_one [OF f k v j, of "[3]"] f k show ?thesis by (auto simp: t)
qed

end
