(* ===== verification/Frontend.thy ===== *)
theory Frontend
  imports Launch
begin

text \<open>
  What runs beside the chat: the debug log of \<^verbatim>\<open>internal/debug/debug.go\<close>, the loopback bridge of
  \<^verbatim>\<open>internal/ipc/server.go\<close> with the command the terminal answers on it, and the browser interface of
  \<^verbatim>\<open>cmd/cmd-chat/gui.go\<close>, which runs the program as a child process and reads its output.
\<close>

section \<open>The debug log\<close>

record debugLog =
  dg_enabled :: bool
  dg_file :: "string option"
  dg_written :: "string list"

definition writeLocked :: "string \<Rightarrow> string \<Rightarrow> debugLog \<Rightarrow> debugLog" where
  "writeLocked stamp text L = L\<lparr>dg_written := dg_written L @ [''['' @ stamp @ ''] '' @ text @ [nl]]\<rparr>"

text \<open>\<^verbatim>\<open>dir\<close> is the configuration directory; \<^verbatim>\<open>made\<close> and \<^verbatim>\<open>opened\<close> are the errors of making the directory and of
  opening the file.\<close>

definition debugEnable ::
  "string + string \<Rightarrow> string option \<Rightarrow> string option \<Rightarrow> string \<Rightarrow> string \<Rightarrow> debugLog \<Rightarrow> (string + string) \<times> debugLog" where
  "debugEnable dir made opened fileStamp stamp L =
     (case (dg_enabled L, dg_file L) of
        (True, Some f) \<Rightarrow> (Inr f, L)
      | _ \<Rightarrow>
          (case dir of
             Inl e \<Rightarrow> (Inl e, L)
           | Inr d \<Rightarrow>
               (case made of
                  Some e \<Rightarrow> (Inl e, L)
                | None \<Rightarrow>
                    (let path = d @ ''/CMD-Chat/logs/crash-'' @ fileStamp @ ''.log'' in
                     case opened of
                       Some e \<Rightarrow> (Inl e, L)
                     | None \<Rightarrow> (Inr path, writeLocked stamp ''Debug logging enabled'' (L\<lparr>dg_file := Some path, dg_enabled := True\<rparr>))))))"

definition debugWrite :: "string \<Rightarrow> string \<Rightarrow> debugLog \<Rightarrow> debugLog" where
  "debugWrite stamp text L = (if \<not> dg_enabled L \<or> dg_file L = None then L else writeLocked stamp text L)"

definition debugReport :: "string \<Rightarrow> string \<Rightarrow> string \<Rightarrow> debugLog \<Rightarrow> debugLog" where
  "debugReport stamp panic stack L =
     (if \<not> dg_enabled L \<or> dg_file L = None then L
      else let L1 = writeLocked stamp (''PANIC: '' @ panic) L in L1\<lparr>dg_written := dg_written L1 @ [stack]\<rparr>)"

text \<open>What a deferred \<^verbatim>\<open>Contain\<close> does with a panic of the goroutine, \<^verbatim>\<open>None\<close> being none.\<close>

definition contain :: "string \<Rightarrow> string option \<Rightarrow> string \<Rightarrow> string \<Rightarrow> debugLog \<Rightarrow> debugLog \<times> console" where
  "contain place panic stamp stack L =
     (case panic of
        None \<Rightarrow> (L, [])
      | Some r \<Rightarrow> (debugReport stamp r stack L, [[nl] @ ''['' @ place @ '' stopped unexpectedly: '' @ r @ '']'' @ [nl]]))"

section \<open>The loopback bridge\<close>

record ipcCommand =
  ic_Cmd :: string
  ic_Message :: string
  ic_ID :: string

record ipcEvent =
  ie_Type :: string
  ie_Message :: string

record ipcJson =
  ij_unmarshal :: "string \<Rightarrow> ipcCommand option"
  ij_marshal :: "ipcEvent \<Rightarrow> string"

definition ipcLimit :: nat where "ipcLimit = 64 * 1024"

fun ipcLoop :: "ipcJson \<Rightarrow> (ipcCommand \<Rightarrow> 's \<Rightarrow> 's) \<Rightarrow> string list \<Rightarrow> 's \<Rightarrow> string list \<times> 's" where
  "ipcLoop J on [] s = ([], s)"
| "ipcLoop J on (l # ls) s =
     (case ij_unmarshal J l of
        None \<Rightarrow> ipcLoop J on ls s
      | Some c \<Rightarrow>
          (case ipcLoop J on ls (on c s) of
             (out, s') \<Rightarrow> ((ij_marshal J \<lparr>ie_Type = ''received'', ie_Message = ''command:'' @ ic_Cmd c\<rparr> @ [nl]) # out, s')))"

text \<open>\<^verbatim>\<open>handle\<close>: the answers, and the state the commands leave.\<close>

definition ipcHandle :: "ipcJson \<Rightarrow> (ipcCommand \<Rightarrow> 's \<Rightarrow> 's) \<Rightarrow> string \<Rightarrow> 's \<Rightarrow> string list \<times> 's" where
  "ipcHandle J on input = ipcLoop J on (scanLines ipcLimit input)"

text \<open>\<^verbatim>\<open>OnCommand\<close>, as \<^verbatim>\<open>startIPC\<close> sets it.\<close>

definition onIPC :: "deskEnv \<Rightarrow> ipcCommand \<Rightarrow> desk \<Rightarrow> desk" where
  "onIPC E c d =
     (if ic_Cmd c = ''status'' then emit (say [''IPC status requested by '' @ ic_ID c]) d
      else if ic_Cmd c = ''send'' then
        (if trimSpace (ic_Message c) \<noteq> '''' then
           onRoom (hostBroadcast (de_crypto E) (de_json E)
             ((packetOf ''msg'')\<lparr>pk_From := ownID d, pk_Name := deskName E d, pk_Text := ic_Message c\<rparr>)) d
         else d)
      else d)"

section \<open>The browser interface\<close>

text \<open>
  \<^verbatim>\<open>(?i)(?:Your ID|Hosting chat for):\s*(cc-[A-Za-z0-9_-]+)\<close>: without case, a \<^verbatim>\<open>k\<close> is also the Kelvin sign and an
  \<^verbatim>\<open>s\<close> the long s, of three and two bytes.
\<close>

definition kelvinSign :: string where "kelvinSign = [CHR 0xE2, CHR 0x84, CHR 0xAA]"
definition longS :: string where "longS = [CHR 0xC5, CHR 0xBF]"

definition eatLetter :: "char \<Rightarrow> string \<Rightarrow> string option" where
  "eatLetter p s =
     (if s \<noteq> '''' \<and> asciiLower (hd s) = p then Some (tl s)
      else if p = CHR ''k'' \<and> hasPrefix s kelvinSign then Some (drop 3 s)
      else if p = CHR ''s'' \<and> hasPrefix s longS then Some (drop 2 s)
      else None)"

fun eatWord :: "string \<Rightarrow> string \<Rightarrow> string option" where
  "eatWord [] s = Some s"
| "eatWord (p # ps) s = (case eatLetter p s of None \<Rightarrow> None | Some r \<Rightarrow> eatWord ps r)"

definition idByte :: "char \<Rightarrow> bool" where
  "idByte c \<longleftrightarrow> c \<in> set ''abcdefghijklmnopqrstuvwxyzABCDEFGHIJKLMNOPQRSTUVWXYZ0123456789_-''"

function idRun :: "string \<Rightarrow> string" where
  "idRun s =
     (if s = '''' then ''''
      else if idByte (hd s) then hd s # idRun (tl s)
      else if hasPrefix s kelvinSign then kelvinSign @ idRun (drop 3 s)
      else if hasPrefix s longS then longS @ idRun (drop 2 s)
      else '''')"
  by pat_completeness auto
termination by (relation "measure length") (auto simp: neq_Nil_conv)

declare idRun.simps [simp del]

definition spaceByte :: "char \<Rightarrow> bool" where "spaceByte c \<longleftrightarrow> c \<in> {CHR 0x09, CHR 0x0A, CHR 0x0C, CHR 0x0D, CHR 0x20}"

definition idAfter :: "string \<Rightarrow> string option" where
  "idAfter s =
     (let t = dropWhile spaceByte s in
      case eatWord ''cc-'' t of
        None \<Rightarrow> None
      | Some r \<Rightarrow> if idRun r = '''' then None else Some (take (length t - length r) t @ idRun r))"

definition idHere :: "string \<Rightarrow> string option" where
  "idHere s =
     (case eatWord ''your id:'' s of
        Some r \<Rightarrow> idAfter r
      | None \<Rightarrow> (case eatWord ''hosting chat for:'' s of Some r \<Rightarrow> idAfter r | None \<Rightarrow> None))"

fun extractID :: "string \<Rightarrow> string" where
  "extractID [] = ''''"
| "extractID (c # s) = (case idHere (c # s) of Some i \<Rightarrow> i | None \<Rightarrow> extractID s)"

text \<open>\<^verbatim>\<open>guiSession\<close>; child processes are numbered. \<^verbatim>\<open>gs_killed\<close> and \<^verbatim>\<open>gs_typed\<close> record the processes killed and what was
  written to their standard input.\<close>

record gui =
  gs_cmd :: "nat option"
  gs_mode :: string
  gs_id :: string
  gs_logs :: "string list"
  gs_connected :: bool
  gs_killed :: "nat list"
  gs_typed :: "(nat \<times> string) list"

definition newGui :: gui where
  "newGui = \<lparr>gs_cmd = None, gs_mode = '''', gs_id = '''', gs_logs = [], gs_connected = False, gs_killed = [], gs_typed = []\<rparr>"

definition maxLogs :: nat where "maxLogs = 500"

definition lastLogs :: "string list \<Rightarrow> string list" where
  "lastLogs ls = (if length ls > maxLogs then drop (length ls - maxLogs) ls else ls)"

definition addLog :: "string \<Rightarrow> gui \<Rightarrow> gui" where
  "addLog line0 g =
     (let line = trimSpace line0 in
      if line = '''' then g
      else let found = extractID line;
               g1 = (if found \<noteq> '''' then g\<lparr>gs_id := found\<rparr> else g);
               g2 = g1\<lparr>gs_logs := lastLogs (gs_logs g1 @ [line])\<rparr>
           in if containsStr line ''Authenticated host'' then g2\<lparr>gs_connected := True\<rparr> else g2)"

definition guiStop :: "gui \<Rightarrow> gui" where
  "guiStop g = (case gs_cmd g of None \<Rightarrow> g | Some p \<Rightarrow> g\<lparr>gs_cmd := None, gs_killed := gs_killed g @ [p]\<rparr>)"

datatype guiAnswer = GuiOk | GuiError string

text \<open>\<^verbatim>\<open>/api/start\<close>: the request, if it could be read, and the child process it starts or the error of starting it; with
  the arguments of the process.\<close>

definition guiArgs :: "string \<Rightarrow> string \<Rightarrow> string list" where
  "guiArgs wanted target = (if wanted = ''join'' then [wanted, trimSpace target] else [wanted])"

definition guiStart :: "(string \<times> string) option \<Rightarrow> (string list \<Rightarrow> string + nat) \<Rightarrow> gui \<Rightarrow> guiAnswer \<times> gui" where
  "guiStart rq launch g =
     (case rq of
        None \<Rightarrow> (GuiError ''Invalid request.'', g)
      | Some (wanted, target) \<Rightarrow>
          (if wanted \<noteq> ''host'' \<and> wanted \<noteq> ''join'' then (GuiError ''Unknown chat mode.'', g)
           else if wanted = ''join'' \<and> trimSpace target = '''' then (GuiError ''Enter your friend's ID.'', g)
           else let g1 = (guiStop g)\<lparr>gs_mode := wanted, gs_id := '''', gs_logs := [], gs_connected := False\<rparr> in
             case launch (guiArgs wanted target) of
               Inl e \<Rightarrow> (GuiError e, g1)
             | Inr p \<Rightarrow> (GuiOk, g1\<lparr>gs_cmd := Some p\<rparr>)))"

definition guiSend :: "string option \<Rightarrow> bool \<Rightarrow> gui \<Rightarrow> guiAnswer \<times> gui" where
  "guiSend rq written g =
     (case rq of
        None \<Rightarrow> (GuiError ''Message is empty.'', g)
      | Some text \<Rightarrow>
          (if trimSpace text = '''' then (GuiError ''Message is empty.'', g)
           else case gs_cmd g of
             None \<Rightarrow> (GuiError ''No active chat.'', g)
           | Some p \<Rightarrow>
               (if written then (GuiOk, g\<lparr>gs_typed := gs_typed g @ [(p, trimSpace text @ [nl])]\<rparr>)
                else (GuiError ''Could not send the message.'', g))))"

definition guiStopped :: "gui \<Rightarrow> gui" where
  "guiStopped g = (guiStop g)\<lparr>gs_mode := '''', gs_id := '''', gs_logs := [], gs_connected := False\<rparr>"

text \<open>A child process ends.\<close>

definition guiExit :: "nat \<Rightarrow> gui \<Rightarrow> gui" where
  "guiExit p g = (if gs_cmd g = Some p then g\<lparr>gs_cmd := None\<rparr> else g)"

text \<open>The reader of a child's output: lines out of the chunks it reads, the unfinished one kept.\<close>

function completeLines :: "string \<Rightarrow> string list \<times> string" where
  "completeLines s =
     (if nl \<notin> set s then ([], s)
      else case completeLines (tl (dropWhile (\<lambda>c. c \<noteq> nl) s)) of
        (ls, p) \<Rightarrow> (takeWhile (\<lambda>c. c \<noteq> nl) s # ls, p))"
  by pat_completeness auto
termination
proof (relation "measure length", goal_cases)
  case (2 s)
  then have "dropWhile (\<lambda>c. c \<noteq> nl) s \<noteq> []" by auto
  then have "length (tl (dropWhile (\<lambda>c. c \<noteq> nl) s)) < length (dropWhile (\<lambda>c. c \<noteq> nl) s)" by (cases "dropWhile (\<lambda>c. c \<noteq> nl) s") simp_all
  then show ?case using length_dropWhile_le [of "\<lambda>c. c \<noteq> nl" s] by simp
qed simp

declare completeLines.simps [simp del]

fun pumpLines :: "string \<Rightarrow> string list \<Rightarrow> string list" where
  "pumpLines pending [] = (if pending \<noteq> '''' then [pending] else [])"
| "pumpLines pending (c # cs) = (case completeLines (pending @ c) of (ls, p) \<Rightarrow> ls @ pumpLines p cs)"

definition guiOutput :: "string list \<Rightarrow> gui \<Rightarrow> gui" where
  "guiOutput chunks g = fold addLog (pumpLines '''' chunks) g"

text \<open>\<^verbatim>\<open>openBrowser\<close>: the program it starts, by operating system.\<close>

definition openBrowser :: "string \<Rightarrow> string \<Rightarrow> string + string list" where
  "openBrowser os url =
     (if \<not> hasPrefix url ''http://127.0.0.1:'' then Inl ''refusing to open non-local URL''
      else if os = ''windows'' then Inr [''rundll32'', ''url.dll,FileProtocolHandler'', url]
      else if os = ''darwin'' then Inr [''open'', ''--'', url]
      else Inr [''xdg-open'', url])"

inductive gui_step :: "gui \<Rightarrow> gui \<Rightarrow> bool" where
  starts: "gui_step g (snd (guiStart rq launch g))"
| sends: "gui_step g (snd (guiSend text written g))"
| stops: "gui_step g (guiStopped g)"
| ends: "gui_step g (guiExit p g)"
| prints: "gui_step g (addLog line g)"

inductive gui_reach :: "gui \<Rightarrow> bool" where
  gui_new: "gui_reach newGui"
| gui_more: "gui_reach g \<Longrightarrow> gui_step g g' \<Longrightarrow> gui_reach g'"

section \<open>Reading a child's output\<close>

lemma completeLines_rest: "completeLines s = (ls, p) \<Longrightarrow> nl \<notin> set p"
proof (induction s arbitrary: ls rule: completeLines.induct)
  case (1 s)
  then show ?case by (auto simp: completeLines.simps [of s] split: if_splits prod.splits)
qed

lemma completeLines_append:
  "completeLines (s @ t) = (case completeLines s of (ls, p) \<Rightarrow> case completeLines (p @ t) of (ms, q) \<Rightarrow> (ls @ ms, q))"
proof (induction s rule: completeLines.induct)
  case (1 s)
  show ?case
  proof (cases "nl \<in> set s")
    case False
    then show ?thesis by (simp add: completeLines.simps [of s] split: prod.split)
  next
    case True
    then have d: "dropWhile (\<lambda>c. c \<noteq> nl) (s @ t) = dropWhile (\<lambda>c. c \<noteq> nl) s @ t" "takeWhile (\<lambda>c. c \<noteq> nl) (s @ t) = takeWhile (\<lambda>c. c \<noteq> nl) s"
      by (auto simp: dropWhile_append1 takeWhile_append1)
    have "dropWhile (\<lambda>c. c \<noteq> nl) s \<noteq> []" using True by auto
    then have "tl (dropWhile (\<lambda>c. c \<noteq> nl) s @ t) = tl (dropWhile (\<lambda>c. c \<noteq> nl) s) @ t" by (cases "dropWhile (\<lambda>c. c \<noteq> nl) s") simp_all
    then show ?thesis using True 1 by (simp add: completeLines.simps [of "s @ t"] completeLines.simps [of s] d split: prod.split)
  qed
qed

lemma pump_whole: "nl \<notin> set p \<Longrightarrow> pumpLines p cs = (case completeLines (p @ concat cs) of (ls, q) \<Rightarrow> ls @ (if q \<noteq> '''' then [q] else []))"
proof (induction cs arbitrary: p)
  case Nil
  then show ?case by (simp add: completeLines.simps [of p])
next
  case (Cons c cs)
  obtain ls q where l: "completeLines (p @ c) = (ls, q)" by (metis surj_pair)
  show ?case using Cons.IH [OF completeLines_rest [OF l]] completeLines_append [of "p @ c" "concat cs"] l by (simp split: prod.split)
qed

lemma pump_chunks: "pumpLines '''' cs = pumpLines '''' [concat cs]"
  using pump_whole [of "''''" cs] pump_whole [of "''''" "[concat cs]"] by simp

lemma last_last: "lastLogs (lastLogs a @ b) = lastLogs (a @ b)"
  by (auto simp: lastLogs_def add.commute)

lemma last_fits: "length (lastLogs ls) \<le> maxLogs" by (simp add: lastLogs_def)

definition shownLines :: "string list \<Rightarrow> string list" where
  "shownLines ls = filter (\<lambda>l. l \<noteq> '''') (map trimSpace ls)"

lemma addLog_logs: "length (gs_logs g) \<le> maxLogs \<Longrightarrow> gs_logs (addLog l g) = lastLogs (gs_logs g @ shownLines [l])"
  by (simp add: addLog_def shownLines_def lastLogs_def Let_def)

lemma fold_logs: "length (gs_logs g) \<le> maxLogs \<Longrightarrow> gs_logs (fold addLog ls g) = lastLogs (gs_logs g @ shownLines ls)"
proof (induction ls arbitrary: g)
  case Nil
  then show ?case by (simp add: shownLines_def lastLogs_def)
next
  case (Cons l ls)
  have "length (gs_logs (addLog l g)) \<le> maxLogs" using addLog_logs [OF Cons.prems] last_fits by simp
  then have "gs_logs (fold addLog ls (addLog l g)) = lastLogs (lastLogs (gs_logs g @ shownLines [l]) @ shownLines ls)"
    using Cons.IH addLog_logs [OF Cons.prems] by simp
  also have "\<dots> = lastLogs (gs_logs g @ shownLines (l # ls))" unfolding last_last by (simp add: shownLines_def)
  finally show ?case by simp
qed

lemma reach_logs: "gui_reach g \<Longrightarrow> length (gs_logs g) \<le> maxLogs"
proof (induction rule: gui_reach.induct)
  case (gui_more g g')
  have s: "gs_logs (guiStop g) = gs_logs g" by (simp add: guiStop_def split: option.split)
  from gui_more(2) show ?case
  proof cases
    case (starts rq launch)
    then show ?thesis using gui_more.IH by (auto simp: guiStart_def Let_def maxLogs_def split: option.split sum.split)
  next
    case (sends rq written)
    then show ?thesis using gui_more.IH by (auto simp: guiSend_def split: option.split)
  next
    case stops
    then show ?thesis by (simp add: guiStopped_def)
  next
    case (ends p)
    then show ?thesis using gui_more.IH by (simp add: guiExit_def)
  next
    case (prints line)
    then show ?thesis using addLog_logs [OF gui_more.IH] last_fits by simp
  qed
qed (simp add: newGui_def)

section \<open>Properties\<close>

text \<open>The browser interface shows a child's output as lines, however the pipe cuts it: whatever was asked of it
  before, after reading the output in any chunks its log is the last 500 of the lines it had and the non-blank lines
  of the whole output, trimmed; and it never holds more than 500.\<close>

theorem gui_shows_output:
  assumes "gui_reach g"
  shows "gs_logs (guiOutput chunks g) = lastLogs (gs_logs g @ shownLines (pumpLines '''' [concat chunks]))
     \<and> length (gs_logs (guiOutput chunks g)) \<le> 500"
  using fold_logs [OF reach_logs [OF assms]] pump_chunks [of chunks] last_fits by (simp add: guiOutput_def maxLogs_def)

theorem gui_shows_output_witness:
  "gs_logs (guiOutput [''Your'', '' ID: cc-A'' @ [nl], ''hi''] newGui) = lastLogs (shownLines (pumpLines '''' [''Your ID: cc-A'' @ [nl] @ ''hi'']))"
  using gui_shows_output [OF gui_new, of "[''Your'', '' ID: cc-A'' @ [nl], ''hi'']"] by (simp add: newGui_def)

end
